(* ===== verification/Prelude.thy ===== *)
theory Prelude
  imports Main "HOL-Library.Multiset" "HOL-Library.AList"
begin

text \<open>
  Shared ground of the development: Go's \<open>time.Time\<close> and \<open>time.Duration\<close>, wrap-around
  of \<open>int64\<close>, truncating division, the decimal printer and parser of \<open>fmt\<close> and
  \<open>strconv\<close>, the string functions the sources call, the three ways a Go call can end
  (value, error, panic), the iteration order of a Go map, and the ambient world every
  component reads: clock, random source and the Prometheus registry.
\<close>

section \<open>The automation collection\<close>

named_theorems op_defs "the records of operations that implementations hand to their clients"

section \<open>How a Go call ends\<close>

datatype 'a res = Ok 'a | Panic string

primrec res_map :: "('a \<Rightarrow> 'b) \<Rightarrow> 'a res \<Rightarrow> 'b res" where
  "res_map f (Ok x) = Ok (f x)"
| "res_map f (Panic m) = Panic m"

section \<open>Integers, durations and instants\<close>

text \<open>
  An \<open>int64\<close> is an \<open>int\<close> whose arithmetic is wrapped by \<open>wrap64\<close> where the
  sources can leave the range. A duration counts nanoseconds. An instant counts nanoseconds
  from the Unix epoch; Go keeps instants in more than 64 bits, so they do not wrap.
\<close>

type_synonym duration = int
type_synonym time = int

abbreviation millisecond :: duration where "millisecond \<equiv> 1000000"
abbreviation second :: duration where "second \<equiv> 1000000000"
abbreviation hour :: duration where "hour \<equiv> 3600000000000"

definition zero_time :: time where
  "zero_time = - 62135596800 * second"

definition IsZero :: "time \<Rightarrow> bool" where
  "IsZero t \<longleftrightarrow> t = zero_time"

definition Unix :: "time \<Rightarrow> int" where
  "Unix t = t div second"

definition wrap64 :: "int \<Rightarrow> int" where
  "wrap64 x = (x + 2 ^ 63) mod 2 ^ 64 - 2 ^ 63"

definition int64_ok :: "int \<Rightarrow> bool" where
  "int64_ok x \<longleftrightarrow> - (2 ^ 63) \<le> x \<and> x < 2 ^ 63"

definition go_quot :: "int \<Rightarrow> int \<Rightarrow> int" where
  "go_quot a b = sgn a * sgn b * (\<bar>a\<bar> div \<bar>b\<bar>)"

lemma wrap64_range: "int64_ok (wrap64 x)"
proof -
  have "0 \<le> (x + 2 ^ 63) mod 2 ^ 64" "(x + 2 ^ 63) mod 2 ^ 64 < (2::int) ^ 64"
    by simp_all
  then show ?thesis unfolding wrap64_def int64_ok_def by simp
qed

lemma wrap64_id: "int64_ok x \<Longrightarrow> wrap64 x = x"
  unfolding wrap64_def int64_ok_def by simp

lemma go_quot_nonneg: "0 \<le> a \<Longrightarrow> 0 < b \<Longrightarrow> go_quot a b = a div b"
  by (auto simp: go_quot_def sgn_if)

section \<open>Decimal text\<close>

definition digit_char :: "nat \<Rightarrow> char" where
  "digit_char d = char_of (48 + d)"

fun show_nat :: "nat \<Rightarrow> string" where
  "show_nat n = (if n < 10 then [digit_char n] else show_nat (n div 10) @ [digit_char (n mod 10)])"

declare show_nat.simps [simp del]

definition show_int :: "int \<Rightarrow> string" where
  "show_int i = (if i < 0 then CHR ''-'' # show_nat (nat (- i)) else show_nat (nat i))"

definition is_digit :: "char \<Rightarrow> bool" where
  "is_digit c \<longleftrightarrow> 48 \<le> (of_char c :: nat) \<and> (of_char c :: nat) \<le> 57"

definition digit_val :: "char \<Rightarrow> nat" where
  "digit_val c = of_char c - 48"

definition digits_val :: "string \<Rightarrow> nat" where
  "digits_val s = foldl (\<lambda>a c. 10 * a + digit_val c) 0 s"

text \<open>\<open>strconv.Atoi\<close> and \<open>ParseInt(v, 10, 64)\<close>: an optional sign, at least one digit,
  a value of the \<open>int64\<close> range; anything else is an error.\<close>

definition Atoi :: "string \<Rightarrow> int option" where
  "Atoi s =
     (let neg = (s \<noteq> [] \<and> hd s = CHR ''-'');
          body = (if s \<noteq> [] \<and> (hd s = CHR ''-'' \<or> hd s = CHR ''+'') then tl s else s);
          v = (if neg then - int (digits_val body) else int (digits_val body))
      in if body \<noteq> [] \<and> list_all is_digit body \<and> int64_ok v then Some v else None)"

text \<open>\<open>strconv.ParseUint(v, 10, 64)\<close>: digits only, below \<open>2 ^ 64\<close>.\<close>

definition ParseUint :: "string \<Rightarrow> nat option" where
  "ParseUint s =
     (if s \<noteq> [] \<and> list_all is_digit s \<and> digits_val s < 2 ^ 64 then Some (digits_val s) else None)"

lemma of_char_digit_char: "d < 10 \<Longrightarrow> (of_char (digit_char d) :: nat) = 48 + d"
  by (simp add: digit_char_def)

lemma is_digit_digit_char [simp]: "d < 10 \<Longrightarrow> is_digit (digit_char d)"
  by (simp add: is_digit_def of_char_digit_char)

lemma digit_val_digit_char [simp]: "d < 10 \<Longrightarrow> digit_val (digit_char d) = d"
  by (simp add: digit_val_def of_char_digit_char)

lemma show_nat_digits: "list_all is_digit (show_nat n)"
proof (induction n rule: show_nat.induct)
  case (1 n)
  then show ?case by (subst show_nat.simps) (auto simp: list_all_append)
qed

lemma show_nat_nonempty [simp]: "show_nat n \<noteq> []"
  by (subst show_nat.simps) simp

lemma digits_val_append: "digits_val (s @ [c]) = 10 * digits_val s + digit_val c"
  by (simp add: digits_val_def)

lemma digits_val_show_nat [simp]: "digits_val (show_nat n) = n"
proof (induction n rule: show_nat.induct)
  case (1 n)
  show ?case
  proof (cases "n < 10")
    case True
    then show ?thesis by (subst show_nat.simps) (simp add: digits_val_def)
  next
    case False
    with "1.IH" show ?thesis by (subst show_nat.simps) (simp add: digits_val_append)
  qed
qed

lemma show_nat_length: "0 < d \<Longrightarrow> n < 10 ^ d \<Longrightarrow> length (show_nat n) \<le> d"
proof (induction d arbitrary: n)
  case (Suc d)
  show ?case
  proof (cases "n < 10")
    case True
    then show ?thesis by (subst show_nat.simps) simp
  next
    case False
    have "n div 10 < 10 ^ d" using Suc.prems(2) by (simp add: less_mult_imp_div_less mult.commute)
    moreover have "0 < d" using False Suc.prems(2) by (cases d) auto
    ultimately have "length (show_nat (n div 10)) \<le> d" using Suc.IH by blast
    then show ?thesis using False by (subst show_nat.simps) simp
  qed
qed simp

lemma show_nat_inj: "show_nat m = show_nat n \<longleftrightarrow> m = n"
  by (metis digits_val_show_nat)

lemma show_nat_hd: "is_digit (hd (show_nat n))"
  using show_nat_digits [of n] by (cases "show_nat n") auto

lemma not_digit_minus: "\<not> is_digit (CHR ''-'')" "\<not> is_digit (CHR ''+'')" "\<not> is_digit (CHR '':'')"
  by (simp_all add: is_digit_def)

lemma show_nat_not_minus: "show_nat n \<noteq> CHR ''-'' # s"
  by (metis list.sel(1) not_digit_minus(1) show_nat_hd)

lemma show_int_inj: "show_int a = show_int b \<longleftrightarrow> a = b"
  by (auto simp: show_int_def show_nat_inj show_nat_not_minus show_nat_not_minus [symmetric])

lemma Atoi_show_int: "int64_ok i \<Longrightarrow> Atoi (show_int i) = Some i"
proof -
  assume ok: "int64_ok i"
  show ?thesis
  proof (cases "i < 0")
    case True
    with ok show ?thesis by (simp add: Atoi_def show_int_def show_nat_digits)
  next
    case False
    have "hd (show_nat (nat i)) \<noteq> CHR ''-''" "hd (show_nat (nat i)) \<noteq> CHR ''+''"
      using show_nat_hd [of "nat i"] not_digit_minus by metis+
    with False ok show ?thesis
      by (simp add: Atoi_def show_int_def show_nat_digits)
  qed
qed

section \<open>String functions of Go and JavaScript\<close>

text \<open>Strings are byte lists; the case mappings are those of ASCII text.\<close>

definition upper_char :: "char \<Rightarrow> char" where
  "upper_char c = (let n = (of_char c :: nat) in if 97 \<le> n \<and> n \<le> 122 then char_of (n - 32) else c)"

definition lower_char :: "char \<Rightarrow> char" where
  "lower_char c = (let n = (of_char c :: nat) in if 65 \<le> n \<and> n \<le> 90 then char_of (n + 32) else c)"

definition ToUpper :: "string \<Rightarrow> string" where "ToUpper s = map upper_char s"
definition ToLower :: "string \<Rightarrow> string" where "ToLower s = map lower_char s"

definition startsWith :: "string \<Rightarrow> string \<Rightarrow> bool" where
  "startsWith s p \<longleftrightarrow> take (length p) s = p"

fun contains_sub :: "string \<Rightarrow> string \<Rightarrow> bool" where
  "contains_sub [] p \<longleftrightarrow> p = []"
| "contains_sub (c # s) p \<longleftrightarrow> startsWith (c # s) p \<or> contains_sub s p"

text \<open>\<open>strings.Split\<close> / \<open>String.split\<close> with a one-character separator: never empty.\<close>

fun split_on :: "char \<Rightarrow> string \<Rightarrow> string list" where
  "split_on d [] = [[]]"
| "split_on d (c # s) =
     (if c = d then [] # split_on d s
      else case split_on d s of [] \<Rightarrow> [[c]] | w # ws \<Rightarrow> (c # w) # ws)"

fun join_with :: "string \<Rightarrow> string list \<Rightarrow> string" where
  "join_with d [] = []"
| "join_with d [w] = w"
| "join_with d (w # v # ws) = w @ d @ join_with d (v # ws)"

lemma split_on_nonempty [simp]: "split_on d s \<noteq> []"
  by (induction d s rule: split_on.induct) (auto split: list.splits)

lemma split_on_no_sep: "d \<notin> set s \<Longrightarrow> split_on d s = [s]"
  by (induction s) auto

lemma split_on_append_sep: "d \<notin> set s \<Longrightarrow> split_on d (s @ d # t) = s # split_on d t"
  by (induction s) auto

lemma split_join: "ws \<noteq> [] \<Longrightarrow> \<forall>w \<in> set ws. d \<notin> set w \<Longrightarrow> split_on d (join_with [d] ws) = ws"
proof (induction "[d]" ws rule: join_with.induct)
  case (3 w v ws)
  then show ?case by (simp add: split_on_append_sep)
qed (auto simp: split_on_no_sep)

lemma length_ToUpper [simp]: "length (ToUpper s) = length s"
  by (simp add: ToUpper_def)

lemma of_char_upper_char:
  "(of_char (upper_char c) :: nat) =
     (if 97 \<le> (of_char c :: nat) \<and> (of_char c :: nat) \<le> 122 then of_char c - 32 else of_char c)"
  by (auto simp: upper_char_def Let_def)

lemma upper_char_idem [simp]: "upper_char (upper_char c) = upper_char c"
proof -
  have "(of_char (upper_char (upper_char c)) :: nat) = of_char (upper_char c)"
    by (auto simp: of_char_upper_char)
  then show ?thesis by (simp only: of_char_eq_iff)
qed

lemma ToUpper_idem [simp]: "ToUpper (ToUpper s) = ToUpper s"
  by (simp add: ToUpper_def)

lemma upper_char_colon: "upper_char c = CHR '':'' \<longleftrightarrow> c = CHR '':''"
proof -
  have "(of_char (upper_char c) :: nat) = of_char (CHR '':'') \<longleftrightarrow> (of_char c :: nat) = of_char (CHR '':'')"
    by (auto simp: of_char_upper_char)
  then show ?thesis by (simp only: of_char_eq_iff)
qed

lemma ToUpper_colon: "CHR '':'' \<in> set (ToUpper s) \<longleftrightarrow> CHR '':'' \<in> set s"
proof -
  have "upper_char (CHR '':'') = CHR '':''" by (simp add: upper_char_colon)
  then show ?thesis unfolding ToUpper_def set_map image_iff by (metis upper_char_colon)
qed

section \<open>Iteration order of a Go map\<close>

text \<open>
  \<open>range\<close> over a Go map visits the entries in an unspecified order. The order is an oracle
  that may permute the entries in any way; an oracle value that is no permutation counts as
  the identity, so \<open>reorder\<close> covers exactly the permutations.
\<close>

definition reorder :: "('a list \<Rightarrow> 'a list) \<Rightarrow> 'a list \<Rightarrow> 'a list" where
  "reorder ord xs = (if mset (ord xs) = mset xs then ord xs else xs)"

lemma mset_reorder [simp]: "mset (reorder ord xs) = mset xs"
  by (simp add: reorder_def)

lemma set_reorder [simp]: "set (reorder ord xs) = set xs"
  by (metis mset_reorder set_mset_mset)

lemma length_reorder [simp]: "length (reorder ord xs) = length xs"
  by (metis mset_reorder size_mset)

lemma distinct_reorder [simp]: "distinct (reorder ord xs) = distinct xs"
  by (metis mset_reorder mset_eq_imp_distinct_iff)

lemma distinct_map_reorder [simp]: "distinct (map f (reorder ord xs)) = distinct (map f xs)"
  by (metis mset_map mset_reorder mset_eq_imp_distinct_iff)

lemma reorder_Nil [simp]: "reorder ord [] = []"
  by (metis length_0_conv length_reorder)

section \<open>The ambient world\<close>

text \<open>
  The clock is an oracle: the \<open>n\<close>-th reading of \<open>clock.Now\<close> or \<open>time.Now\<close> in the
  process is \<open>clk n\<close>. The random source is an oracle of the same shape. The Prometheus
  registry is the trace of the updates made to it, latest first.
\<close>

datatype metric =
    Inc string "string list"
  | Observe string "string list" int
  | GaugeAdd string int

record world =
  clk :: "nat \<Rightarrow> time"
  reads :: nat
  rnd :: "nat \<Rightarrow> nat"
  draws :: nat
  trace :: "metric list"

definition Now :: "world \<Rightarrow> time" where
  "Now w = clk w (reads w)"

definition tick :: "world \<Rightarrow> world" where
  "tick w = w\<lparr>reads := Suc (reads w)\<rparr>"

definition emit :: "metric \<Rightarrow> world \<Rightarrow> world" where
  "emit m w = w\<lparr>trace := m # trace w\<rparr>"

text \<open>\<open>rand.Int64N(n)\<close> for \<open>n > 0\<close>: some value of \<open>[0, n)\<close>.\<close>

definition Int64N :: "int \<Rightarrow> world \<Rightarrow> int \<times> world" where
  "Int64N n w = (int (rnd w (draws w)) mod n, w\<lparr>draws := Suc (draws w)\<rparr>)"

definition counter :: "string \<Rightarrow> string list \<Rightarrow> world \<Rightarrow> nat" where
  "counter name labels w = count_list (trace w) (Inc name labels)"

lemma world_frame [simp]:
  "clk (tick w) = clk w" "trace (tick w) = trace w" "rnd (tick w) = rnd w" "draws (tick w) = draws w"
  "reads (tick w) = Suc (reads w)"
  "clk (emit m w) = clk w" "reads (emit m w) = reads w" "rnd (emit m w) = rnd w" "draws (emit m w) = draws w"
  "trace (emit m w) = m # trace w"
  by (simp_all add: tick_def emit_def)

lemma counter_frame [simp]:
  "counter n l (tick w) = counter n l w"
  "counter n l (emit m w) = (if m = Inc n l then Suc (counter n l w) else counter n l w)"
  by (simp_all add: counter_def)

lemma Int64N_range: "0 < n \<Longrightarrow> 0 \<le> fst (Int64N n w) \<and> fst (Int64N n w) < n"
  by (simp add: Int64N_def)

text \<open>What every operation keeps of the world: the two oracles.\<close>

definition same_oracles :: "world \<Rightarrow> world \<Rightarrow> bool" where
  "same_oracles w w' \<longleftrightarrow> clk w' = clk w \<and> rnd w' = rnd w"

lemma same_oracles_refl [simp, intro]: "same_oracles w w"
  by (simp add: same_oracles_def)

lemma same_oracles_trans [trans]: "same_oracles w w' \<Longrightarrow> same_oracles w' w'' \<Longrightarrow> same_oracles w w''"
  by (simp add: same_oracles_def)

lemma same_oracles_step [simp]:
  "same_oracles w (tick w') = same_oracles w w'" "same_oracles w (emit m w') = same_oracles w w'"
  by (simp_all add: same_oracles_def)

text \<open>A concrete world for the closed instances: a clock that advances by one second per reading,
  starting 100 seconds after the epoch.\<close>

definition sample_world :: world where
  "sample_world = \<lparr>clk = (\<lambda>n. (100 + int n) * second), reads = 0, rnd = (\<lambda>n. 7 * n), draws = 0, trace = []\<rparr>"

section \<open>Postgres text types\<close>

text \<open>A value of type \<open>CHAR(3)\<close>: padded with blanks, over-long text refused unless the excess
  is blank.\<close>

definition bpchar3 :: "string \<Rightarrow> string option" where
  "bpchar3 s =
     (if length s \<le> 3 then Some (s @ replicate (3 - length s) (CHR '' ''))
      else if list_all (\<lambda>c. c = CHR '' '') (drop 3 s) then Some (take 3 s) else None)"

lemma bpchar3_exact: "length s = 3 \<Longrightarrow> bpchar3 s = Some s"
  by (simp add: bpchar3_def)

section \<open>Association lists\<close>

lemma map_of_map_values:
  "map_of (map (\<lambda>(k, v). (k, f k v)) xs) k = map_option (f k) (map_of xs k)"
  by (induction xs) auto

lemma fst_map_values [simp]: "fst \<circ> (\<lambda>(k, v). (k, f k v)) = fst"
  by (auto simp: fun_eq_iff)

lemma keys_map_values [simp]: "map fst (map (\<lambda>(k, v). (k, f k v)) xs) = map fst xs"
  by (induction xs) auto

lemma set_update_subset: "set (AList.update k v xs) \<subseteq> insert (k, v) (set xs)"
  by (induction xs) auto

lemma sorted_take_sort_key:
  assumes "x \<in> set (take n (sort_key f xs))" and "y \<in> set xs" and "y \<notin> set (take n (sort_key f xs))"
  shows "f x \<le> f y"
proof -
  let ?ys = "sort_key f xs"
  have "y \<in> set (drop n ?ys)"
    using assms(2,3) by (metis Un_iff append_take_drop_id set_append set_sort)
  moreover have "sorted (map f (take n ?ys @ drop n ?ys))" by simp
  ultimately show ?thesis
    using assms(1) by (auto simp del: append_take_drop_id simp: sorted_append)
qed

lemma take_sort_leftover:
  assumes "y \<in> set xs" and "y \<notin> set (take n (sort_key f xs))"
  shows "length (take n (sort_key f xs)) = n"
proof (rule ccontr)
  assume "length (take n (sort_key f xs)) \<noteq> n"
  then have "length xs \<le> n" by simp
  then have "take n (sort_key f xs) = sort_key f xs" by simp
  with assms show False by simp
qed

lemma distinct_map_take_sort:
  assumes "distinct (map g xs)"
  shows "distinct (map g (take n (sort_key f (filter P (reorder ord xs)))))"
proof -
  let ?ys = "filter P (reorder ord xs)"
  have "mset (map g (sort_key f ?ys)) = mset (map g ?ys)" by simp
  then have "distinct (map g (sort_key f ?ys)) = distinct (map g ?ys)" by (rule mset_eq_imp_distinct_iff)
  also have "\<dots>" using assms by (simp add: distinct_map_filter)
  finally show ?thesis unfolding take_map [symmetric] by (rule distinct_take)
qed

lemma card_image_filter:
  assumes "distinct (map g xs)"
  shows "card (g ` set (filter P xs)) = length (filter P xs)"
proof -
  have "distinct (map g (filter P xs))" using assms by (rule distinct_map_filter)
  from distinct_card [OF this] show ?thesis by simp
qed

end
