(* ===== verification/Rates_Provider.thy ===== *)
theory Rates_Provider
  imports Prelude
begin

text \<open>
  The provider seam, \<open>internal/ratesprovider/provider.go\<close>: currency pairs, quotes, the
  outcome of a fetch, \<open>ProviderError\<close> with its text, and the Go error values the whole
  program passes around with \<open>errors.Is\<close> and \<open>errors.As\<close>. The contract of
  \<open>FetchPairs\<close> is the locale \<open>rates_provider\<close>; its two implementations interpret it.
\<close>

section \<open>Pairs, quotes, results\<close>

datatype pair = Pair (Base: string) (Quote: string)

record 'd quote =
  quo_Pair :: pair
  quo_Price :: 'd
  quo_FetchedAt :: time

record 'd fetch_result =
  fr_Quotes :: "pair \<rightharpoonup> 'd quote"
  fr_Missing :: "pair list"

section \<open>Error values\<close>

text \<open>
  One datatype for the \<open>error\<close> values the sources create: the sentinels of the queue, of
  the quote repository and of pgx, an \<open>errors.New\<close> text, a failure reported by the
  database or the network (\<open>IOError\<close>, whose text is not ours), \<open>fmt.Errorf\<close> with
  \<open>%w\<close>, and \<open>*ProviderError\<close>.
\<close>

datatype error =
    ErrNotFound | ErrNotReserved | ErrInvalidSource | ErrNoData | ErrNoRows | Canceled
  | ErrorsNew string
  | IOError string
  | Wrapf string error
  | ProviderError (Code: string) (HTTPCode: int) (APICode: int) (Message: string) (Cause: "error option")

definition provider_error_head :: "string \<Rightarrow> int \<Rightarrow> int \<Rightarrow> string \<Rightarrow> string" where
  "provider_error_head code http api msg =
     ''provider error ['' @ code @ '']''
     @ (if http \<noteq> 0 then '' http='' @ show_int http else [])
     @ (if api \<noteq> 0 then '' api_code='' @ show_int api else [])
     @ '': '' @ msg"

fun Error :: "error \<Rightarrow> string" where
  "Error ErrNotFound = ''job not found''"
| "Error ErrNotReserved = ''job not in running state''"
| "Error ErrInvalidSource = ''invalid job source''"
| "Error ErrNoData = ''no quote for pair''"
| "Error ErrNoRows = ''no rows in result set''"
| "Error Canceled = ''context canceled''"
| "Error (ErrorsNew m) = m"
| "Error (IOError m) = m"
| "Error (Wrapf p e) = p @ '': '' @ Error e"
| "Error (ProviderError c h a m cause) =
     provider_error_head c h a m @ (case cause of None \<Rightarrow> [] | Some e \<Rightarrow> '': '' @ Error e)"

text \<open>\<open>Unwrap\<close> follows \<open>%w\<close> and \<open>ProviderError.Cause\<close>; \<open>errors.Is\<close> walks that chain
  for a sentinel and \<open>errors.As\<close> for the first \<open>*ProviderError\<close>.\<close>

fun Unwrap :: "error \<Rightarrow> error option" where
  "Unwrap (Wrapf p e) = Some e"
| "Unwrap (ProviderError c h a m cause) = cause"
| "Unwrap _ = None"

fun errors_Is :: "error \<Rightarrow> error \<Rightarrow> bool" where
  "errors_Is (Wrapf p e) t \<longleftrightarrow> errors_Is e t"
| "errors_Is (ProviderError c h a m cause) t \<longleftrightarrow> (case cause of None \<Rightarrow> False | Some e \<Rightarrow> errors_Is e t)"
| "errors_Is e t \<longleftrightarrow> e = t"

fun errors_As_ProviderError :: "error \<Rightarrow> error option" where
  "errors_As_ProviderError (ProviderError c h a m cause) = Some (ProviderError c h a m cause)"
| "errors_As_ProviderError (Wrapf p e) = errors_As_ProviderError e"
| "errors_As_ProviderError _ = None"

definition IsTransient :: "error \<Rightarrow> bool" where
  "IsTransient e \<longleftrightarrow> (case e of ProviderError c _ _ _ _ \<Rightarrow> c = ''transient'' \<or> c = ''quota_exceeded'' | _ \<Rightarrow> False)"

fun is_io :: "error \<Rightarrow> bool" where
  "is_io (Wrapf p e) \<longleftrightarrow> is_io e"
| "is_io (IOError m) \<longleftrightarrow> True"
| "is_io _ \<longleftrightarrow> False"

lemma errors_As_is_ProviderError:
  "errors_As_ProviderError e = Some p \<Longrightarrow> \<exists>c h a m cause. p = ProviderError c h a m cause"
  by (induction e rule: errors_As_ProviderError.induct) auto

lemma is_io_not_sentinel:
  "is_io e \<Longrightarrow> \<not> errors_Is e ErrNotFound \<and> \<not> errors_Is e ErrNotReserved \<and> \<not> errors_Is e ErrInvalidSource
     \<and> \<not> errors_Is e ErrNoData \<and> \<not> errors_Is e ErrNoRows"
  by (induction e rule: is_io.induct) auto

section \<open>The interface\<close>

text \<open>\<open>RatesProvider\<close> with one method; the state of an implementation is passed explicitly.\<close>

record ('p, 'd) provider_ops =
  FetchPairs :: "pair list \<Rightarrow> 'p \<Rightarrow> world \<Rightarrow> (error + 'd fetch_result) \<times> 'p \<times> world"

text \<open>What every implementation promises of a successful call: each requested pair is in
  exactly one of \<open>Quotes\<close> and \<open>Missing\<close>, \<open>Missing\<close> has no duplicates and no pair that was
  not asked for, and an entry of \<open>Quotes\<close> carries the pair it is filed under.\<close>

definition fetch_ok :: "pair list \<Rightarrow> 'd fetch_result \<Rightarrow> bool" where
  "fetch_ok ps res \<longleftrightarrow>
     set (fr_Missing res) = set ps - dom (fr_Quotes res) \<and> distinct (fr_Missing res)
     \<and> (\<forall>p q. fr_Quotes res p = Some q \<longrightarrow> quo_Pair q = p)"

locale rates_provider =
  fixes pops :: "('p, 'd) provider_ops"
  assumes fetch_sound: "FetchPairs pops ps s w = (Inr res, s', w') \<Longrightarrow> fetch_ok ps res"
    and fetch_oracles: "FetchPairs pops ps s w = (out, s', w') \<Longrightarrow> same_oracles w w'"
begin

lemma requested_pair_accounted:
  assumes "FetchPairs pops ps s w = (Inr res, s', w')" and "p \<in> set ps"
  shows "(\<exists>q. fr_Quotes res p = Some q \<and> quo_Pair q = p \<and> p \<notin> set (fr_Missing res))
       \<or> (fr_Quotes res p = None \<and> p \<in> set (fr_Missing res))"
  using fetch_sound [OF assms(1)] assms(2) by (cases "fr_Quotes res p") (auto simp: fetch_ok_def)

end

text \<open>
  The bookkeeping both implementations share: the input pairs absent from a result, each
  once, in the order of their first occurrence.
\<close>

fun missing_pairs :: "(pair \<rightharpoonup> 'd quote) \<Rightarrow> pair set \<Rightarrow> pair list \<Rightarrow> pair list" where
  "missing_pairs m seen [] = []"
| "missing_pairs m seen (p # ps) =
     (if m p = None \<and> p \<notin> seen then p # missing_pairs m (insert p seen) ps
      else missing_pairs m seen ps)"

lemma set_missing_pairs: "set (missing_pairs m seen ps) = {p \<in> set ps. m p = None \<and> p \<notin> seen}"
  by (induction ps arbitrary: seen) auto

lemma distinct_missing_pairs: "distinct (missing_pairs m seen ps)"
  by (induction ps arbitrary: seen) (auto simp: set_missing_pairs)

end
