(* ===== verification/Sha256.thy ===== *)
theory Sha256
  imports Prelude "HOL-Library.Word"
begin

text \<open>
  \<open>crypto/sha256\<close> and \<open>encoding/hex\<close> of the Go standard library, which
  \<open>internal/queue/dedupkey.go\<close> applies to the text of a coalescing key: the compression
  function of FIPS 180-4 over 32-bit words, the padding, and lower-case hexadecimal output.
\<close>

unbundle bit_operations_syntax

type_synonym u32 = "32 word"
type_synonym hash_state = "u32 \<times> u32 \<times> u32 \<times> u32 \<times> u32 \<times> u32 \<times> u32 \<times> u32"

definition sha_k :: "u32 list" where
  "sha_k = [
    1116352408, 1899447441, 3049323471, 3921009573, 961987163, 1508970993, 2453635748, 2870763221,
    3624381080, 310598401, 607225278, 1426881987, 1925078388, 2162078206, 2614888103, 3248222580,
    3835390401, 4022224774, 264347078, 604807628, 770255983, 1249150122, 1555081692, 1996064986,
    2554220882, 2821834349, 2952996808, 3210313671, 3336571891, 3584528711, 113926993, 338241895,
    666307205, 773529912, 1294757372, 1396182291, 1695183700, 1986661051, 2177026350, 2456956037,
    2730485921, 2820302411, 3259730800, 3345764771, 3516065817, 3600352804, 4094571909, 275423344,
    430227734, 506948616, 659060556, 883997877, 958139571, 1322822218, 1537002063, 1747873779,
    1955562222, 2024104815, 2227730452, 2361852424, 2428436474, 2756734187, 3204031479, 3329325298]"

definition sha_init :: hash_state where
  "sha_init = (1779033703, 3144134277, 1013904242, 2773480762,
               1359893119, 2600822924, 528734635, 1541459225)"

definition rotr :: "nat \<Rightarrow> u32 \<Rightarrow> u32" where
  "rotr n x = drop_bit n x OR push_bit (32 - n) x"

text \<open>The message schedule is kept latest word first: \<open>W(t)\<close> from \<open>W(t-2)\<close>, \<open>W(t-7)\<close>,
  \<open>W(t-15)\<close> and \<open>W(t-16)\<close>.\<close>

definition next_w :: "u32 list \<Rightarrow> u32" where
  "next_w ws =
     (let s0 = rotr 7 (ws ! 14) XOR rotr 18 (ws ! 14) XOR drop_bit 3 (ws ! 14);
          s1 = rotr 17 (ws ! 1) XOR rotr 19 (ws ! 1) XOR drop_bit 10 (ws ! 1)
      in s1 + ws ! 6 + s0 + ws ! 15)"

fun schedule :: "nat \<Rightarrow> u32 list \<Rightarrow> u32 list" where
  "schedule 0 ws = ws"
| "schedule (Suc n) ws = schedule n (next_w ws # ws)"

definition sha_round :: "hash_state \<Rightarrow> u32 \<times> u32 \<Rightarrow> hash_state" where
  "sha_round st kw =
     (case st of (a, b, c, d, e, f, g, h) \<Rightarrow>
        let t1 = h + (rotr 6 e XOR rotr 11 e XOR rotr 25 e) + ((e AND f) XOR (NOT e AND g))
                 + fst kw + snd kw;
            t2 = (rotr 2 a XOR rotr 13 a XOR rotr 22 a) + ((a AND b) XOR (a AND c) XOR (b AND c))
        in (t1 + t2, a, b, c, d + t1, e, f, g))"

definition sha_block :: "hash_state \<Rightarrow> u32 list \<Rightarrow> hash_state" where
  "sha_block st blk =
     (case st of (a, b, c, d, e, f, g, h) \<Rightarrow>
        case foldl sha_round st (zip sha_k (rev (schedule 48 (rev blk)))) of
          (a', b', c', d', e', f', g', h') \<Rightarrow>
            (a + a', b + b', c + c', d + d', e + e', f + f', g + g', h + h'))"

definition be_bytes :: "nat \<Rightarrow> nat \<Rightarrow> nat list" where
  "be_bytes k n = map (\<lambda>i. n div 256 ^ i mod 256) (rev [0..<k])"

definition sha_pad :: "nat list \<Rightarrow> nat list" where
  "sha_pad bs = bs @ [128] @ replicate ((119 - length bs mod 64) mod 64) 0 @ be_bytes 8 (8 * length bs)"

fun to_words :: "nat list \<Rightarrow> u32 list" where
  "to_words (a # b # c # d # bs) = word_of_nat (((a * 256 + b) * 256 + c) * 256 + d) # to_words bs"
| "to_words _ = []"

fun sha_blocks :: "nat \<Rightarrow> hash_state \<Rightarrow> u32 list \<Rightarrow> hash_state" where
  "sha_blocks 0 st ws = st"
| "sha_blocks (Suc n) st ws = sha_blocks n (sha_block st (take 16 ws)) (drop 16 ws)"

lemma be_bytes_length [simp]: "length (be_bytes k n) = k"
  by (simp add: be_bytes_def)

lemma be_bytes_byte: "b \<in> set (be_bytes k n) \<Longrightarrow> b < 256"
  by (auto simp: be_bytes_def)

definition digest_bytes :: "hash_state \<Rightarrow> nat list" where
  "digest_bytes st = (case st of (a, b, c, d, e, f, g, h) \<Rightarrow>
     concat (map (\<lambda>x. be_bytes 4 (unat x)) [a, b, c, d, e, f, g, h]))"

definition sha256_Sum :: "string \<Rightarrow> nat list" where
  "sha256_Sum s =
     (let ws = to_words (sha_pad (map of_char s))
      in digest_bytes (sha_blocks (length ws div 16) sha_init ws))"

definition hex_digit :: "nat \<Rightarrow> char" where
  "hex_digit d = ''0123456789abcdef'' ! (d mod 16)"

definition hex_EncodeToString :: "nat list \<Rightarrow> string" where
  "hex_EncodeToString bs = concat (map (\<lambda>b. [hex_digit (b div 16), hex_digit (b mod 16)]) bs)"

definition sha256Hex :: "string \<Rightarrow> string" where
  "sha256Hex s = hex_EncodeToString (sha256_Sum s)"

definition is_lower_hex :: "char \<Rightarrow> bool" where
  "is_lower_hex c \<longleftrightarrow> c \<in> set ''0123456789abcdef''"

lemma length_digest_bytes: "length (digest_bytes st) = 32"
  by (simp add: digest_bytes_def split: prod.split)

lemma is_lower_hex_digit: "is_lower_hex (hex_digit d)"
  unfolding is_lower_hex_def hex_digit_def by (rule nth_mem) simp

lemma length_hex: "length (hex_EncodeToString bs) = 2 * length bs"
  by (induction bs) (auto simp: hex_EncodeToString_def)

lemma hex_chars: "list_all is_lower_hex (hex_EncodeToString bs)"
  by (induction bs) (simp_all add: hex_EncodeToString_def is_lower_hex_digit)

lemma sha256Hex_shape: "length (sha256Hex s) = 64 \<and> list_all is_lower_hex (sha256Hex s)"
  by (simp add: sha256Hex_def sha256_Sum_def Let_def length_hex length_digest_bytes hex_chars)

end
