(* ===== verification/Jsnum.thy ===== *)
theory Jsnum
  imports Complex_Main Prelude "HOL-Library.Log_Nat"
begin

text \<open>
  IEEE 754 doubles, the numbers of JavaScript (the load tests) and \<open>float64\<close> of Go (the stand-in
  provider, and \<open>Duration.Seconds\<close> in the coalescing key and the cache header), as exact rationals with the two infinities and \<open>NaN\<close> (the sign of zero, which no operation used here
  observes, is dropped). \<open>js_round\<close> rounds an exact value to the nearest double, ties to even,
  with gradual underflow and overflow to infinity. On top of it \<open>+\<close>, unary minus, \<open>*\<close>, \<open><\<close>, \<open><=\<close>,
  \<open>Math.max\<close>, \<open>Math.floor\<close>, \<open>parseInt\<close> and \<open>parseFloat\<close>. The lemmas show that integers below
  \<open>2 ^ 53\<close> are exact and that \<open>Math.floor(Math.random() * n)\<close> is an index of an array of six, and
  that \<open>int64(d.Seconds())\<close> is exact for whole seconds and zero exactly below one second.
\<close>

section \<open>Rounding\<close>

datatype js_num = NaN | Fin rat | PosInf | NegInf

definition pow2 :: "int \<Rightarrow> rat" where
  "pow2 e = (if 0 \<le> e then 2 ^ nat e else 1 / 2 ^ nat (- e))"

text \<open>The exponent of a positive rational: \<open>2 ^ e <= x < 2 ^ (e + 1)\<close>.\<close>

definition rat_exp :: "rat \<Rightarrow> int" where
  "rat_exp x =
     (case quotient_of x of (p, q) \<Rightarrow>
        let k = int (floorlog 2 (nat p)) - int (floorlog 2 (nat q))
        in if pow2 k \<le> x then k else k - 1)"

definition round_half_even :: "rat \<Rightarrow> int" where
  "round_half_even x =
     (let f = \<lfloor>x\<rfloor>; d = x - of_int f
      in if d < 1 / 2 then f else if d > 1 / 2 then f + 1 else if even f then f else f + 1)"

definition js_round :: "rat \<Rightarrow> js_num" where
  "js_round x =
     (if x = 0 then Fin 0
      else
        let e = max (rat_exp \<bar>x\<bar>) (- 1022); u = pow2 (e - 52);
            v = of_int (round_half_even (\<bar>x\<bar> / u)) * u
        in if v \<ge> 2 ^ 1024 then (if x < 0 then NegInf else PosInf) else Fin (if x < 0 then - v else v))"

section \<open>Operators\<close>

fun js_add :: "js_num \<Rightarrow> js_num \<Rightarrow> js_num" where
  "js_add (Fin a) (Fin b) = js_round (a + b)"
| "js_add NaN _ = NaN"
| "js_add _ NaN = NaN"
| "js_add PosInf NegInf = NaN"
| "js_add NegInf PosInf = NaN"
| "js_add PosInf _ = PosInf"
| "js_add NegInf _ = NegInf"
| "js_add _ PosInf = PosInf"
| "js_add _ NegInf = NegInf"

fun js_neg :: "js_num \<Rightarrow> js_num" where
  "js_neg (Fin a) = Fin (- a)" | "js_neg NaN = NaN" | "js_neg PosInf = NegInf" | "js_neg NegInf = PosInf"

fun js_sgn :: "js_num \<Rightarrow> int" where
  "js_sgn (Fin a) = (if a < 0 then - 1 else if a = 0 then 0 else 1)" | "js_sgn PosInf = 1" | "js_sgn NegInf = - 1" | "js_sgn NaN = 0"

definition js_signed_inf :: "int \<Rightarrow> js_num" where
  "js_signed_inf k = (if k = 0 then NaN else if k < 0 then NegInf else PosInf)"

fun js_mul :: "js_num \<Rightarrow> js_num \<Rightarrow> js_num" where
  "js_mul (Fin a) (Fin b) = js_round (a * b)"
| "js_mul a b = js_signed_inf (js_sgn a * js_sgn b)"

fun js_lt :: "js_num \<Rightarrow> rat \<Rightarrow> bool" where
  "js_lt (Fin a) b \<longleftrightarrow> a < b" | "js_lt NegInf b \<longleftrightarrow> True" | "js_lt _ b \<longleftrightarrow> False"

fun js_le :: "js_num \<Rightarrow> rat \<Rightarrow> bool" where
  "js_le (Fin a) b \<longleftrightarrow> a \<le> b" | "js_le NegInf b \<longleftrightarrow> True" | "js_le _ b \<longleftrightarrow> False"

fun js_max :: "js_num \<Rightarrow> rat \<Rightarrow> js_num" where
  "js_max (Fin a) b = Fin (max a b)" | "js_max PosInf b = PosInf" | "js_max NegInf b = Fin b" | "js_max NaN b = NaN"

text \<open>\<open>v || d\<close> on numbers: \<open>NaN\<close> and zero are falsy.\<close>

fun js_or :: "js_num \<Rightarrow> rat \<Rightarrow> js_num" where
  "js_or NaN d = Fin d" | "js_or (Fin a) d = (if a = 0 then Fin d else Fin a)" | "js_or v d = v"

section \<open>Parsing\<close>

definition js_space :: "char \<Rightarrow> bool" where
  "js_space c \<longleftrightarrow> c = CHR '' '' \<or> (let n = (of_char c :: nat) in 9 \<le> n \<and> n \<le> 13)"

definition hex_val :: "char \<Rightarrow> nat option" where
  "hex_val c = (let n = (of_char c :: nat)
     in if 48 \<le> n \<and> n \<le> 57 then Some (n - 48) else if 65 \<le> n \<and> n \<le> 70 then Some (n - 55)
        else if 97 \<le> n \<and> n \<le> 102 then Some (n - 87) else None)"

definition js_sign :: "string \<Rightarrow> bool \<times> string" where
  "js_sign s = (if s \<noteq> [] \<and> (hd s = CHR ''-'' \<or> hd s = CHR ''+'') then (hd s = CHR ''-'', tl s) else (False, s))"

text \<open>\<open>parseInt\<close> without a radix.\<close>

definition parseInt :: "string \<Rightarrow> js_num" where
  "parseInt text =
     (case js_sign (dropWhile js_space text) of (neg, s) \<Rightarrow>
        let hex = startsWith s ''0x'' \<or> startsWith s ''0X'';
            ds = (if hex then takeWhile (\<lambda>c. hex_val c \<noteq> None) (drop 2 s) else takeWhile is_digit s);
            v = (if hex then foldl (\<lambda>a c. 16 * a + the (hex_val c)) 0 ds else digits_val ds)
        in if ds = [] then NaN else js_round (if neg then - of_nat v else of_nat v))"

text \<open>\<open>parseFloat\<close>: the longest decimal literal at the front.\<close>

definition ten_pow :: "int \<Rightarrow> rat" where
  "ten_pow e = (if 0 \<le> e then 10 ^ nat e else 1 / 10 ^ nat (- e))"

definition js_exponent :: "string \<Rightarrow> int" where
  "js_exponent s =
     (if s \<noteq> [] \<and> (hd s = CHR ''e'' \<or> hd s = CHR ''E'')
      then case js_sign (tl s) of (neg, r) \<Rightarrow>
             let ds = takeWhile is_digit r in if ds = [] then 0 else if neg then - int (digits_val ds) else int (digits_val ds)
      else 0)"

definition parseFloat :: "string \<Rightarrow> js_num" where
  "parseFloat text =
     (case js_sign (dropWhile js_space text) of (neg, s) \<Rightarrow>
        if startsWith s ''Infinity'' then (if neg then NegInf else PosInf)
        else
          let whole = takeWhile is_digit s; s1 = dropWhile is_digit s;
              frac = (if s1 \<noteq> [] \<and> hd s1 = CHR ''.'' then takeWhile is_digit (tl s1) else []);
              s2 = (if s1 \<noteq> [] \<and> hd s1 = CHR ''.'' \<and> (whole \<noteq> [] \<or> frac \<noteq> []) then dropWhile is_digit (tl s1) else s1);
              v = of_nat (digits_val (whole @ frac)) * ten_pow (js_exponent s2 - int (length frac))
          in if whole = [] \<and> frac = [] then NaN else js_round (if neg then - v else v))"

section \<open>Random choice\<close>

text \<open>\<open>Math.random()\<close> is a multiple of \<open>2 ^ -53\<close> below one; the result is the multiplier.\<close>

definition Math_random :: "world \<Rightarrow> nat \<times> world" where
  "Math_random w = (rnd w (draws w) mod 2 ^ 53, w\<lparr>draws := Suc (draws w)\<rparr>)"

definition random_index :: "nat \<Rightarrow> nat \<Rightarrow> nat" where
  "random_index m n = (case js_round (of_nat m / 2 ^ 53 * of_nat n) of Fin v \<Rightarrow> nat \<lfloor>v\<rfloor> | _ \<Rightarrow> 0)"

section \<open>Integers are exact\<close>

lemma pow2_pos [simp]: "0 < pow2 e"
  by (simp add: pow2_def)

lemma pow2_nonzero [simp]: "pow2 e \<noteq> 0"
  by (simp add: pow2_def)

lemma round_half_even_int [simp]: "round_half_even (of_int i) = i"
  by (simp add: round_half_even_def Let_def)

lemma round_half_even_le: "x \<le> of_int i \<Longrightarrow> round_half_even x \<le> i"
proof -
  assume x: "x \<le> of_int i"
  show ?thesis
  proof (cases "\<lfloor>x\<rfloor> = i")
    case True
    then have "x = of_int i" using x by linarith
    then show ?thesis by simp
  next
    case False
    then have "\<lfloor>x\<rfloor> + 1 \<le> i" using x by linarith
    then show ?thesis by (auto simp: round_half_even_def Let_def)
  qed
qed

lemma round_half_even_nonneg: "0 \<le> x \<Longrightarrow> 0 \<le> round_half_even x"
  by (auto simp: round_half_even_def Let_def)

lemma rat_exp_of_nat: 
  assumes "n < 2 ^ k" and "0 < n"
  shows "rat_exp (of_nat n) < int k"
proof -
  have q: "quotient_of (of_nat n) = (int n, 1)" using quotient_of_int [of "int n"] by simp
  have "floorlog 2 n \<le> k" using assms by (intro floorlog_leI) auto
  moreover have "floorlog 2 1 = 1" by (simp add: floorlog_def)
  ultimately have "int (floorlog 2 (nat (int n))) - int (floorlog 2 (nat 1)) < int k" by simp
  then show ?thesis by (simp add: rat_exp_def q Let_def split: if_splits)
qed

lemma js_round_nat: "n < 2 ^ 53 \<Longrightarrow> js_round (of_nat n) = Fin (of_nat n)"
proof (cases "n = 0")
  case False
  assume n: "n < 2 ^ 53"
  define e where "e = max (rat_exp (of_nat n)) (- 1022)"
  have e: "e \<le> 52" using rat_exp_of_nat [OF n] False by (simp add: e_def)
  then have u: "pow2 (e - 52) = 1 / 2 ^ nat (52 - e)" by (auto simp: pow2_def)
  have v: "of_int (round_half_even (of_nat n / pow2 (e - 52))) * pow2 (e - 52) = of_nat n"
  proof -
    have i: "of_nat n / pow2 (e - 52) = of_int (int n * 2 ^ nat (52 - e))" unfolding u by simp
    show ?thesis unfolding i round_half_even_int unfolding u by simp
  qed
  have "(of_nat n :: rat) < of_nat (2 ^ 53)" using n by (simp only: of_nat_less_iff)
  also have "(of_nat (2 ^ 53) :: rat) \<le> 2 ^ 1024" by simp
  finally have lt: "(of_nat n :: rat) < 2 ^ 1024" .
  show ?thesis
    using False v lt unfolding js_round_def Let_def e_def by simp
qed (simp add: js_round_def)

lemma js_add_nat: "a + b < 2 ^ 53 \<Longrightarrow> js_add (Fin (of_nat a)) (Fin (of_nat b)) = Fin (of_nat (a + b))"
  using js_round_nat [of "a + b"] by simp

section \<open>Rounding keeps powers of two apart\<close>

lemma pow2_add: "pow2 (a + b) = pow2 a * pow2 b"
proof -
  have p: "pow2 x = 2 powi x" for x unfolding pow2_def power_int_def by (auto simp: power_one_over inverse_eq_divide)
  show ?thesis unfolding p by (simp add: power_int_add)
qed

lemma pow2_nat: "pow2 (int n) = 2 ^ n"
  by (simp add: pow2_def)

lemma pow2_mono: "a \<le> b \<Longrightarrow> pow2 a \<le> pow2 b"
proof -
  assume "a \<le> b"
  then obtain n where b: "b = a + int n" by (metis zle_iff_zadd)
  have "1 \<le> (2 :: rat) ^ n" by simp
  then show ?thesis unfolding b pow2_add pow2_nat by simp
qed

lemma pow2_less_iff: "pow2 a < pow2 b \<Longrightarrow> a < b"
  by (meson linorder_not_le pow2_mono)

lemma floorlog_bounds:
  assumes "0 < (n :: int)"
  shows "pow2 (int (floorlog 2 (nat n)) - 1) \<le> of_int n" and "of_int n < pow2 (int (floorlog 2 (nat n)))"
proof -
  have b: "2 ^ (floorlog 2 (nat n) - 1) \<le> nat n" "nat n < 2 ^ floorlog 2 (nat n)"
    using floorlog_bounds [of "nat n" 2] assms by auto
  have pos: "0 < floorlog 2 (nat n)" using assms by (simp add: floorlog_def)
  have "(of_nat (2 ^ (floorlog 2 (nat n) - 1)) :: rat) \<le> of_nat (nat n)" using b(1) by (simp only: of_nat_le_iff)
  then show "pow2 (int (floorlog 2 (nat n)) - 1) \<le> of_int n"
    using assms pos pow2_nat [of "floorlog 2 (nat n) - 1"] by (simp add: of_nat_diff)
  have "(of_nat (nat n) :: rat) < of_nat (2 ^ floorlog 2 (nat n))" using b(2) by (simp only: of_nat_less_iff)
  then show "of_int n < pow2 (int (floorlog 2 (nat n)))" using assms by (simp add: pow2_nat)
qed

lemma rat_exp_bounds:
  assumes "0 < x"
  shows "pow2 (rat_exp x) \<le> x" and "x < pow2 (rat_exp x + 1)"
proof -
  obtain p q where q: "quotient_of x = (p, q)" by force
  have pq: "0 < q" "x = of_int p / of_int q" using quotient_of_denom_pos [OF q] quotient_of_div [OF q] by auto
  then have p: "0 < p" using assms by (simp add: zero_less_divide_iff)
  define a b where "a = int (floorlog 2 (nat p))" and "b = int (floorlog 2 (nat q))"
  have bp: "pow2 (a - 1) \<le> of_int p" "of_int p < pow2 a" and bq: "pow2 (b - 1) \<le> of_int q" "of_int q < pow2 b"
    unfolding a_def b_def by (rule floorlog_bounds [OF p] floorlog_bounds [OF pq(1)])+
  have lo: "pow2 (a - b - 1) \<le> x"
  proof -
    have "pow2 (a - b - 1) * of_int q \<le> pow2 (a - b - 1) * pow2 b" using bq(2) by simp
    also have "\<dots> = pow2 (a - 1)" using pow2_add [of "a - b - 1" b] by simp
    also have "\<dots> \<le> of_int p" by (rule bp(1))
    finally show ?thesis using pq by (simp add: pos_le_divide_eq)
  qed
  have hi: "x < pow2 (a - b + 1)"
  proof -
    have "of_int p < pow2 a" by (rule bp(2))
    also have "pow2 a = pow2 (a - b + 1) * pow2 (b - 1)" using pow2_add [of "a - b + 1" "b - 1"] by simp
    also have "\<dots> \<le> pow2 (a - b + 1) * of_int q" using bq(1) by simp
    finally show ?thesis using pq by (simp add: pos_divide_less_eq)
  qed
  show "pow2 (rat_exp x) \<le> x" "x < pow2 (rat_exp x + 1)"
    using lo hi by (auto simp: rat_exp_def q Let_def a_def b_def)
qed

lemma round_half_even_ge: "of_int i \<le> x \<Longrightarrow> i \<le> round_half_even x"
proof -
  assume "of_int i \<le> x"
  then have "i \<le> \<lfloor>x\<rfloor>" by (simp add: le_floor_iff)
  then show ?thesis by (auto simp: round_half_even_def Let_def)
qed

lemma js_round_ge:
  assumes "pow2 k \<le> x" and "- 1022 \<le> k"
  shows "js_round x = PosInf \<or> (\<exists>v. js_round x = Fin v \<and> pow2 k \<le> v)"
proof -
  have x: "0 < x" using assms(1) pow2_pos [of k] by linarith
  define e where "e = max (rat_exp x) (- 1022)"
  have "pow2 k < pow2 (rat_exp x + 1)" using assms(1) rat_exp_bounds(2) [OF x] by simp
  then have k: "k \<le> rat_exp x" using pow2_less_iff [of k "rat_exp x + 1"] by simp
  then have e: "e = rat_exp x" using assms(2) by (simp add: e_def)
  have p52: "pow2 e = 2 ^ 52 * pow2 (e - 52)" using pow2_add [of "e - 52" 52] pow2_nat [of 52] by (simp add: mult.commute)
  have "of_int (2 ^ 52) \<le> x / pow2 (e - 52)"
    using rat_exp_bounds(1) [OF x] p52 unfolding e [symmetric] by (simp add: pos_le_divide_eq)
  then have "2 ^ 52 \<le> round_half_even (x / pow2 (e - 52))" by (rule round_half_even_ge)
  then have "(of_int (2 ^ 52) :: rat) \<le> of_int (round_half_even (x / pow2 (e - 52)))" by (simp only: of_int_le_iff)
  then have "2 ^ 52 * pow2 (e - 52) \<le> of_int (round_half_even (x / pow2 (e - 52))) * pow2 (e - 52)"
    by (intro mult_right_mono) (simp_all add: less_imp_le)
  moreover have "pow2 k \<le> pow2 e" unfolding e by (rule pow2_mono [OF k])
  ultimately have "pow2 k \<le> of_int (round_half_even (x / pow2 (e - 52))) * pow2 (e - 52)"
    unfolding p52 by (rule order_trans [rotated])
  then show ?thesis using x unfolding js_round_def Let_def e_def by simp
qed

lemma js_round_less:
  assumes "0 < x" and "x < pow2 k" and "- 1021 \<le> k" and "k \<le> 1023"
  shows "\<exists>v. js_round x = Fin v \<and> 0 \<le> v \<and> v \<le> pow2 k"
proof -
  define e where "e = max (rat_exp x) (- 1022)"
  define r where "r = round_half_even (x / pow2 (e - 52))"
  have "pow2 (rat_exp x) < pow2 k" using rat_exp_bounds(1) [OF assms(1)] assms(2) by simp
  then have ek: "e + 1 \<le> k" using pow2_less_iff [of "rat_exp x" k] assms(3) by (simp add: e_def)
  have p53: "pow2 (e + 1) = pow2 (e - 52) * 2 ^ 53" using pow2_add [of "e - 52" 53] pow2_nat [of 53] by (simp add: add.commute)
  have "x \<le> pow2 (e + 1)"
    using rat_exp_bounds(2) [OF assms(1)] pow2_mono [of "rat_exp x + 1" "e + 1"] by (simp add: e_def)
  then have "x / pow2 (e - 52) \<le> of_int (2 ^ 53)" unfolding p53 by (simp add: pos_divide_le_eq mult.commute)
  then have "r \<le> 2 ^ 53" unfolding r_def by (rule round_half_even_le)
  then have "of_int r \<le> (of_int (2 ^ 53) :: rat)" by (simp only: of_int_le_iff)
  then have "of_int r * pow2 (e - 52) \<le> 2 ^ 53 * pow2 (e - 52)" by (simp add: mult_right_mono less_imp_le)
  also have "\<dots> = pow2 (e + 1)" unfolding p53 by (rule mult.commute)
  also have "\<dots> \<le> pow2 k" by (rule pow2_mono [OF ek])
  finally have le: "of_int r * pow2 (e - 52) \<le> pow2 k" .
  have "pow2 k \<le> pow2 1023" by (rule pow2_mono [OF assms(4)])
  also have "pow2 1023 < 2 ^ 1024" using pow2_nat [of 1023] by simp
  finally have big: "of_int r * pow2 (e - 52) < 2 ^ 1024" using le by simp
  have "0 \<le> r" unfolding r_def using assms(1) by (intro round_half_even_nonneg) (simp add: less_imp_le)
  then have "0 \<le> of_int r * pow2 (e - 52)" by (simp add: less_imp_le)
  moreover have "js_round x = Fin (of_int r * pow2 (e - 52))"
    using assms(1) big unfolding js_round_def Let_def r_def e_def by simp
  ultimately show ?thesis using le by blast
qed

text \<open>Rounding never gives \<open>NaN\<close>, and keeps the sign.\<close>

lemma js_round_cases: "js_round x = PosInf \<or> js_round x = NegInf \<or> (\<exists>v. js_round x = Fin v)"
  by (auto simp: js_round_def Let_def)

lemma js_round_nonneg: "0 \<le> x \<Longrightarrow> js_round x = PosInf \<or> (\<exists>v. js_round x = Fin v \<and> 0 \<le> v)"
proof (cases "x = 0")
  case False
  assume "0 \<le> x"
  then have "0 \<le> round_half_even (x / pow2 (max (rat_exp x) (- 1022) - 52))"
    by (intro round_half_even_nonneg) (simp add: less_imp_le)
  then show ?thesis using False \<open>0 \<le> x\<close> by (auto simp: js_round_def Let_def less_imp_le)
qed (simp add: js_round_def)

section \<open>A random index of six\<close>

lemma round_half_even_less: "x < of_int i - 1 / 2 \<Longrightarrow> round_half_even x < i"
proof -
  assume x: "x < of_int i - 1 / 2"
  show ?thesis
  proof (cases "\<lfloor>x\<rfloor> = i - 1")
    case True
    then have "x - of_int \<lfloor>x\<rfloor> < 1 / 2" using x by simp
    then show ?thesis using True by (simp add: round_half_even_def Let_def)
  next
    case False
    then have "\<lfloor>x\<rfloor> + 1 < i" using x by linarith
    then show ?thesis by (auto simp: round_half_even_def Let_def)
  qed
qed

lemma random_index_six:
  assumes "m < 2 ^ 53"
  shows "random_index m 6 < 6"
proof -
  define x :: rat where "x = of_nat m / 2 ^ 53 * 6"
  have idx: "random_index m 6 = (case js_round x of Fin v \<Rightarrow> nat \<lfloor>v\<rfloor> | _ \<Rightarrow> 0)" unfolding random_index_def x_def by simp
  have m: "(of_nat m :: rat) \<le> 2 ^ 53 - 1"
  proof -
    have "(of_nat m :: rat) \<le> of_nat (2 ^ 53 - 1)" using assms by (subst of_nat_le_iff) simp
    then show ?thesis by simp
  qed
  have "js_round x = Fin 0 \<or> (\<exists>v. js_round x = Fin v \<and> 0 \<le> v \<and> v < 6)"
  proof (cases "x < 4")
    case True
    have "0 \<le> x" by (simp add: x_def)
    show ?thesis
    proof (cases "x = 0")
      case False
      have "x < pow2 2" using True by (simp add: pow2_def)
      with False \<open>0 \<le> x\<close> js_round_less [of x 2] obtain v where "js_round x = Fin v" "0 \<le> v" "v \<le> pow2 2" by auto
      moreover have "pow2 2 < 6" by (simp add: pow2_def)
      ultimately show ?thesis by fastforce
    qed (simp add: js_round_def)
  next
    case False
    then have xpos: "0 < x" by simp
    have "x < 8" using m by (simp add: x_def)
    then have "pow2 (rat_exp x) < pow2 3" "pow2 2 < pow2 (rat_exp x + 1)"
      using rat_exp_bounds [OF xpos] False by (auto simp: pow2_def)
    then have e: "rat_exp x = 2" using pow2_less_iff [of "rat_exp x" 3] pow2_less_iff [of 2 "rat_exp x + 1"] by simp
    define r where "r = round_half_even (x / pow2 (2 - 52))"
    have "x / pow2 (2 - 52) = of_nat m * (3 / 4)" by (simp add: x_def pow2_def)
    also have "\<dots> < of_int (6755399441055744) - 1 / 2" using m by simp
    finally have "r < 6755399441055744" unfolding r_def by (rule round_half_even_less)
    then have u: "of_int r * pow2 (2 - 52) < 6" by (simp add: pow2_def)
    have "0 \<le> r" unfolding r_def using xpos by (intro round_half_even_nonneg) (simp add: less_imp_le)
    then have nn: "0 \<le> of_int r * pow2 (2 - 52)" by (simp add: less_imp_le)
    have "js_round x = Fin (of_int r * pow2 (2 - 52))"
      using xpos u unfolding js_round_def Let_def r_def by (simp add: e)
    with u nn show ?thesis by blast
  qed
  then show ?thesis unfolding idx by (auto simp: nat_less_iff floor_less_iff)
qed

section \<open>Whole seconds of a duration\<close>

text \<open>\<open>int64(x)\<close> of a double truncates; out of range it gives the smallest integer (amd64).\<close>

definition float_to_int64 :: "js_num \<Rightarrow> int" where
  "float_to_int64 x =
     (case x of
        Fin v \<Rightarrow> (let n = (if v < 0 then - \<lfloor>- v\<rfloor> else \<lfloor>v\<rfloor>) in if int64_ok n then n else - (2 ^ 63))
      | _ \<Rightarrow> - (2 ^ 63))"

text \<open>\<open>int64(d.Seconds())\<close>, where \<open>Seconds\<close> adds the quotient and the fraction as doubles.\<close>

definition int_Seconds :: "duration \<Rightarrow> int" where
  "int_Seconds d =
     (let sec = go_quot d second; nsec = d - sec * second
      in float_to_int64 (js_add (js_round (of_int sec)) (js_round (of_int nsec / 10 ^ 9))))"

lemma float_to_int64_ge: "1 \<le> v \<Longrightarrow> float_to_int64 (Fin v) \<noteq> 0"
  by (auto simp: float_to_int64_def Let_def floor_eq_iff)

lemma js_round_of_int: "0 \<le> n \<Longrightarrow> n < 2 ^ 53 \<Longrightarrow> js_round (of_int n) = Fin (of_int n)"
  using js_round_nat [of "nat n"] by (simp add: nat_less_iff)

lemma int_Seconds_whole:
  assumes "0 \<le> d" and "second dvd d" and "d < 2 ^ 63"
  shows "int_Seconds d = d div second"
proof -
  obtain k where k: "d = second * k" using assms(2) by blast
  then have q: "go_quot d second = k" "0 \<le> k" "k < 2 ^ 53" using assms(1,3) by (simp_all add: go_quot_nonneg)
  have "js_add (js_round (of_int k)) (js_round 0) = Fin (of_int k)"
    using js_round_of_int [OF q(2,3)] by (simp add: js_round_def [of 0])
  moreover have "int64_ok k" using q by (simp add: int64_ok_def)
  ultimately show ?thesis using q k by (simp add: int_Seconds_def Let_def float_to_int64_def)
qed

text \<open>A fraction that rounds below one stays there.\<close>

lemma js_round_fraction:
  assumes "0 \<le> x" and "x \<le> 1 - pow2 (- 53)"
  shows "\<exists>v. js_round x = Fin v \<and> 0 \<le> v \<and> v \<le> 1 - pow2 (- 53)"
proof -
  have half: "pow2 (- 1) \<le> 1 - pow2 (- 53)" "1 - pow2 (- 53) < (1 :: rat)" by (simp_all add: pow2_def)
  consider "x = 0" | "0 < x" "x < 1 / 2" | "1 / 2 \<le> x" using assms(1) by linarith
  then show ?thesis
  proof cases
    case 1
    then show ?thesis by (simp add: js_round_def pow2_def)
  next
    case 2
    have "x < pow2 (- 1)" using 2 by (simp add: pow2_def)
    from js_round_less [OF 2(1) this] half(1) show ?thesis by fastforce
  next
    case 3
    then have pos: "0 < x" by simp
    have "x < 1" using assms(2) half(2) by linarith
    then have "pow2 (rat_exp x) < pow2 0" "pow2 (- 1) < pow2 (rat_exp x + 1)"
      using rat_exp_bounds [OF pos] 3 by (auto simp: pow2_def)
    then have e: "rat_exp x = - 1" using pow2_less_iff [of "rat_exp x" 0] pow2_less_iff [of "- 1" "rat_exp x + 1"] by simp
    define r where "r = round_half_even (x / pow2 (- 53))"
    have "x / pow2 (- 53) \<le> of_int (9007199254740992 - 1)" using assms(2) by (simp add: pow2_def)
    then have "r \<le> 9007199254740992 - 1" unfolding r_def by (rule round_half_even_le)
    then have "(of_int r :: rat) \<le> of_int (9007199254740992 - 1)" by (simp only: of_int_le_iff)
    then have u: "of_int r * pow2 (- 53) \<le> 1 - pow2 (- 53)" by (simp add: pow2_def)
    have "(1 :: rat) < 2 ^ 1024" by simp
    with u half(2) have big: "of_int r * pow2 (- 53) < 2 ^ 1024" by linarith
    have "0 \<le> r" unfolding r_def using pos by (intro round_half_even_nonneg) (simp add: less_imp_le)
    then have nn: "0 \<le> of_int r * pow2 (- 53)" by (simp add: less_imp_le)
    have "js_round x = Fin (of_int r * pow2 (- 53))" using pos big unfolding js_round_def Let_def r_def by (simp add: e)
    with u nn show ?thesis by blast
  qed
qed

lemma js_round_ge_one: "1 \<le> x \<Longrightarrow> js_round x = PosInf \<or> (\<exists>v. js_round x = Fin v \<and> 1 \<le> v)"
  using js_round_ge [of 0 x] by (simp add: pow2_def)

lemma int_Seconds_zero:
  assumes "0 \<le> d"
  shows "int_Seconds d = 0 \<longleftrightarrow> d < second"
proof -
  define sec nsec where "sec = go_quot d second" and "nsec = d - sec * second"
  have s: "sec = d div second" "nsec = d mod second" using assms by (simp_all add: sec_def nsec_def go_quot_nonneg minus_div_mult_eq_mod)
  have "nsec \<le> 10 ^ 9 - 1" "0 \<le> nsec" unfolding s(2) using pos_mod_bound [of second d] by simp_all
  then have "(of_int nsec :: rat) \<le> of_int (10 ^ 9 - 1)" "(0 :: rat) \<le> of_int nsec" by (simp_all only: of_int_le_iff of_int_0_le_iff)
  then have "(0 :: rat) \<le> of_int nsec / 10 ^ 9" "of_int nsec / 10 ^ 9 \<le> 1 - pow2 (- 53)" by (simp_all add: pow2_def)
  from js_round_fraction [OF this] obtain f where f: "js_round (of_int nsec / 10 ^ 9) = Fin f" "0 \<le> f" "f \<le> 1 - pow2 (- 53)" by blast
  have eq: "int_Seconds d = float_to_int64 (js_add (js_round (of_int sec)) (Fin f))"
    unfolding int_Seconds_def Let_def using f(1) by (simp add: sec_def nsec_def)
  show ?thesis
  proof (cases "d < second")
    case True
    then have "sec = 0" using assms s(1) by simp
    moreover obtain g where "js_round f = Fin g" "0 \<le> g" "g \<le> 1 - pow2 (- 53)" using js_round_fraction [OF f(2,3)] by blast
    moreover from this have "\<lfloor>g\<rfloor> = 0" by (simp add: floor_eq_iff pow2_def)
    ultimately show ?thesis using True unfolding eq
      by (simp add: js_round_def [of 0] float_to_int64_def Let_def int64_ok_def)
  next
    case False
    then have "0 < sec" unfolding s(1) by (simp add: pos_imp_zdiv_pos_iff)
    then have "1 \<le> sec" by simp
    then have "(of_int 1 :: rat) \<le> of_int sec" by (simp only: of_int_le_iff)
    then have "(1 :: rat) \<le> of_int sec" by simp
    from js_round_ge_one [OF this] have "int_Seconds d \<noteq> 0"
    proof
      assume "js_round (of_int sec) = PosInf"
      then show ?thesis unfolding eq by (simp add: float_to_int64_def)
    next
      assume "\<exists>v. js_round (of_int sec) = Fin v \<and> 1 \<le> v"
      then obtain v where v: "js_round (of_int sec) = Fin v" "1 \<le> v" by blast
      have "1 \<le> v + f" using v(2) f(2) by simp
      from js_round_ge_one [OF this] show ?thesis unfolding eq v(1) using float_to_int64_ge by (auto simp: float_to_int64_def)
    qed
    then show ?thesis using False by simp
  qed
qed

end
