(* ===== verification/Job_Queue.thy ===== *)
theory Job_Queue
  imports Rates_Provider Sha256 Jsnum
begin

text \<open>
  The queue seam, \<open>internal/queue/queue.go\<close> and \<open>internal/queue/dedupkey.go\<close>: the job and
  its read-side view, the coalescing key, the interface \<open>JobQueue\<close> (with \<open>Cleaner\<close>) as a
  record of operations, and what the interface promises. The promise is an abstract queue, a
  map from job ids to abstract records, one relation per operation, and the locale
  \<open>job_queue\<close> that ties an implementation to it. The lemmas every client needs (terminal
  jobs never change, a running job is not handed out again, one job per coalescing key) are
  proved once in the locale.
\<close>

section \<open>Jobs and views\<close>

record job =
  job_ID :: string
  job_Base :: string
  job_Quote :: string
  job_DedupKey :: string
  job_Attempts :: int
  job_NextRunAt :: time
  job_Source :: string
  job_CreatedAt :: time

record 'd job_view =
  jv_ID :: string
  jv_Base :: string
  jv_Quote :: string
  jv_Status :: string
  jv_Attempts :: int
  jv_CreatedAt :: time
  jv_CompletedAt :: "time option"
  jv_Price :: "'d option"
  jv_QuoteUpdatedAt :: "time option"
  jv_LastError :: string

definition valid_source :: "string \<Rightarrow> bool" where
  "valid_source s \<longleftrightarrow> s = ''refresh'' \<or> s = ''scheduler''"

text \<open>A concrete job for the closed instances.\<close>

definition sample_job :: "string \<Rightarrow> string \<Rightarrow> time \<Rightarrow> job" where
  "sample_job jid key nxt = \<lparr>job_ID = jid, job_Base = ''EUR'', job_Quote = ''MXN'', job_DedupKey = key, job_Attempts = 0,
     job_NextRunAt = nxt, job_Source = ''refresh'', job_CreatedAt = zero_time\<rparr>"

section \<open>The coalescing key\<close>

text \<open>\<open>ToUpper\<close> maps the ASCII letters, which is what \<open>strings.ToUpper\<close> does on ASCII text: the refresh handler admits only
  \<open>^[A-Z]{3}$\<close>, and the scheduler passes the entries of the whitelist, which are currency codes but are not checked to be
  (the Unicode case mapping of a non-ASCII entry is not modelled).\<close>

definition bucket_secs :: "duration \<Rightarrow> int" where
  "bucket_secs d = int_Seconds d"

definition bucket_of :: "time \<Rightarrow> duration \<Rightarrow> int" where
  "bucket_of now bucketSize = go_quot (Unix now) (bucket_secs bucketSize) * bucket_secs bucketSize"

definition dedup_text :: "string \<Rightarrow> string \<Rightarrow> int \<Rightarrow> string" where
  "dedup_text base quote bucket = ToUpper base @ '':'' @ ToUpper quote @ '':'' @ show_int bucket"

definition DedupKey :: "string \<Rightarrow> string \<Rightarrow> time \<Rightarrow> duration \<Rightarrow> string res" where
  "DedupKey base quote now bucketSize =
     (if bucket_secs bucketSize = 0 then Panic ''runtime error: integer divide by zero''
      else Ok (sha256Hex (dedup_text base quote (bucket_of now bucketSize))))"

lemma dedup_text_inj:
  assumes "CHR '':'' \<notin> set b \<union> set q \<union> set b' \<union> set q'"
  shows "dedup_text b q n = dedup_text b' q' n' \<longleftrightarrow> ToUpper b = ToUpper b' \<and> ToUpper q = ToUpper q' \<and> n = n'"
proof
  assume eq: "dedup_text b q n = dedup_text b' q' n'"
  have colon: "CHR '':'' \<notin> set (ToUpper b)" "CHR '':'' \<notin> set (ToUpper q)"
    "CHR '':'' \<notin> set (ToUpper b')" "CHR '':'' \<notin> set (ToUpper q')"
    using assms by (auto simp: ToUpper_colon)
  have "split_on (CHR '':'') (dedup_text x y k) = ToUpper x # ToUpper y # split_on (CHR '':'') (show_int k)"
    if "CHR '':'' \<notin> set (ToUpper x)" "CHR '':'' \<notin> set (ToUpper y)" for x y k
    using that by (simp add: dedup_text_def split_on_append_sep)
  with eq colon have parts: "ToUpper b = ToUpper b'" "ToUpper q = ToUpper q'"
    by (metis list.inject)+
  with eq have "show_int n = show_int n'" by (simp add: dedup_text_def)
  with parts show "ToUpper b = ToUpper b' \<and> ToUpper q = ToUpper q' \<and> n = n'" by (simp add: show_int_inj)
qed (simp add: dedup_text_def)

lemma bucket_of_floor:
  assumes "0 \<le> now" and "second \<le> d" and "second dvd d" and "d < 2 ^ 63"
  shows "bucket_of now d = Unix now div (d div second) * (d div second)"
proof -
  have "bucket_secs d = d div second" "0 < d div second"
    using assms(2) int_Seconds_whole [OF _ assms(3,4)] by (simp_all add: bucket_secs_def pos_imp_zdiv_pos_iff)
  moreover have "0 \<le> Unix now" using assms(1) by (simp add: Unix_def)
  ultimately show ?thesis by (simp add: bucket_of_def go_quot_nonneg)
qed

lemma bucket_secs_zero: "0 \<le> d \<Longrightarrow> bucket_secs d = 0 \<longleftrightarrow> d < second"
  by (simp add: bucket_secs_def int_Seconds_zero)

section \<open>The abstract queue\<close>

datatype 'd jstate =
    Pending
  | Running (lease: time)
  | Done (done_at: time) (done_price: 'd) (done_quote_at: time)
  | Failed (failed_at: time) (failed_reason: string)

record 'd arec =
  ar_base :: string
  ar_quote :: string
  ar_source :: string
  ar_dedup :: string
  ar_attempts :: int
  ar_next :: time
  ar_created :: time
  ar_state :: "'d jstate"

type_synonym 'd aqueue = "string \<rightharpoonup> 'd arec"

fun status_name :: "'d jstate \<Rightarrow> string" where
  "status_name Pending = ''pending''"
| "status_name (Running l) = ''running''"
| "status_name (Done t p u) = ''done''"
| "status_name (Failed t e) = ''failed''"

fun is_running :: "'d jstate \<Rightarrow> bool" where
  "is_running (Running l) \<longleftrightarrow> True" | "is_running _ \<longleftrightarrow> False"

fun is_terminal :: "'d jstate \<Rightarrow> bool" where
  "is_terminal (Done t p u) \<longleftrightarrow> True" | "is_terminal (Failed t e) \<longleftrightarrow> True" | "is_terminal _ \<longleftrightarrow> False"

definition new_arec :: "time \<Rightarrow> time \<Rightarrow> job \<Rightarrow> 'd arec" where
  "new_arec created nxt j = \<lparr>ar_base = job_Base j, ar_quote = job_Quote j, ar_source = job_Source j,
     ar_dedup = job_DedupKey j, ar_attempts = 0, ar_next = nxt, ar_created = created, ar_state = Pending\<rparr>"

definition done_arec :: "time \<Rightarrow> 'd \<Rightarrow> time \<Rightarrow> 'd arec \<Rightarrow> 'd arec" where
  "done_arec t p u r = r\<lparr>ar_state := Done t p u\<rparr>"

definition resched_arec :: "time \<Rightarrow> 'd arec \<Rightarrow> 'd arec" where
  "resched_arec nxt r = r\<lparr>ar_state := Pending, ar_next := nxt, ar_attempts := ar_attempts r + 1\<rparr>"

definition fail_arec :: "time \<Rightarrow> string \<Rightarrow> 'd arec \<Rightarrow> 'd arec" where
  "fail_arec t reason r = r\<lparr>ar_state := Failed t reason\<rparr>"

definition lease_arec :: "time \<Rightarrow> 'd arec \<Rightarrow> 'd arec" where
  "lease_arec l r = r\<lparr>ar_state := Running l\<rparr>"

definition recover_arec :: "time \<Rightarrow> 'd arec \<Rightarrow> 'd arec" where
  "recover_arec t r = (case ar_state r of Running l \<Rightarrow> if l < t then r\<lparr>ar_state := Pending\<rparr> else r | _ \<Rightarrow> r)"

definition expired :: "time \<Rightarrow> 'd arec \<Rightarrow> bool" where
  "expired t r \<longleftrightarrow> (case ar_state r of Running l \<Rightarrow> l < t | _ \<Rightarrow> False)"

definition eligible :: "time \<Rightarrow> 'd arec \<Rightarrow> bool" where
  "eligible t r \<longleftrightarrow> ar_state r = Pending \<and> ar_next r \<le> t"

lemmas arec_defs = new_arec_def done_arec_def resched_arec_def fail_arec_def lease_arec_def
  recover_arec_def expired_def eligible_def

text \<open>The three operations that need a running job share one shape: no such job, a job that
  is not running, or the update; a storage failure may strike before or after the update.\<close>

definition upd_spec :: "('d arec \<Rightarrow> 'd arec) \<Rightarrow> string \<Rightarrow> 'd aqueue \<Rightarrow> error option \<Rightarrow> 'd aqueue \<Rightarrow> bool" where
  "upd_spec f jid q e q' \<longleftrightarrow>
     (case e of
        None \<Rightarrow> (\<exists>r. q jid = Some r \<and> is_running (ar_state r) \<and> q' = q(jid \<mapsto> f r))
      | Some err \<Rightarrow>
          (if is_io err
           then q' = q \<or> (\<exists>r. q jid = Some r \<and> is_running (ar_state r) \<and> q' = q(jid \<mapsto> f r))
           else q' = q \<and>
                (case q jid of None \<Rightarrow> errors_Is err ErrNotFound
                 | Some r \<Rightarrow> \<not> is_running (ar_state r) \<and> errors_Is err ErrNotReserved)))"

definition job_matches :: "string \<Rightarrow> 'd arec \<Rightarrow> job \<Rightarrow> bool" where
  "job_matches jid r j \<longleftrightarrow> job_ID j = jid \<and> job_Base j = ar_base r \<and> job_Quote j = ar_quote r
     \<and> job_Attempts j = ar_attempts r \<and> job_NextRunAt j = ar_next r \<and> job_Source j = ar_source r
     \<and> job_CreatedAt j = ar_created r"

definition reserve_upd :: "time \<Rightarrow> string set \<Rightarrow> 'd aqueue \<Rightarrow> 'd aqueue" where
  "reserve_upd l ids q = (\<lambda>i. if i \<in> ids then map_option (lease_arec l) (q i) else q i)"

text \<open>\<open>Reserve\<close>: at most \<open>n\<close> distinct eligible jobs, none of them in the set other sessions
  hold locked, become running; an eligible unlocked job is left over only when \<open>n\<close> jobs were
  taken, and then it is due no earlier than any of them.\<close>

definition reserve_spec ::
    "string set \<Rightarrow> time \<Rightarrow> time \<Rightarrow> nat \<Rightarrow> 'd aqueue \<Rightarrow> job list \<Rightarrow> 'd aqueue \<Rightarrow> bool" where
  "reserve_spec locked t l n q js q' \<longleftrightarrow>
     distinct (map job_ID js) \<and> length js \<le> n
     \<and> (\<forall>j \<in> set js. \<exists>r. q (job_ID j) = Some r \<and> eligible t r \<and> job_ID j \<notin> locked \<and> job_matches (job_ID j) r j)
     \<and> (\<forall>i r. q i = Some r \<and> eligible t r \<and> i \<notin> locked \<and> i \<notin> job_ID ` set js \<longrightarrow>
           length js = n \<and> (\<forall>j \<in> set js. job_NextRunAt j \<le> ar_next r))
     \<and> q' = reserve_upd l (job_ID ` set js) q"

definition enqueue_spec :: "time \<Rightarrow> time \<Rightarrow> job \<Rightarrow> 'd aqueue \<Rightarrow> error + string \<times> bool \<Rightarrow> 'd aqueue \<Rightarrow> bool" where
  "enqueue_spec created nxt j q out q' \<longleftrightarrow>
     (case out of
        Inr (jid, True) \<Rightarrow> valid_source (job_Source j) \<and> jid = job_ID j \<and> q' = q(jid \<mapsto> new_arec created nxt j)
          \<and> (job_DedupKey j = [] \<or> (\<forall>i r. q i = Some r \<longrightarrow> ar_dedup r \<noteq> job_DedupKey j))
      | Inr (jid, False) \<Rightarrow> valid_source (job_Source j) \<and> q' = q \<and> job_DedupKey j \<noteq> []
          \<and> (\<exists>r. q jid = Some r \<and> ar_dedup r = job_DedupKey j)
      | Inl e \<Rightarrow> (q' = q \<and> (is_io e \<or> \<not> valid_source (job_Source j) \<and> errors_Is e ErrInvalidSource))
          \<or> (is_io e \<and> valid_source (job_Source j) \<and> q' = q(job_ID j \<mapsto> new_arec created nxt j)
             \<and> (job_DedupKey j = [] \<or> (\<forall>i r. q i = Some r \<longrightarrow> ar_dedup r \<noteq> job_DedupKey j))))"

definition recover_upd :: "time \<Rightarrow> 'd aqueue \<Rightarrow> 'd aqueue" where
  "recover_upd t q = (\<lambda>i. map_option (recover_arec t) (q i))"

definition recover_spec :: "time \<Rightarrow> 'd aqueue \<Rightarrow> error + int \<Rightarrow> 'd aqueue \<Rightarrow> bool" where
  "recover_spec t q out q' \<longleftrightarrow>
     (case out of
        Inr n \<Rightarrow> n = int (card {i. \<exists>r. q i = Some r \<and> expired t r}) \<and> q' = recover_upd t q
      | Inl e \<Rightarrow> is_io e \<and> (q' = q \<or> q' = recover_upd t q))"

definition view_matches :: "('d \<Rightarrow> 'd) \<Rightarrow> string \<Rightarrow> 'd arec \<Rightarrow> 'd job_view \<Rightarrow> bool" where
  "view_matches rb jid r v \<longleftrightarrow>
     jv_ID v = jid \<and> jv_Base v = ar_base r \<and> jv_Quote v = ar_quote r \<and> jv_Status v = status_name (ar_state r)
     \<and> jv_Attempts v = ar_attempts r \<and> jv_CreatedAt v = ar_created r
     \<and> (case ar_state r of
           Done t p u \<Rightarrow> jv_CompletedAt v = (if IsZero t then jv_CompletedAt v else Some t)
         | Failed t e \<Rightarrow> jv_CompletedAt v = (if IsZero t then jv_CompletedAt v else Some t)
         | _ \<Rightarrow> jv_CompletedAt v = None)
     \<and> jv_Price v = (case ar_state r of Done t p u \<Rightarrow> Some (rb p) | _ \<Rightarrow> None)
     \<and> jv_QuoteUpdatedAt v = (case ar_state r of Done t p u \<Rightarrow> Some u | _ \<Rightarrow> None)
     \<and> (case ar_state r of Failed t e \<Rightarrow> jv_LastError v = e | _ \<Rightarrow> True)"

definition view_spec :: "('d \<Rightarrow> 'd) \<Rightarrow> string \<Rightarrow> 'd aqueue \<Rightarrow> error + 'd job_view \<Rightarrow> bool" where
  "view_spec rb jid q out \<longleftrightarrow>
     (case out of
        Inr v \<Rightarrow> (\<exists>r. q jid = Some r \<and> view_matches rb jid r v)
      | Inl e \<Rightarrow> if is_io e then True else q jid = None \<and> errors_Is e ErrNotFound)"

lemmas queue_specs = upd_spec_def reserve_spec_def enqueue_spec_def recover_spec_def view_spec_def

section \<open>The interface\<close>

record ('s, 'd) queue_ops =
  Enqueue :: "job \<Rightarrow> 's \<Rightarrow> world \<Rightarrow> (error + string \<times> bool) \<times> 's \<times> world"
  Reserve :: "int \<Rightarrow> duration \<Rightarrow> 's \<Rightarrow> world \<Rightarrow> (error + job list) res \<times> 's \<times> world"
  Complete :: "string \<Rightarrow> 'd \<Rightarrow> time \<Rightarrow> 's \<Rightarrow> world \<Rightarrow> error option \<times> 's \<times> world"
  Reschedule :: "string \<Rightarrow> string \<Rightarrow> duration \<Rightarrow> 's \<Rightarrow> world \<Rightarrow> error option \<times> 's \<times> world"
  Fail :: "string \<Rightarrow> string \<Rightarrow> 's \<Rightarrow> world \<Rightarrow> error option \<times> 's \<times> world"
  GetByID :: "string \<Rightarrow> 's \<Rightarrow> world \<Rightarrow> (error + 'd job_view) \<times> 's \<times> world"
  RecoverExpired :: "'s \<Rightarrow> world \<Rightarrow> (error + int) \<times> 's \<times> world"

section \<open>Sequences of calls\<close>

text \<open>
  Producers, workers and cleaners share one queue and each operation is atomic (a mutex in
  memory, one statement in Postgres), so any interleaving of them is a list of calls.
  Running a list also collects the jobs \<open>Reserve\<close> hands out.
\<close>

datatype 'd qcall =
    CEnqueue job
  | CReserve int duration
  | CComplete string 'd time
  | CReschedule string string duration
  | CFail string string
  | CGetByID string
  | CRecoverExpired

fun exec_call :: "('s, 'd) queue_ops \<Rightarrow> 'd qcall \<Rightarrow> 's \<Rightarrow> world \<Rightarrow> job list \<times> 's \<times> world" where
  "exec_call ops (CEnqueue j) s w = ([], snd (Enqueue ops j s w))"
| "exec_call ops (CReserve n l) s w =
     (case Reserve ops n l s w of
        (Ok (Inr js), s', w') \<Rightarrow> (js, s', w')
      | (_, s', w') \<Rightarrow> ([], s', w'))"
| "exec_call ops (CComplete i p u) s w = ([], snd (Complete ops i p u s w))"
| "exec_call ops (CReschedule i m d) s w = ([], snd (Reschedule ops i m d s w))"
| "exec_call ops (CFail i m) s w = ([], snd (Fail ops i m s w))"
| "exec_call ops (CGetByID i) s w = ([], snd (GetByID ops i s w))"
| "exec_call ops CRecoverExpired s w = ([], snd (RecoverExpired ops s w))"

fun exec_calls :: "('s, 'd) queue_ops \<Rightarrow> 'd qcall list \<Rightarrow> 's \<Rightarrow> world \<Rightarrow> job list \<times> 's \<times> world" where
  "exec_calls ops [] s w = ([], s, w)"
| "exec_calls ops (c # cs) s w =
     (case exec_call ops c s w of (js, s', w') \<Rightarrow>
        case exec_calls ops cs s' w' of (js', s'', w'') \<Rightarrow> (js @ js', s'', w''))"

text \<open>A call is well formed when ids are those of the id generator, a new job has a fresh id
  and a batch size is not negative.\<close>

fun wf_call :: "(string \<Rightarrow> bool) \<Rightarrow> 'd aqueue \<Rightarrow> 'd qcall \<Rightarrow> bool" where
  "wf_call ok q (CEnqueue j) \<longleftrightarrow> job_ID j \<notin> dom q"
| "wf_call ok q (CReserve n l) \<longleftrightarrow> 0 \<le> n"
| "wf_call ok q (CComplete i p u) \<longleftrightarrow> ok i"
| "wf_call ok q (CReschedule i m d) \<longleftrightarrow> ok i"
| "wf_call ok q (CFail i m) \<longleftrightarrow> ok i"
| "wf_call ok q (CGetByID i) \<longleftrightarrow> ok i"
| "wf_call ok q CRecoverExpired \<longleftrightarrow> True"

fun wf_calls ::
    "('s, 'd) queue_ops \<Rightarrow> ('s \<Rightarrow> 'd aqueue) \<Rightarrow> (string \<Rightarrow> bool) \<Rightarrow> 'd qcall list \<Rightarrow> 's \<Rightarrow> world \<Rightarrow> bool" where
  "wf_calls ops absq ok [] s w \<longleftrightarrow> True"
| "wf_calls ops absq ok (c # cs) s w \<longleftrightarrow>
     wf_call ok (absq s) c \<and> (case exec_call ops c s w of (js, s', w') \<Rightarrow> wf_calls ops absq ok cs s' w')"

text \<open>A call settles a job when it ends or renews the work on exactly that job.\<close>

fun settles :: "string \<Rightarrow> 'd qcall \<Rightarrow> bool" where
  "settles i (CComplete k p u) \<longleftrightarrow> k = i"
| "settles i (CReschedule k m d) \<longleftrightarrow> k = i"
| "settles i (CFail k m) \<longleftrightarrow> k = i"
| "settles i _ \<longleftrightarrow> False"

section \<open>The life of one job\<close>

inductive job_trans :: "'d arec \<Rightarrow> 'd arec \<Rightarrow> bool" where
  stay: "job_trans r r"
| reserve: "eligible t r \<Longrightarrow> job_trans r (lease_arec l r)"
| complete: "is_running (ar_state r) \<Longrightarrow> job_trans r (done_arec t p u r)"
| fail: "is_running (ar_state r) \<Longrightarrow> job_trans r (fail_arec t m r)"
| reschedule: "is_running (ar_state r) \<Longrightarrow> job_trans r (resched_arec n r)"
| recover: "job_trans r (recover_arec t r)"

inductive_cases job_transE: "job_trans r r'"

definition same_job :: "'d arec \<Rightarrow> 'd arec \<Rightarrow> bool" where
  "same_job r r' \<longleftrightarrow> ar_base r' = ar_base r \<and> ar_quote r' = ar_quote r \<and> ar_source r' = ar_source r
     \<and> ar_dedup r' = ar_dedup r \<and> ar_created r' = ar_created r \<and> ar_attempts r \<le> ar_attempts r'"

lemma job_trans_same_job: "job_trans r r' \<Longrightarrow> same_job r r'"
  by (induction rule: job_trans.induct) (auto simp: same_job_def arec_defs split: jstate.splits)

lemma running_not_terminal [simp]: "is_running st \<Longrightarrow> \<not> is_terminal st"
  by (cases st) auto

lemma job_trans_terminal: "job_trans r r' \<Longrightarrow> is_terminal (ar_state r) \<Longrightarrow> r' = r"
  by (induction rule: job_trans.induct)
    (auto simp: arec_defs dest: running_not_terminal split: jstate.splits)

lemma job_trans_to_done:
  "job_trans r r' \<Longrightarrow> is_terminal (ar_state r') \<Longrightarrow> is_terminal (ar_state r) \<or> is_running (ar_state r)"
  by (induction rule: job_trans.induct) (auto simp: arec_defs split: jstate.splits if_splits)

lemma same_job_trans: "same_job r r' \<Longrightarrow> same_job r' r'' \<Longrightarrow> same_job r r''"
  by (simp add: same_job_def)

lemma upd_spec_trans:
  assumes "upd_spec f i q e q'" and "q k = Some r"
    and "\<And>r. is_running (ar_state r) \<Longrightarrow> job_trans r (f r)"
  shows "\<exists>r'. q' k = Some r' \<and> job_trans r r'"
  using assms
  by (auto simp: upd_spec_def intro: job_trans.stay split: option.splits if_splits)

lemma upd_spec_other: "upd_spec f i q e q' \<Longrightarrow> k \<noteq> i \<Longrightarrow> q' k = q k"
  by (auto simp: upd_spec_def split: option.splits if_splits)

lemma reserve_spec_trans:
  assumes "reserve_spec lk t l n q js q'" and "q k = Some r"
  shows "\<exists>r'. q' k = Some r' \<and> job_trans r r'"
  using assms by (force simp: reserve_spec_def reserve_upd_def intro: job_trans.intros)

lemma reserve_spec_other:
  assumes "reserve_spec lk t l n q js q'" and "q k = Some r" and "ar_state r \<noteq> Pending"
  shows "q' k = q k \<and> k \<notin> job_ID ` set js"
  using assms by (force simp: reserve_spec_def reserve_upd_def eligible_def)

lemma recover_upd_trans: "q k = Some r \<Longrightarrow> \<exists>r'. recover_upd t q k = Some r' \<and> job_trans r r'"
  by (auto simp: recover_upd_def intro: job_trans.recover)

lemma recover_spec_trans:
  assumes "recover_spec t q out q'" and "q k = Some r"
  shows "\<exists>r'. q' k = Some r' \<and> job_trans r r'"
  using assms recover_upd_trans [of q k r t]
  by (auto simp: recover_spec_def intro: job_trans.stay split: sum.splits)

section \<open>The contract\<close>

text \<open>
  \<open>absq\<close> is the abstract queue an implementation state stands for; \<open>ts\<close> the precision of its
  timestamps (the identity in memory); \<open>ok_id\<close> and \<open>ok_job\<close> the ids and jobs its storage can
  represent; \<open>ok_reason\<close> the failure texts it can store; \<open>quiet\<close> says that no storage failure
  is ahead; \<open>skipped\<close> are the jobs other sessions hold locked; \<open>readback\<close> is the price a stored price is
  read back as.
\<close>

locale job_queue =
  fixes ops :: "('s, 'd) queue_ops"
    and absq :: "'s \<Rightarrow> 'd aqueue"
    and invar :: "'s \<Rightarrow> bool"
    and ts :: "time \<Rightarrow> time"
    and ok_id :: "string \<Rightarrow> bool"
    and ok_job :: "job \<Rightarrow> bool"
    and ok_reason :: "string \<Rightarrow> bool"
    and quiet :: "'s \<Rightarrow> bool"
    and skipped :: "'s \<Rightarrow> string set"
    and readback :: "'d \<Rightarrow> 'd"
  assumes finite_jobs: "invar s \<Longrightarrow> finite (dom (absq s))"
    and dedup_unique: "invar s \<Longrightarrow> absq s i = Some r \<Longrightarrow> absq s k = Some r' \<Longrightarrow>
          ar_dedup r = ar_dedup r' \<Longrightarrow> ar_dedup r \<noteq> [] \<Longrightarrow> i = k"
    and enqueue_frame: "invar s \<Longrightarrow> job_ID j \<notin> dom (absq s) \<Longrightarrow> Enqueue ops j s w = (out, s', w') \<Longrightarrow>
          invar s' \<and> same_oracles w w' \<and> (\<forall>i r. absq s i = Some r \<longrightarrow> absq s' i = Some r)"
    and enqueue_law: "invar s \<Longrightarrow> job_ID j \<notin> dom (absq s) \<Longrightarrow> ok_job j \<Longrightarrow> Enqueue ops j s w = (out, s', w') \<Longrightarrow>
          enqueue_spec (ts (Now w)) (ts (job_NextRunAt j)) j (absq s) out (absq s')"
    and enqueue_quiet: "quiet s \<Longrightarrow> invar s \<Longrightarrow> job_ID j \<notin> dom (absq s) \<Longrightarrow> ok_job j \<Longrightarrow>
          Enqueue ops j s w = (out, s', w') \<Longrightarrow> quiet s' \<and> (\<forall>e. out = Inl e \<longrightarrow> \<not> is_io e)"
    and reserve_law: "invar s \<Longrightarrow> 0 \<le> n \<Longrightarrow> Reserve ops n l s w = (rout, s', w') \<Longrightarrow>
          invar s' \<and> same_oracles w w' \<and>
          (case rout of
             Ok (Inr js) \<Rightarrow> reserve_spec (skipped s) (ts (Now w)) (ts (Now w + l)) (nat n) (absq s) js (absq s')
           | Ok (Inl e) \<Rightarrow> is_io e \<and> (absq s' = absq s \<or>
               (\<exists>js. reserve_spec (skipped s) (ts (Now w)) (ts (Now w + l)) (nat n) (absq s) js (absq s')))
           | Panic m \<Rightarrow> False)"
    and reserve_quiet: "quiet s \<Longrightarrow> invar s \<Longrightarrow> 0 \<le> n \<Longrightarrow> Reserve ops n l s w = (rout, s', w') \<Longrightarrow>
          quiet s' \<and> (\<exists>js. rout = Ok (Inr js))"
    and complete_law: "invar s \<Longrightarrow> ok_id i \<Longrightarrow> Complete ops i p u s w = (e, s', w') \<Longrightarrow>
          invar s' \<and> same_oracles w w' \<and> upd_spec (done_arec (ts (Now w)) p (ts u)) i (absq s) e (absq s')"
    and complete_quiet: "quiet s \<Longrightarrow> invar s \<Longrightarrow> ok_id i \<Longrightarrow> Complete ops i p u s w = (e, s', w') \<Longrightarrow>
          quiet s' \<and> (\<forall>x. e = Some x \<longrightarrow> \<not> is_io x)"
    and reschedule_law: "invar s \<Longrightarrow> ok_id i \<Longrightarrow> Reschedule ops i m d s w = (e, s', w') \<Longrightarrow>
          invar s' \<and> same_oracles w w' \<and> upd_spec (resched_arec (ts (Now w + d))) i (absq s) e (absq s')"
    and reschedule_quiet: "quiet s \<Longrightarrow> invar s \<Longrightarrow> ok_id i \<Longrightarrow> ok_reason m \<Longrightarrow> Reschedule ops i m d s w = (e, s', w') \<Longrightarrow>
          quiet s' \<and> (\<forall>x. e = Some x \<longrightarrow> \<not> is_io x)"
    and fail_law: "invar s \<Longrightarrow> ok_id i \<Longrightarrow> Fail ops i m s w = (e, s', w') \<Longrightarrow>
          invar s' \<and> same_oracles w w' \<and> upd_spec (fail_arec (ts (Now w)) m) i (absq s) e (absq s')"
    and fail_quiet: "quiet s \<Longrightarrow> invar s \<Longrightarrow> ok_id i \<Longrightarrow> ok_reason m \<Longrightarrow> Fail ops i m s w = (e, s', w') \<Longrightarrow>
          quiet s' \<and> (\<forall>x. e = Some x \<longrightarrow> \<not> is_io x)"
    and get_law: "invar s \<Longrightarrow> ok_id i \<Longrightarrow> GetByID ops i s w = (gout, s', w') \<Longrightarrow>
          invar s' \<and> same_oracles w w' \<and> absq s' = absq s \<and> view_spec readback i (absq s) gout"
    and recover_law: "invar s \<Longrightarrow> RecoverExpired ops s w = (vout, s', w') \<Longrightarrow>
          invar s' \<and> same_oracles w w' \<and> recover_spec (ts (Now w)) (absq s) vout (absq s')"
begin

text \<open>What a call does to the jobs: it keeps those there are, reserves, settles one job, or recovers.\<close>

lemma call_cases:
  assumes "invar s" and "wf_call ok_id (absq s) c" and "exec_call ops c s w = (js, s', w')"
  obtains (frame) "js = []" "invar s' \<and> same_oracles w w'" "\<And>k r. absq s k = Some r \<Longrightarrow> absq s' k = Some r"
  | (reserved) lk t l n xs where "invar s' \<and> same_oracles w w'" "set js \<subseteq> set xs" "reserve_spec lk t l n (absq s) xs (absq s')"
  | (settled) f k e where "js = []" "invar s' \<and> same_oracles w w'" "settles k c" "upd_spec f k (absq s) e (absq s')"
      "\<And>r. is_running (ar_state r) \<Longrightarrow> job_trans r (f r)"
  | (recovered) out where "js = []" "invar s' \<and> same_oracles w w'" "recover_spec (ts (Now w)) (absq s) out (absq s')"
proof (cases c)
  case (CEnqueue j)
  with assms(3) obtain out where "js = []" "Enqueue ops j s w = (out, s', w')" by (auto simp: prod_eq_iff)
  then show thesis using enqueue_frame [OF assms(1)] assms(2) CEnqueue frame by auto
next
  case (CReserve n l)
  with assms(3) obtain out where r: "Reserve ops n l s w = (out, s', w')" "js = (case out of Ok (Inr xs) \<Rightarrow> xs | _ \<Rightarrow> [])"
    by (auto split: prod.splits res.splits sum.splits)
  have "0 \<le> n" using assms(2) CReserve by simp
  from reserve_law [OF assms(1) this r(1)] r(2) show thesis by (auto split: res.splits sum.splits intro: frame reserved)
next
  case (CComplete k p u)
  with assms(3) obtain e where e: "js = []" "Complete ops k p u s w = (e, s', w')" by (auto simp: prod_eq_iff)
  from complete_law [OF assms(1) _ e(2)] e(1) assms(2) CComplete show thesis by (intro settled) (auto intro: job_trans.complete)
next
  case (CReschedule k m d)
  with assms(3) obtain e where e: "js = []" "Reschedule ops k m d s w = (e, s', w')" by (auto simp: prod_eq_iff)
  from reschedule_law [OF assms(1) _ e(2)] e(1) assms(2) CReschedule show thesis by (intro settled) (auto intro: job_trans.reschedule)
next
  case (CFail k m)
  with assms(3) obtain e where e: "js = []" "Fail ops k m s w = (e, s', w')" by (auto simp: prod_eq_iff)
  from fail_law [OF assms(1) _ e(2)] e(1) assms(2) CFail show thesis by (intro settled) (auto intro: job_trans.fail)
next
  case (CGetByID k)
  with assms(3) obtain e where "js = []" "GetByID ops k s w = (e, s', w')" by (auto simp: prod_eq_iff)
  then show thesis using get_law [OF assms(1)] assms(2) CGetByID by (intro frame) auto
next
  case CRecoverExpired
  with assms(3) obtain out where "js = []" "RecoverExpired ops s w = (out, s', w')" by (auto simp: prod_eq_iff)
  then show thesis using recover_law [OF assms(1)] recovered by blast
qed

text \<open>Every call moves every job along \<open>job_trans\<close> and keeps the invariant.\<close>

lemma call_trans:
  assumes "invar s" and "wf_call ok_id (absq s) c" and "exec_call ops c s w = (js, s', w')"
  shows "invar s' \<and> same_oracles w w' \<and> (\<forall>k r. absq s k = Some r \<longrightarrow> (\<exists>r'. absq s' k = Some r' \<and> job_trans r r'))"
  using assms
proof (cases rule: call_cases)
  case frame
  then show ?thesis using job_trans.stay by blast
next
  case (reserved lk t l n xs)
  then show ?thesis using reserve_spec_trans by blast
next
  case (settled f k e)
  then show ?thesis using upd_spec_trans by blast
next
  case (recovered out)
  then show ?thesis using recover_spec_trans by blast
qed

lemma calls_keep_job:
  assumes "invar s" and "wf_calls ops absq ok_id cs s w" and "exec_calls ops cs s w = (js, s', w')"
    and "absq s i = Some r"
  shows "invar s' \<and> (\<exists>r'. absq s' i = Some r' \<and> same_job r r' \<and> (is_terminal (ar_state r) \<longrightarrow> r' = r))"
  using assms
proof (induction cs arbitrary: s w js r)
  case Nil
  then show ?case by (auto simp: same_job_def)
next
  case (Cons c cs)
  obtain js1 s1 w1 where e: "exec_call ops c s w = (js1, s1, w1)" by (metis prod_cases3)
  obtain js2 where es: "exec_calls ops cs s1 w1 = (js2, s', w')"
    using Cons.prems(3) e by (auto split: prod.splits)
  from Cons.prems(2) e have wf: "wf_call ok_id (absq s) c" "wf_calls ops absq ok_id cs s1 w1" by auto
  obtain r1 where r1: "invar s1" "absq s1 i = Some r1" "job_trans r r1"
    using call_trans [OF Cons.prems(1) wf(1) e] Cons.prems(4) by blast
  obtain r2 where "invar s'" "absq s' i = Some r2" "same_job r1 r2" "is_terminal (ar_state r1) \<longrightarrow> r2 = r1"
    using Cons.IH [OF r1(1) wf(2) es r1(2)] by blast
  then show ?case
    using job_trans_same_job [OF r1(3)] job_trans_terminal [OF r1(3)] same_job_trans by metis
qed

text \<open>A running job whose lease no clock reading exceeds stays running, and no \<open>Reserve\<close>
  hands it out, until a call settles it.\<close>

lemma call_keeps_lease:
  assumes "invar s" and "wf_call ok_id (absq s) c" and "exec_call ops c s w = (js, s', w')"
    and "absq s i = Some r" and "ar_state r = Running l" and "\<not> settles i c" and "\<forall>n. ts (clk w n) \<le> l"
  shows "absq s' i = Some r \<and> i \<notin> job_ID ` set js"
  using assms(1-3)
proof (cases rule: call_cases)
  case frame
  then show ?thesis using assms(4) by simp
next
  case (reserved lk t l' n xs)
  then show ?thesis using reserve_spec_other [OF reserved(3) assms(4)] assms(4,5) by auto
next
  case (settled f k e)
  moreover have "i \<noteq> k" using settled(3) assms(6) by blast
  ultimately show ?thesis using upd_spec_other [OF settled(4)] assms(4) by auto
next
  case (recovered out)
  moreover have "recover_arec (ts (Now w)) r = r"
    using assms(5,7) by (auto simp: recover_arec_def Now_def linorder_not_less)
  ultimately show ?thesis
    using assms(4) by (auto simp: recover_spec_def recover_upd_def split: sum.splits)
qed

lemma calls_keep_lease:
  assumes "invar s" and "wf_calls ops absq ok_id cs s w" and "exec_calls ops cs s w = (js, s', w')"
    and "absq s i = Some r" and "ar_state r = Running l" and "\<forall>c \<in> set cs. \<not> settles i c"
    and "\<forall>n. ts (clk w n) \<le> l"
  shows "absq s' i = Some r \<and> i \<notin> job_ID ` set js"
  using assms
proof (induction cs arbitrary: s w js)
  case Nil
  then show ?case by simp
next
  case (Cons c cs)
  obtain js1 s1 w1 where e: "exec_call ops c s w = (js1, s1, w1)" by (metis prod_cases3)
  obtain js2 where es: "exec_calls ops cs s1 w1 = (js2, s', w')" "js = js1 @ js2"
    using Cons.prems(3) e by (auto split: prod.splits)
  from Cons.prems(2) e have wf: "wf_call ok_id (absq s) c" "wf_calls ops absq ok_id cs s1 w1" by auto
  have k: "absq s1 i = Some r \<and> i \<notin> job_ID ` set js1"
    using call_keeps_lease [OF Cons.prems(1) wf(1) e Cons.prems(4,5)] Cons.prems(6,7) by simp
  have o: "invar s1" "clk w1 = clk w"
    using call_trans [OF Cons.prems(1) wf(1) e] by (simp_all add: same_oracles_def)
  have "absq s' i = Some r \<and> i \<notin> job_ID ` set js2"
    using Cons.IH [OF o(1) wf(2) es(1)] k Cons.prems(5-7) o(2) by simp
  with k es(2) show ?case by auto
qed

text \<open>Coalescing: the second of two enqueues with one key gets the id of the job the first
  one left, whatever happened in between.\<close>

lemma enqueue_existing_key:
  assumes "invar s" and "job_ID j \<notin> dom (absq s)" and "ok_job j" and "quiet s"
    and "valid_source (job_Source j)" and "job_DedupKey j \<noteq> []"
    and "absq s i = Some r" and "ar_dedup r = job_DedupKey j"
    and "Enqueue ops j s w = (out, s', w')"
  shows "out = Inr (i, False) \<and> absq s' = absq s"
proof -
  have spec: "enqueue_spec (ts (Now w)) (ts (job_NextRunAt j)) j (absq s) out (absq s')"
    by (rule enqueue_law [OF assms(1-3,9)])
  have nio: "\<forall>e. out = Inl e \<longrightarrow> \<not> is_io e"
    using enqueue_quiet [OF assms(4,1,2,3,9)] by blast
  show ?thesis
  proof (cases out)
    case (Inl e)
    with spec nio assms(5) show ?thesis by (auto simp: enqueue_spec_def)
  next
    case (Inr p)
    obtain k b where p: "p = (k, b)" by (cases p)
    show ?thesis
    proof (cases b)
      case True
      with Inr p spec assms(6-8) show ?thesis by (auto simp: enqueue_spec_def)
    next
      case False
      with Inr p spec obtain r' where "absq s' = absq s" "absq s k = Some r'" "ar_dedup r' = job_DedupKey j"
        by (auto simp: enqueue_spec_def)
      moreover from this have "k = i" using dedup_unique assms by metis
      ultimately show ?thesis using Inr p False by simp
    qed
  qed
qed

lemma coalesce_across:
  assumes inv: "invar s" and fresh: "job_ID j \<notin> dom (absq s)" and ok: "ok_job j" and key: "job_DedupKey j \<noteq> []"
    and first: "Enqueue ops j s w = (Inr (i, b), s1, w1)"
    and wf: "wf_calls ops absq ok_id cs s1 w1" and between: "exec_calls ops cs s1 w1 = (js, s2, w2)"
    and quiet: "quiet s2" and fresh2: "job_ID j2 \<notin> dom (absq s2)" and ok2: "ok_job j2"
    and src: "valid_source (job_Source j2)" and same: "job_DedupKey j2 = job_DedupKey j"
    and second: "Enqueue ops j2 s2 w3 = (out, s3, w4)"
  shows "out = Inr (i, False) \<and> absq s3 = absq s2"
proof -
  have "invar s1" using enqueue_frame [OF inv fresh first] by blast
  moreover obtain r where r: "absq s1 i = Some r" "ar_dedup r = job_DedupKey j"
    using enqueue_law [OF inv fresh ok first] by (cases b) (auto simp: enqueue_spec_def new_arec_def)
  ultimately obtain r2 where r2: "invar s2" "absq s2 i = Some r2" "same_job r r2"
    using calls_keep_job [OF _ wf between] by blast
  have "ar_dedup r2 = job_DedupKey j2" using r(2) r2(3) same by (simp add: same_job_def)
  moreover have "job_DedupKey j2 \<noteq> []" using key same by simp
  ultimately show ?thesis using enqueue_existing_key [OF r2(1) fresh2 ok2 quiet src _ r2(2) _ second] by simp
qed

end

section \<open>Properties of the coalescing key\<close>

text \<open>C10: Two refreshes coalesce exactly when they ask for the same pair (letter case aside) within
  the same window: for codes without a colon, a window of a positive number of whole seconds and instants at or
  after 1970, \<open>DedupKey\<close> gives the same key if and only if the upper-cased codes agree and the two
  instants fall into the same bucket, provided SHA-256 does not collide on the two hashed texts.\<close>

theorem DedupKey_coalesces_iff:
  assumes "CHR '':'' \<notin> set b \<union> set q \<union> set b' \<union> set q'" and "second \<le> d" and "0 \<le> t" and "0 \<le> t'"
    and "second dvd d" and "d < 2 ^ 63"
    and "inj_on sha256Hex {dedup_text b q (bucket_of t d), dedup_text b' q' (bucket_of t' d)}"
  shows "DedupKey b q t d = DedupKey b' q' t' d \<longleftrightarrow>
    ToUpper b = ToUpper b' \<and> ToUpper q = ToUpper q' \<and> Unix t div (d div second) = Unix t' div (d div second)"
proof -
  have k: "d div second \<noteq> 0" using assms(2) by simp
  have nz: "bucket_secs d \<noteq> 0" using assms(2) by (simp add: bucket_secs_zero)
  have "DedupKey b q t d = DedupKey b' q' t' d \<longleftrightarrow>
      dedup_text b q (bucket_of t d) = dedup_text b' q' (bucket_of t' d)"
    using inj_on_eq_iff [OF assms(7), of "dedup_text b q (bucket_of t d)" "dedup_text b' q' (bucket_of t' d)"] nz
    unfolding DedupKey_def by simp
  also have "\<dots> \<longleftrightarrow> ToUpper b = ToUpper b' \<and> ToUpper q = ToUpper q' \<and> bucket_of t d = bucket_of t' d"
    by (rule dedup_text_inj [OF assms(1)])
  also have "bucket_of t d = bucket_of t' d \<longleftrightarrow> Unix t div (d div second) = Unix t' div (d div second)"
    unfolding bucket_of_floor [OF assms(3,2,5,6)] bucket_of_floor [OF assms(4,2,5,6)] mult_cancel_right using k by blast
  finally show ?thesis .
qed

theorem DedupKey_coalesces_iff_witness:
  "DedupKey ''EUR'' ''MXN'' (1750000003 * second) (10 * second) = DedupKey ''eur'' ''Mxn'' (1750000009 * second) (10 * second)"
proof -
  have up: "ToUpper ''EUR'' = ToUpper ''eur''" "ToUpper ''MXN'' = ToUpper ''Mxn''" by code_simp+
  have bk: "bucket_of (1750000003 * second) (10 * second) = bucket_of (1750000009 * second) (10 * second)"
    by (simp add: bucket_of_floor Unix_def)
  have "dedup_text ''EUR'' ''MXN'' (bucket_of (1750000003 * second) (10 * second))
      = dedup_text ''eur'' ''Mxn'' (bucket_of (1750000009 * second) (10 * second))"
    unfolding dedup_text_def up bk ..
  moreover have "Unix (1750000003 * second) div (10 * second div second) = Unix (1750000009 * second) div (10 * second div second)"
    by (simp add: Unix_def)
  ultimately show ?thesis
    by (subst DedupKey_coalesces_iff) (use up in \<open>simp_all del: mult_numeral_1 div_mult_self1 div_mult_self2\<close>)
qed

text \<open>For a non-negative window \<open>DedupKey\<close> panics (integer divide by zero) exactly when the window is shorter than one
  second, and otherwise returns 64 lower-case hexadecimal characters, whatever the codes and the
  instant.\<close>

lemma DedupKey_total:
  "0 \<le> d \<Longrightarrow> case DedupKey b q t d of
     Panic m \<Rightarrow> d < second
   | Ok k \<Rightarrow> second \<le> d \<and> length k = 64 \<and> list_all is_lower_hex k"
  by (auto simp: DedupKey_def bucket_secs_zero sha256Hex_shape)

end
