(* ===== verification/Obs.thy ===== *)
theory Obs
  imports Prelude
begin

text \<open>
  The metric names of \<open>internal/obs/metrics.go\<close>; their declarations and registration are in
  theory \<open>Collectors\<close>. A counter or histogram update is an entry of the trace of the world; the value
  of a counter is the number of its \<open>Inc\<close> entries, as every counter starts at zero.
\<close>

definition MetricHTTPRequestsTotal :: string where "MetricHTTPRequestsTotal = ''http_requests_total''"
definition MetricHTTPRequestDurationSeconds :: string where
  "MetricHTTPRequestDurationSeconds = ''http_request_duration_seconds''"
definition MetricHTTPInFlightRequests :: string where "MetricHTTPInFlightRequests = ''http_in_flight_requests''"
definition MetricQuoteJobsPendingCount :: string where "MetricQuoteJobsPendingCount = ''quote_jobs_pending_count''"
definition MetricQuoteJobsTotal :: string where "MetricQuoteJobsTotal = ''quote_jobs_total''"
definition MetricQuoteJobsAttempts :: string where "MetricQuoteJobsAttempts = ''quote_jobs_attempts''"
definition MetricWorkerIterationsTotal :: string where "MetricWorkerIterationsTotal = ''worker_iterations_total''"
definition MetricSchedulerTicksTotal :: string where "MetricSchedulerTicksTotal = ''scheduler_ticks_total''"
definition MetricSchedulerLastTickSecondsAgo :: string where
  "MetricSchedulerLastTickSecondsAgo = ''scheduler_last_tick_seconds_ago''"
definition MetricCoalescingCollapsedTotal :: string where
  "MetricCoalescingCollapsedTotal = ''coalescing_collapsed_total''"
definition MetricRatesProviderRequestsTotal :: string where
  "MetricRatesProviderRequestsTotal = ''rates_provider_requests_total''"
definition MetricRatesProviderRequestDurationSeconds :: string where
  "MetricRatesProviderRequestDurationSeconds = ''rates_provider_request_duration_seconds''"
definition MetricRatesProviderQuotaUsed :: string where "MetricRatesProviderQuotaUsed = ''rates_provider_quota_used''"
definition MetricDBPoolTotalConns :: string where "MetricDBPoolTotalConns = ''db_pool_total_conns''"
definition MetricDBPoolIdleConns :: string where "MetricDBPoolIdleConns = ''db_pool_idle_conns''"
definition MetricDBPoolAcquiredConns :: string where "MetricDBPoolAcquiredConns = ''db_pool_acquired_conns''"
definition MetricDBPoolMaxConns :: string where "MetricDBPoolMaxConns = ''db_pool_max_conns''"
definition MetricDBPoolAcquiresTotal :: string where "MetricDBPoolAcquiresTotal = ''db_pool_acquires_total''"
definition MetricDBPoolAcquireWaitSecondsTotal :: string where
  "MetricDBPoolAcquireWaitSecondsTotal = ''db_pool_acquire_wait_seconds_total''"
definition MetricDBPoolEmptyAcquiresTotal :: string where "MetricDBPoolEmptyAcquiresTotal = ''db_pool_empty_acquires_total''"
definition MetricDBPoolCancelledAcquiresTotal :: string where
  "MetricDBPoolCancelledAcquiresTotal = ''db_pool_cancelled_acquires_total''"
definition MetricDBPoolNewConnsTotal :: string where "MetricDBPoolNewConnsTotal = ''db_pool_new_conns_total''"
definition MetricRatesProviderResponseAnomaliesTotal :: string where
  "MetricRatesProviderResponseAnomaliesTotal = ''rates_provider_response_anomalies_total''"
definition MetricQuoteJobsCompletionSeconds :: string where
  "MetricQuoteJobsCompletionSeconds = ''quote_jobs_completion_seconds''"

lemmas metric_names = MetricHTTPRequestsTotal_def MetricHTTPInFlightRequests_def MetricQuoteJobsPendingCount_def
  MetricQuoteJobsTotal_def MetricQuoteJobsAttempts_def MetricWorkerIterationsTotal_def
  MetricSchedulerTicksTotal_def MetricCoalescingCollapsedTotal_def MetricRatesProviderRequestsTotal_def
  MetricRatesProviderResponseAnomaliesTotal_def MetricQuoteJobsCompletionSeconds_def
  MetricHTTPRequestDurationSeconds_def MetricSchedulerLastTickSecondsAgo_def MetricRatesProviderRequestDurationSeconds_def
  MetricRatesProviderQuotaUsed_def

lemmas pool_metric_names = MetricDBPoolTotalConns_def MetricDBPoolIdleConns_def MetricDBPoolAcquiredConns_def
  MetricDBPoolMaxConns_def MetricDBPoolAcquiresTotal_def MetricDBPoolAcquireWaitSecondsTotal_def
  MetricDBPoolEmptyAcquiresTotal_def MetricDBPoolCancelledAcquiresTotal_def MetricDBPoolNewConnsTotal_def

end
