(* ===== verification/Memqueue.thy ===== *)
theory Memqueue
  imports Job_Queue Obs
begin

text \<open>
  \<open>internal/queue/memqueue/memqueue.go\<close>, the in-memory queue. The Go maps \<open>jobs\<close> and
  \<open>dedup\<close> are an association list (iterated in an arbitrary order, the oracle \<open>ord\<close>) and a
  map. Every operation of the file is a definition; the mutex makes each of them atomic.
  The interpretation \<open>mem\<close> discharges the contract of \<open>job_queue\<close>.
\<close>

section \<open>State\<close>

datatype mstatus = StatusPending | StatusRunning | StatusDone | StatusFailed

record 'd mem_record =
  mr_job :: job
  mr_status :: mstatus
  mr_leaseUntil :: time
  mr_createdAt :: time
  mr_completedAt :: time
  mr_price :: 'd
  mr_quoteUpdatedAt :: time
  mr_lastError :: string

record 'd mem_queue =
  mq_jobs :: "(string \<times> 'd mem_record) list"
  mq_dedup :: "string \<rightharpoonup> string"

definition mem_New :: "'d mem_queue" where
  "mem_New = \<lparr>mq_jobs = [], mq_dedup = Map.empty\<rparr>"

fun statusName :: "mstatus \<Rightarrow> string" where
  "statusName StatusPending = ''pending''"
| "statusName StatusRunning = ''running''"
| "statusName StatusDone = ''done''"
| "statusName StatusFailed = ''failed''"

section \<open>Operations\<close>

definition new_record :: "job \<Rightarrow> time \<Rightarrow> 'd::zero mem_record" where
  "new_record j now = \<lparr>mr_job = j, mr_status = StatusPending, mr_leaseUntil = zero_time, mr_createdAt = now,
     mr_completedAt = zero_time, mr_price = 0, mr_quoteUpdatedAt = zero_time, mr_lastError = []\<rparr>"

definition mem_Enqueue ::
    "job \<Rightarrow> 'd::zero mem_queue \<Rightarrow> world \<Rightarrow> (error + string \<times> bool) \<times> 'd mem_queue \<times> world" where
  "mem_Enqueue j q w =
     (if job_Source j \<noteq> ''refresh'' \<and> job_Source j \<noteq> ''scheduler'' then (Inl ErrInvalidSource, q, w)
      else case (if job_DedupKey j \<noteq> [] then mq_dedup q (job_DedupKey j) else None) of
        Some existingID \<Rightarrow> (Inr (existingID, False), q, emit (Inc MetricCoalescingCollapsedTotal []) w)
      | None \<Rightarrow>
          let now = Now w;
              q1 = q\<lparr>mq_jobs := AList.update (job_ID j) (new_record j now) (mq_jobs q)\<rparr>;
              q2 = (if job_DedupKey j \<noteq> [] then q1\<lparr>mq_dedup := (mq_dedup q1)(job_DedupKey j \<mapsto> job_ID j)\<rparr> else q1)
          in (Inr (job_ID j, True), q2, tick w))"

definition mem_eligible :: "time \<Rightarrow> 'd mem_record \<Rightarrow> bool" where
  "mem_eligible now r \<longleftrightarrow> mr_status r = StatusPending \<and> job_NextRunAt (mr_job r) \<le> now"

definition reserve_record :: "time \<Rightarrow> 'd mem_record \<Rightarrow> 'd mem_record" where
  "reserve_record l r = r\<lparr>mr_status := StatusRunning, mr_leaseUntil := l\<rparr>"

definition mem_Reserve ::
    "((string \<times> 'd mem_record) list \<Rightarrow> (string \<times> 'd mem_record) list) \<Rightarrow> int \<Rightarrow> duration \<Rightarrow> 'd mem_queue \<Rightarrow> world
      \<Rightarrow> (error + job list) res \<times> 'd mem_queue \<times> world" where
  "mem_Reserve ord n lease_d q w =
     (let now = Now w;
          elig = filter (\<lambda>(i, r). mem_eligible now r) (reorder ord (mq_jobs q));
          srt = sort_key (\<lambda>(i, r). job_NextRunAt (mr_job r)) elig
      in if n < int (length srt) \<and> n < 0
         then (Panic ''runtime error: slice bounds out of range'', q, tick w)
         else
           let picked = (if n < int (length srt) then take (nat n) srt else srt)
           in (Ok (Inr (map (\<lambda>(i, r). (mr_job r)\<lparr>job_CreatedAt := mr_createdAt r\<rparr>) picked)),
               q\<lparr>mq_jobs := map (\<lambda>(i, r). (i, if i \<in> fst ` set picked then reserve_record (now + lease_d) r else r))
                               (mq_jobs q)\<rparr>,
               tick w))"

text \<open>Writing through the record pointer a lookup returned.\<close>

definition mem_store :: "string \<Rightarrow> 'd mem_record \<Rightarrow> 'd mem_queue \<Rightarrow> 'd mem_queue" where
  "mem_store i r q = q\<lparr>mq_jobs := AList.update i r (mq_jobs q)\<rparr>"

definition mem_Complete ::
    "string \<Rightarrow> 'd \<Rightarrow> time \<Rightarrow> 'd mem_queue \<Rightarrow> world \<Rightarrow> error option \<times> 'd mem_queue \<times> world" where
  "mem_Complete i price quoteUpdatedAt q w =
     (case map_of (mq_jobs q) i of
        None \<Rightarrow> (Some ErrNotFound, q, w)
      | Some r \<Rightarrow>
          if mr_status r \<noteq> StatusRunning then (Some ErrNotReserved, q, w)
          else (None, mem_store i (r\<lparr>mr_status := StatusDone, mr_completedAt := Now w, mr_price := price,
                                    mr_quoteUpdatedAt := quoteUpdatedAt\<rparr>) q, tick w))"

definition mem_ReadBack :: "string \<Rightarrow> 'd mem_queue \<Rightarrow> error + 'd \<times> time \<times> string" where
  "mem_ReadBack i q =
     (case map_of (mq_jobs q) i of
        None \<Rightarrow> Inl ErrNotFound
      | Some r \<Rightarrow> Inr (mr_price r, mr_quoteUpdatedAt r, statusName (mr_status r)))"

definition mem_Reschedule ::
    "string \<Rightarrow> string \<Rightarrow> duration \<Rightarrow> 'd mem_queue \<Rightarrow> world \<Rightarrow> error option \<times> 'd mem_queue \<times> world" where
  "mem_Reschedule i reason after q w =
     (case map_of (mq_jobs q) i of
        None \<Rightarrow> (Some ErrNotFound, q, w)
      | Some r \<Rightarrow>
          if mr_status r \<noteq> StatusRunning then (Some ErrNotReserved, q, w)
          else (None, mem_store i (r\<lparr>mr_status := StatusPending,
                   mr_job := (mr_job r)\<lparr>job_NextRunAt := Now w + after, job_Attempts := job_Attempts (mr_job r) + 1\<rparr>,
                   mr_leaseUntil := zero_time\<rparr>) q, tick w))"

definition buildView :: "string \<Rightarrow> 'd mem_record \<Rightarrow> 'd job_view" where
  "buildView i r =
     \<lparr>jv_ID = i, jv_Base = job_Base (mr_job r), jv_Quote = job_Quote (mr_job r),
      jv_Status = statusName (mr_status r), jv_Attempts = job_Attempts (mr_job r), jv_CreatedAt = mr_createdAt r,
      jv_CompletedAt = (if \<not> IsZero (mr_completedAt r) then Some (mr_completedAt r) else None),
      jv_Price = (if mr_status r = StatusDone then Some (mr_price r) else None),
      jv_QuoteUpdatedAt = (if mr_status r = StatusDone then Some (mr_quoteUpdatedAt r) else None),
      jv_LastError = mr_lastError r\<rparr>"

definition mem_GetByID :: "string \<Rightarrow> 'd mem_queue \<Rightarrow> world \<Rightarrow> (error + 'd job_view) \<times> 'd mem_queue \<times> world" where
  "mem_GetByID i q w =
     (case map_of (mq_jobs q) i of
        None \<Rightarrow> (Inl ErrNotFound, q, w)
      | Some r \<Rightarrow> (Inr (buildView i r), q, w))"

definition mem_expired :: "time \<Rightarrow> 'd mem_record \<Rightarrow> bool" where
  "mem_expired now r \<longleftrightarrow> mr_status r = StatusRunning \<and> mr_leaseUntil r < now"

definition mem_RecoverExpired :: "'d mem_queue \<Rightarrow> world \<Rightarrow> (error + int) \<times> 'd mem_queue \<times> world" where
  "mem_RecoverExpired q w =
     (let now = Now w
      in (Inr (int (length (filter (\<lambda>(i, r). mem_expired now r) (mq_jobs q)))),
          q\<lparr>mq_jobs := map (\<lambda>(i, r). (i, if mem_expired now r
                            then r\<lparr>mr_status := StatusPending, mr_leaseUntil := zero_time\<rparr> else r)) (mq_jobs q)\<rparr>,
          tick w))"

definition mem_Fail :: "string \<Rightarrow> string \<Rightarrow> 'd mem_queue \<Rightarrow> world \<Rightarrow> error option \<times> 'd mem_queue \<times> world" where
  "mem_Fail i reason q w =
     (case map_of (mq_jobs q) i of
        None \<Rightarrow> (Some ErrNotFound, q, w)
      | Some r \<Rightarrow>
          if mr_status r \<noteq> StatusRunning then (Some ErrNotReserved, q, w)
          else (None, mem_store i (r\<lparr>mr_status := StatusFailed, mr_completedAt := Now w, mr_lastError := reason\<rparr>) q,
                tick w))"

definition mem_ops ::
    "((string \<times> 'd mem_record) list \<Rightarrow> (string \<times> 'd mem_record) list) \<Rightarrow> ('d::zero mem_queue, 'd) queue_ops" where
  "mem_ops ord = \<lparr>Enqueue = mem_Enqueue, Reserve = mem_Reserve ord, Complete = mem_Complete,
     Reschedule = mem_Reschedule, Fail = mem_Fail, GetByID = mem_GetByID, RecoverExpired = mem_RecoverExpired\<rparr>"

declare mem_ops_def [op_defs]

section \<open>Abstraction and invariant\<close>

definition mem_state :: "'d mem_record \<Rightarrow> 'd jstate" where
  "mem_state r = (case mr_status r of
      StatusPending \<Rightarrow> Pending
    | StatusRunning \<Rightarrow> Running (mr_leaseUntil r)
    | StatusDone \<Rightarrow> Done (mr_completedAt r) (mr_price r) (mr_quoteUpdatedAt r)
    | StatusFailed \<Rightarrow> Failed (mr_completedAt r) (mr_lastError r))"

definition mem_arec :: "'d mem_record \<Rightarrow> 'd arec" where
  "mem_arec r = \<lparr>ar_base = job_Base (mr_job r), ar_quote = job_Quote (mr_job r), ar_source = job_Source (mr_job r),
     ar_dedup = job_DedupKey (mr_job r), ar_attempts = job_Attempts (mr_job r), ar_next = job_NextRunAt (mr_job r),
     ar_created = mr_createdAt r, ar_state = mem_state r\<rparr>"

definition mem_abs :: "'d mem_queue \<Rightarrow> 'd aqueue" where
  "mem_abs q = (\<lambda>i. map_option mem_arec (map_of (mq_jobs q) i))"

definition mem_record_ok :: "'d mem_record \<Rightarrow> bool" where
  "mem_record_ok r \<longleftrightarrow> (mr_status r = StatusPending \<or> mr_status r = StatusRunning \<longrightarrow> mr_completedAt r = zero_time)"

definition mem_invar :: "'d mem_queue \<Rightarrow> bool" where
  "mem_invar q \<longleftrightarrow>
     distinct (map fst (mq_jobs q))
     \<and> (\<forall>i r. map_of (mq_jobs q) i = Some r \<longrightarrow> job_ID (mr_job r) = i \<and> mem_record_ok r)
     \<and> (\<forall>k i. mq_dedup q k = Some i \<longleftrightarrow>
           k \<noteq> [] \<and> (\<exists>r. map_of (mq_jobs q) i = Some r \<and> job_DedupKey (mr_job r) = k))"

lemma mem_arec_sel [simp]:
  "ar_base (mem_arec r) = job_Base (mr_job r)" "ar_quote (mem_arec r) = job_Quote (mr_job r)"
  "ar_source (mem_arec r) = job_Source (mr_job r)" "ar_dedup (mem_arec r) = job_DedupKey (mr_job r)"
  "ar_attempts (mem_arec r) = job_Attempts (mr_job r)" "ar_next (mem_arec r) = job_NextRunAt (mr_job r)"
  "ar_created (mem_arec r) = mr_createdAt r" "ar_state (mem_arec r) = mem_state r"
  by (simp_all add: mem_arec_def)

lemma is_running_mem [simp]: "is_running (mem_state r) \<longleftrightarrow> mr_status r = StatusRunning"
  by (simp add: mem_state_def split: mstatus.splits)

lemma mem_invar_New: "mem_invar mem_New"
  by (simp add: mem_invar_def mem_New_def)

lemma mem_abs_store: "mem_abs (mem_store i r q) = (mem_abs q)(i \<mapsto> mem_arec r)"
  by (auto simp: mem_abs_def mem_store_def update_conv')

lemma mem_invar_store:
  assumes "mem_invar q" and "map_of (mq_jobs q) i = Some r" and "job_ID (mr_job r') = i"
    and "job_DedupKey (mr_job r') = job_DedupKey (mr_job r)" and "mem_record_ok r'"
  shows "mem_invar (mem_store i r' q)"
proof -
  have dd: "mq_dedup q k = Some j \<longleftrightarrow>
      k \<noteq> [] \<and> (\<exists>x. map_of (AList.update i r' (mq_jobs q)) j = Some x \<and> job_DedupKey (mr_job x) = k)" for k j
    using assms by (auto simp: mem_invar_def update_conv' simp del: map_of_eq_Some_iff)
  then show ?thesis
    using assms by (auto simp: mem_invar_def mem_store_def update_conv' distinct_update)
qed

section \<open>The contract holds\<close>

lemma mem_dedup_hit:
  assumes "mem_invar q" and "mq_dedup q k = Some i"
  shows "k \<noteq> [] \<and> (\<exists>r. mem_abs q i = Some r \<and> ar_dedup r = k)"
  using assms by (auto simp: mem_invar_def mem_abs_def)

lemma mem_dedup_miss:
  assumes "mem_invar q" and "mq_dedup q k = None" and "k \<noteq> []" and "mem_abs q i = Some r"
  shows "ar_dedup r \<noteq> k"
  using assms by (auto simp: mem_invar_def mem_abs_def) (metis option.distinct(1))

lemma mem_arec_new: "job_Attempts j = 0 \<Longrightarrow> mem_arec (new_record j t) = new_arec t (job_NextRunAt j) j"
  by (simp add: mem_arec_def new_record_def new_arec_def mem_state_def)

lemma mem_dedup_iff:
  "mem_invar q \<Longrightarrow> mq_dedup q k = Some i \<longleftrightarrow>
     k \<noteq> [] \<and> (\<exists>r. map_of (mq_jobs q) i = Some r \<and> job_DedupKey (mr_job r) = k)"
  by (simp add: mem_invar_def)

lemma mem_invar_add:
  assumes inv: "mem_invar q" and fresh: "job_ID j \<notin> dom (mem_abs q)"
    and miss: "job_DedupKey j \<noteq> [] \<Longrightarrow> mq_dedup q (job_DedupKey j) = None"
  shows "mem_invar \<lparr>mq_jobs = AList.update (job_ID j) (new_record j t) (mq_jobs q),
     mq_dedup = (if job_DedupKey j \<noteq> [] then (mq_dedup q)(job_DedupKey j \<mapsto> job_ID j) else mq_dedup q)\<rparr>"
    (is "mem_invar ?q'")
proof -
  have none: "map_of (mq_jobs q) (job_ID j) = None"
    using fresh by (auto simp: mem_abs_def dom_def)
  have dd: "mq_dedup ?q' k = Some i \<longleftrightarrow>
      k \<noteq> [] \<and> (\<exists>r. map_of (mq_jobs ?q') i = Some r \<and> job_DedupKey (mr_job r) = k)" for k i
  proof (cases "i = job_ID j")
    case True
    then show ?thesis
      using none mem_dedup_iff [OF inv, of k i] by (auto simp: update_conv' new_record_def)
  next
    case False
    then show ?thesis
      using miss mem_dedup_iff [OF inv, of k i] by (auto simp: update_conv' new_record_def)
  qed
  moreover have "distinct (map fst (mq_jobs ?q'))"
    using inv by (simp add: mem_invar_def distinct_update)
  moreover have "job_ID (mr_job r) = i \<and> mem_record_ok r" if "map_of (mq_jobs ?q') i = Some r" for i r
    using that inv by (auto simp: mem_invar_def update_conv' new_record_def mem_record_ok_def split: if_splits)
  ultimately show ?thesis unfolding mem_invar_def by blast
qed

lemma mem_Enqueue_cases:
  assumes "mem_Enqueue j q w = (out, q', w')"
  obtains (invalid) "\<not> valid_source (job_Source j)" "out = Inl ErrInvalidSource" "q' = q" "w' = w"
  | (hit) i where "valid_source (job_Source j)" "job_DedupKey j \<noteq> []" "mq_dedup q (job_DedupKey j) = Some i"
      "out = Inr (i, False)" "q' = q" "w' = emit (Inc MetricCoalescingCollapsedTotal []) w"
  | (added) "valid_source (job_Source j)" "job_DedupKey j \<noteq> [] \<Longrightarrow> mq_dedup q (job_DedupKey j) = None"
      "out = Inr (job_ID j, True)" "w' = tick w"
      "q' = \<lparr>mq_jobs = AList.update (job_ID j) (new_record j (Now w)) (mq_jobs q),
         mq_dedup = (if job_DedupKey j \<noteq> [] then (mq_dedup q)(job_DedupKey j \<mapsto> job_ID j) else mq_dedup q)\<rparr>"
  using assms
  by (auto simp: mem_Enqueue_def valid_source_def Let_def split: if_splits option.splits)

lemma mem_enqueue_frame:
  assumes "mem_invar q" and "job_ID j \<notin> dom (mem_abs q)" and "mem_Enqueue j q w = (out, q', w')"
  shows "mem_invar q' \<and> same_oracles w w' \<and> (\<forall>i r. mem_abs q i = Some r \<longrightarrow> mem_abs q' i = Some r)"
  using assms(3)
proof (cases rule: mem_Enqueue_cases)
  case added
  then have "mem_abs q' i = mem_abs q i" if "i \<noteq> job_ID j" for i
    using that by (simp add: mem_abs_def update_conv')
  with added show ?thesis
    using mem_invar_add [OF assms(1,2)] assms(2) by (metis domI same_oracles_refl same_oracles_step(1))
qed (use assms(1) in auto)

lemma mem_enqueue_law:
  assumes "mem_invar q" and "job_ID j \<notin> dom (mem_abs q)" and "job_Attempts j = 0"
    and "mem_Enqueue j q w = (out, q', w')"
  shows "enqueue_spec (Now w) (job_NextRunAt j) j (mem_abs q) out (mem_abs q')"
  using assms(4)
proof (cases rule: mem_Enqueue_cases)
  case (hit i)
  then show ?thesis using mem_dedup_hit [OF assms(1)] by (auto simp: enqueue_spec_def)
next
  case added
  have "mem_abs q' = (mem_abs q)(job_ID j \<mapsto> new_arec (Now w) (job_NextRunAt j) j)"
    using added(5) assms(3) by (auto simp: mem_abs_def update_conv' mem_arec_new)
  then show ?thesis
    using added mem_dedup_miss [OF assms(1)] by (auto simp: enqueue_spec_def)
qed (simp add: enqueue_spec_def)

lemma mem_Enqueue_error: "mem_Enqueue j q w = (Inl e, q', w') \<Longrightarrow> e = ErrInvalidSource"
  by (auto elim: mem_Enqueue_cases)

text \<open>The three operations on a running job.\<close>

lemma mem_upd_law:
  assumes "mem_invar q" and "map_of (mq_jobs q) i = Some r" and "mr_status r = StatusRunning"
    and "job_ID (mr_job r') = job_ID (mr_job r)" and "job_DedupKey (mr_job r') = job_DedupKey (mr_job r)"
    and "mem_record_ok r'" and "mem_arec r' = f (mem_arec r)"
  shows "mem_invar (mem_store i r' q) \<and> upd_spec f i (mem_abs q) None (mem_abs (mem_store i r' q))"
proof -
  have "job_ID (mr_job r) = i" using assms(1,2) by (simp add: mem_invar_def)
  then show ?thesis
    using assms mem_invar_store [OF assms(1,2)] by (simp add: upd_spec_def mem_abs_store) (simp add: mem_abs_def)
qed

lemma mem_upd_errors:
  "map_of (mq_jobs q) i = None \<Longrightarrow> upd_spec f i (mem_abs q) (Some ErrNotFound) (mem_abs q)"
  "map_of (mq_jobs q) i = Some r \<Longrightarrow> mr_status r \<noteq> StatusRunning \<Longrightarrow>
     upd_spec f i (mem_abs q) (Some ErrNotReserved) (mem_abs q)"
  by (simp_all add: upd_spec_def mem_abs_def)

lemmas mem_arec_upd = mem_arec_def mem_state_def done_arec_def fail_arec_def resched_arec_def mem_record_ok_def

lemma mem_complete_law:
  assumes "mem_invar q" and "mem_Complete i p u q w = (e, q', w')"
  shows "mem_invar q' \<and> same_oracles w w' \<and> upd_spec (done_arec (Now w) p u) i (mem_abs q) e (mem_abs q')"
proof (cases "map_of (mq_jobs q) i")
  case (Some r)
  show ?thesis
  proof (cases "mr_status r = StatusRunning")
    case True
    with assms(2) Some mem_upd_law [OF assms(1) Some True, of _ "done_arec (Now w) p u"] show ?thesis
      by (auto simp: mem_Complete_def mem_arec_upd)
  qed (use assms Some mem_upd_errors(2) in \<open>auto simp: mem_Complete_def\<close>)
qed (use assms mem_upd_errors(1) in \<open>auto simp: mem_Complete_def\<close>)

lemma mem_reschedule_law:
  assumes "mem_invar q" and "mem_Reschedule i m d q w = (e, q', w')"
  shows "mem_invar q' \<and> same_oracles w w' \<and> upd_spec (resched_arec (Now w + d)) i (mem_abs q) e (mem_abs q')"
proof (cases "map_of (mq_jobs q) i")
  case (Some r)
  show ?thesis
  proof (cases "mr_status r = StatusRunning")
    case True
    moreover have "mem_record_ok r" using assms(1) Some by (simp add: mem_invar_def)
    ultimately show ?thesis
      using assms(2) Some mem_upd_law [OF assms(1) Some True, of _ "resched_arec (Now w + d)"]
      by (auto simp: mem_Reschedule_def mem_arec_upd)
  qed (use assms Some mem_upd_errors(2) in \<open>auto simp: mem_Reschedule_def\<close>)
qed (use assms mem_upd_errors(1) in \<open>auto simp: mem_Reschedule_def\<close>)

lemma mem_fail_law:
  assumes "mem_invar q" and "mem_Fail i m q w = (e, q', w')"
  shows "mem_invar q' \<and> same_oracles w w' \<and> upd_spec (fail_arec (Now w) m) i (mem_abs q) e (mem_abs q')"
proof (cases "map_of (mq_jobs q) i")
  case (Some r)
  show ?thesis
  proof (cases "mr_status r = StatusRunning")
    case True
    with assms(2) Some mem_upd_law [OF assms(1) Some True, of _ "fail_arec (Now w) m"] show ?thesis
      by (auto simp: mem_Fail_def mem_arec_upd)
  qed (use assms Some mem_upd_errors(2) in \<open>auto simp: mem_Fail_def\<close>)
qed (use assms mem_upd_errors(1) in \<open>auto simp: mem_Fail_def\<close>)

lemma mem_get_law:
  assumes "mem_invar q" and "mem_GetByID i q w = (out, q', w')"
  shows "mem_invar q' \<and> same_oracles w w' \<and> mem_abs q' = mem_abs q \<and> view_spec (\<lambda>p. p) i (mem_abs q) out"
proof (cases "map_of (mq_jobs q) i")
  case (Some r)
  then have "mem_record_ok r" using assms(1) by (simp add: mem_invar_def)
  then have "view_matches (\<lambda>p. p) i (mem_arec r) (buildView i r)"
    by (cases "mr_status r")
      (simp_all add: view_matches_def buildView_def mem_state_def mem_record_ok_def IsZero_def)
  with Some assms show ?thesis by (auto simp: mem_GetByID_def view_spec_def mem_abs_def)
qed (use assms in \<open>auto simp: mem_GetByID_def view_spec_def mem_abs_def\<close>)

text \<open>\<open>Reserve\<close>: facts about the picked prefix of the sorted eligible entries.\<close>

definition mem_picked ::
    "((string \<times> 'd mem_record) list \<Rightarrow> (string \<times> 'd mem_record) list) \<Rightarrow> nat \<Rightarrow> time \<Rightarrow> 'd mem_queue
      \<Rightarrow> (string \<times> 'd mem_record) list" where
  "mem_picked ord n now q =
     take n (sort_key (\<lambda>(i, r). job_NextRunAt (mr_job r))
               (filter (\<lambda>(i, r). mem_eligible now r) (reorder ord (mq_jobs q))))"

lemma mem_Reserve_eq:
  assumes "0 \<le> n"
  shows "mem_Reserve ord n l q w =
     (Ok (Inr (map (\<lambda>(i, r). (mr_job r)\<lparr>job_CreatedAt := mr_createdAt r\<rparr>) (mem_picked ord (nat n) (Now w) q))),
      q\<lparr>mq_jobs := map (\<lambda>(i, r). (i, if i \<in> fst ` set (mem_picked ord (nat n) (Now w) q)
                       then reserve_record (Now w + l) r else r)) (mq_jobs q)\<rparr>,
      tick w)"
proof -
  have "(if n < int (length xs) then take (nat n) xs else xs) = take (nat n) xs" for xs :: "(string \<times> 'a mem_record) list"
    by (simp add: not_less)
  then show ?thesis using assms unfolding mem_Reserve_def mem_picked_def Let_def by simp
qed

lemma mem_picked_sub:
  "(i, r) \<in> set (mem_picked ord n now q) \<Longrightarrow> (i, r) \<in> set (mq_jobs q) \<and> mem_eligible now r"
  by (auto simp: mem_picked_def dest!: in_set_takeD)

lemma mem_picked_leftover:
  assumes "(i, r) \<in> set (mq_jobs q)" and "mem_eligible now r" and "i \<notin> fst ` set (mem_picked ord n now q)"
  shows "length (mem_picked ord n now q) = n"
    and "(k, x) \<in> set (mem_picked ord n now q) \<Longrightarrow> job_NextRunAt (mr_job x) \<le> job_NextRunAt (mr_job r)"
proof -
  let ?key = "\<lambda>(i, r). job_NextRunAt (mr_job r)"
  let ?el = "filter (\<lambda>(i, r). mem_eligible now r) (reorder ord (mq_jobs q))"
  have mem: "(i, r) \<in> set ?el" using assms(1,2) by simp
  have out: "(i, r) \<notin> set (take n (sort_key ?key ?el))"
    using assms(3) by (force simp: mem_picked_def)
  then have "\<not> length ?el \<le> n" using mem by (metis length_sort set_sort take_all)
  then show "length (mem_picked ord n now q) = n" by (simp add: mem_picked_def)
  assume "(k, x) \<in> set (mem_picked ord n now q)"
  then show "job_NextRunAt (mr_job x) \<le> job_NextRunAt (mr_job r)"
    using sorted_take_sort_key [of "(k, x)" n ?key ?el "(i, r)"] mem out by (simp add: mem_picked_def)
qed

text \<open>Rewriting every record in place keeps the invariant when ids, keys and timestamps stay.\<close>

lemma mem_invar_map:
  assumes inv: "mem_invar q" and jobs: "mq_jobs q' = map (\<lambda>(i, r). (i, g i r)) (mq_jobs q)"
    and dd: "mq_dedup q' = mq_dedup q"
    and keep: "\<And>i r. map_of (mq_jobs q) i = Some r \<Longrightarrow> job_ID (mr_job (g i r)) = job_ID (mr_job r)
      \<and> job_DedupKey (mr_job (g i r)) = job_DedupKey (mr_job r) \<and> mem_record_ok (g i r)"
  shows "mem_invar q'"
proof -
  have lookup: "map_of (mq_jobs q') i = map_option (g i) (map_of (mq_jobs q) i)" for i
    unfolding jobs by (rule map_of_map_values)
  have "mq_dedup q' k = Some i \<longleftrightarrow>
      k \<noteq> [] \<and> (\<exists>r. map_of (mq_jobs q') i = Some r \<and> job_DedupKey (mr_job r) = k)" for k i
    unfolding dd lookup mem_dedup_iff [OF inv] using keep by auto
  moreover have "job_ID (mr_job r) = i \<and> mem_record_ok r" if "map_of (mq_jobs q') i = Some r" for i r
    using that inv keep unfolding lookup mem_invar_def by auto
  moreover have "distinct (map fst (mq_jobs q'))"
    using inv unfolding jobs by (simp add: mem_invar_def)
  ultimately show ?thesis unfolding mem_invar_def by blast
qed

lemma mem_picked_abs:
  assumes "mem_invar q" and "(i, r) \<in> set (mem_picked ord k t q)"
  shows "mem_abs q i = Some (mem_arec r)" and "eligible t (mem_arec r)" and "job_ID (mr_job r) = i"
proof -
  have sub: "(i, r) \<in> set (mq_jobs q)" "mem_eligible t r" using mem_picked_sub [OF assms(2)] by auto
  then have m: "map_of (mq_jobs q) i = Some r" using assms(1) by (auto simp: mem_invar_def intro: map_of_is_SomeI)
  then show "mem_abs q i = Some (mem_arec r)" "job_ID (mr_job r) = i" using assms(1) by (auto simp: mem_abs_def mem_invar_def)
  show "eligible t (mem_arec r)" using sub(2) by (auto simp: eligible_def mem_eligible_def mem_state_def)
qed

lemma mem_leftover_abs:
  assumes "mem_abs q i = Some ar" and "eligible t ar" and "i \<notin> fst ` set (mem_picked ord k t q)"
  shows "length (mem_picked ord k t q) = k \<and> (\<forall>(j, r) \<in> set (mem_picked ord k t q). job_NextRunAt (mr_job r) \<le> ar_next ar)"
proof -
  obtain r where r: "(i, r) \<in> set (mq_jobs q)" "ar = mem_arec r" using assms(1) by (auto simp: mem_abs_def dest: map_of_SomeD)
  have "mem_eligible t r" using assms(2) r(2) by (auto simp: eligible_def mem_eligible_def mem_state_def split: mstatus.splits)
  from mem_picked_leftover [OF r(1) this assms(3)] show ?thesis by (auto simp: r(2))
qed

lemma mem_reserve_law:
  assumes inv: "mem_invar q" and n: "0 \<le> n" and res: "mem_Reserve ord n l q w = (out, q', w')"
  shows "mem_invar q' \<and> same_oracles w w' \<and>
    (\<exists>js. out = Ok (Inr js) \<and> reserve_spec {} (Now w) (Now w + l) (nat n) (mem_abs q) js (mem_abs q'))"
proof -
  let ?p = "mem_picked ord (nat n) (Now w) q"
  let ?ids = "fst ` set ?p"
  define js where "js = map (\<lambda>(i, r). (mr_job r)\<lparr>job_CreatedAt := mr_createdAt r\<rparr>) ?p"
  have out: "out = Ok (Inr js)" and w': "w' = tick w"
    and q': "mq_jobs q' = map (\<lambda>(i, r). (i, if i \<in> ?ids then reserve_record (Now w + l) r else r)) (mq_jobs q)"
      "mq_dedup q' = mq_dedup q"
    using res unfolding mem_Reserve_eq [OF n] js_def by auto
  have dist: "distinct (map fst (mq_jobs q))" using inv by (simp add: mem_invar_def)
  have lookup: "map_of (mq_jobs q') i =
      map_option (\<lambda>r. if i \<in> ?ids then reserve_record (Now w + l) r else r) (map_of (mq_jobs q) i)" for i
    unfolding q' by (rule map_of_map_values)
  have ids: "job_ID ` set js = ?ids" "map job_ID js = map fst ?p"
    unfolding js_def using mem_picked_abs(3) [OF inv] by (force simp: image_iff, force)
  have okr: "mem_record_ok (reserve_record (Now w + l) r)" if "mem_record_ok r" "mem_eligible (Now w) r" for r
    using that by (simp add: mem_record_ok_def reserve_record_def mem_eligible_def)
  have elig: "mem_eligible (Now w) r" if "map_of (mq_jobs q) i = Some r" "i \<in> ?ids" for i r
  proof -
    from that(2) obtain r' where "(i, r') \<in> set ?p" by auto
    from mem_picked_sub [OF this] that(1) dist show ?thesis by (metis map_of_is_SomeI option.inject)
  qed
  have "mem_invar q'"
  proof (rule mem_invar_map [OF inv q'])
    fix i r assume r: "map_of (mq_jobs q) i = Some r"
    then have "mem_record_ok r" using inv by (simp add: mem_invar_def)
    with okr elig [OF r] show "job_ID (mr_job (if i \<in> ?ids then reserve_record (Now w + l) r else r)) = job_ID (mr_job r)
        \<and> job_DedupKey (mr_job (if i \<in> ?ids then reserve_record (Now w + l) r else r)) = job_DedupKey (mr_job r)
        \<and> mem_record_ok (if i \<in> ?ids then reserve_record (Now w + l) r else r)"
      by (auto simp: reserve_record_def)
  qed
  moreover have "reserve_spec {} (Now w) (Now w + l) (nat n) (mem_abs q) js (mem_abs q')"
    unfolding reserve_spec_def
  proof (intro conjI)
    show "distinct (map job_ID js)"
      unfolding ids mem_picked_def using dist by (rule distinct_map_take_sort)
    show "length js \<le> nat n" by (simp add: js_def mem_picked_def)
    show "\<forall>j\<in>set js. \<exists>r. mem_abs q (job_ID j) = Some r \<and> eligible (Now w) r \<and> job_ID j \<notin> {} \<and> job_matches (job_ID j) r j"
      using mem_picked_abs [OF inv] unfolding js_def by (fastforce simp: job_matches_def)
    show "\<forall>i r. mem_abs q i = Some r \<and> eligible (Now w) r \<and> i \<notin> {} \<and> i \<notin> job_ID ` set js \<longrightarrow>
           length js = nat n \<and> (\<forall>j\<in>set js. job_NextRunAt j \<le> ar_next r)"
      using mem_leftover_abs [of q _ _ "Now w" ord "nat n"] unfolding ids by (fastforce simp: js_def)
    show "mem_abs q' = reserve_upd (Now w + l) (job_ID ` set js) (mem_abs q)"
      unfolding ids reserve_upd_def mem_abs_def lookup
      by (auto simp: fun_eq_iff option.map_comp o_def mem_arec_def mem_state_def reserve_record_def lease_arec_def
          intro!: option.map_cong)
  qed
  ultimately show ?thesis using out w' by simp
qed

lemma mem_recover_law:
  assumes inv: "mem_invar q" and rec: "mem_RecoverExpired q w = (out, q', w')"
  shows "mem_invar q' \<and> same_oracles w w' \<and> recover_spec (Now w) (mem_abs q) out (mem_abs q')"
proof -
  let ?f = "\<lambda>r. if mem_expired (Now w) r then r\<lparr>mr_status := StatusPending, mr_leaseUntil := zero_time\<rparr> else r"
  have q': "mq_jobs q' = map (\<lambda>(i, r). (i, ?f r)) (mq_jobs q)" "mq_dedup q' = mq_dedup q" "w' = tick w"
    and out: "out = Inr (int (length (filter (\<lambda>(i, r). mem_expired (Now w) r) (mq_jobs q))))"
    using rec by (auto simp: mem_RecoverExpired_def Let_def)
  have dist: "distinct (map fst (mq_jobs q))" using inv by (simp add: mem_invar_def)
  have lookup: "map_of (mq_jobs q') i = map_option ?f (map_of (mq_jobs q) i)" for i
    unfolding q' using map_of_map_values [of "\<lambda>i. ?f" "mq_jobs q" i] by simp
  have "mem_invar q'"
  proof (rule mem_invar_map [OF inv q'(1,2)])
    fix i r assume "map_of (mq_jobs q) i = Some r"
    then have "mem_record_ok r" using inv by (simp add: mem_invar_def)
    then show "job_ID (mr_job (?f r)) = job_ID (mr_job r) \<and> job_DedupKey (mr_job (?f r)) = job_DedupKey (mr_job r)
        \<and> mem_record_ok (?f r)"
      by (simp add: mem_record_ok_def mem_expired_def)
  qed
  moreover have "{i. \<exists>r. mem_abs q i = Some r \<and> expired (Now w) r}
      = fst ` set (filter (\<lambda>(i, r). mem_expired (Now w) r) (mq_jobs q))"
    using dist by (force simp: mem_abs_def expired_def mem_expired_def mem_state_def split: mstatus.splits)
  moreover have "card (fst ` set (filter P (mq_jobs q))) = length (filter P (mq_jobs q))" for P
    using dist by (rule card_image_filter)
  moreover have "mem_abs q' = recover_upd (Now w) (mem_abs q)"
    unfolding recover_upd_def mem_abs_def lookup
    by (auto simp: fun_eq_iff option.map_comp o_def mem_arec_def mem_state_def mem_expired_def recover_arec_def
        intro!: option.map_cong split: mstatus.splits)
  ultimately show ?thesis using out q'(3) by (simp add: recover_spec_def)
qed

interpretation mem: job_queue "mem_ops ord" mem_abs mem_invar "\<lambda>t. t" "\<lambda>i. True" "\<lambda>j. job_Attempts j = 0"
  "\<lambda>m. True" "\<lambda>q. True" "\<lambda>q. {}" "\<lambda>p. p" for ord
proof (unfold_locales, goal_cases)
  case (1 s)
  have "dom (mem_abs s) = dom (map_of (mq_jobs s))" by (auto simp: mem_abs_def dom_def)
  then show ?case by (simp add: finite_dom_map_of)
next
  case (2 s i r k r')
  then have "mq_dedup s (ar_dedup r) = Some i" "mq_dedup s (ar_dedup r) = Some k"
    by (auto simp: mem_invar_def mem_abs_def simp del: map_of_eq_Some_iff)
  then show ?case by simp
next
  case (3 s j w out s' w')
  then show ?case using mem_enqueue_frame by (simp add: op_defs)
next
  case (4 s j w out s' w')
  then show ?case using mem_enqueue_law by (simp add: op_defs)
next
  case (5 s j w out s' w')
  then show ?case using mem_Enqueue_error by (fastforce simp: op_defs)
next
  case (6 s n l w rout s' w')
  then show ?case using mem_reserve_law by (fastforce simp: op_defs)
next
  case (7 s n l w rout s' w')
  then show ?case using mem_reserve_law by (fastforce simp: op_defs)
next
  case (8 s i p u w e s' w')
  then show ?case using mem_complete_law by (simp add: op_defs)
next
  case (9 s i p u w e s' w')
  then show ?case by (auto simp: op_defs mem_Complete_def split: option.splits if_splits)
next
  case (10 s i m d w e s' w')
  then show ?case using mem_reschedule_law by (simp add: op_defs)
next
  case (11 s i m d w e s' w')
  then show ?case by (auto simp: op_defs mem_Reschedule_def split: option.splits if_splits)
next
  case (12 s i m w e s' w')
  then show ?case using mem_fail_law by (simp add: op_defs)
next
  case (13 s i m w e s' w')
  then show ?case by (auto simp: op_defs mem_Fail_def split: option.splits if_splits)
next
  case (14 s i w gout s' w')
  then show ?case using mem_get_law by (simp add: op_defs)
next
  case (15 s w vout s' w')
  then show ?case using mem_recover_law by (simp add: op_defs)
qed

section \<open>Properties\<close>

text \<open>A queue with a running, a pending and a done job.\<close>

definition sample_queue :: "int mem_queue" where
  "sample_queue = \<lparr>mq_jobs =
     [(''a'', (new_record (sample_job ''a'' ''ka'' 0) (50 * second))\<lparr>mr_status := StatusRunning, mr_leaseUntil := 1000 * second\<rparr>),
      (''b'', new_record (sample_job ''b'' ''kb'' (70 * second)) (60 * second)),
      (''c'', (new_record (sample_job ''c'' ''kc'' 0) (10 * second))\<lparr>mr_status := StatusDone, mr_completedAt := 20 * second,
                mr_price := 17, mr_quoteUpdatedAt := 19 * second\<rparr>)],
     mq_dedup = [''ka'' \<mapsto> ''a'', ''kb'' \<mapsto> ''b'', ''kc'' \<mapsto> ''c'']\<rparr>"

lemmas sample_defs = sample_queue_def sample_job_def sample_world_def new_record_def

lemma sample_queue_invar: "mem_invar sample_queue"
  by (auto simp: mem_invar_def sample_defs mem_record_ok_def split: if_splits)

lemma sample_queue_abs:
  "mem_abs sample_queue = [''a'' \<mapsto> mem_arec (snd (mq_jobs sample_queue ! 0)), ''b'' \<mapsto> mem_arec (snd (mq_jobs sample_queue ! 1)),
     ''c'' \<mapsto> mem_arec (snd (mq_jobs sample_queue ! 2))]"
  by (auto simp: mem_abs_def sample_queue_def fun_eq_iff)

lemma mem_settle_no_io:
  "fst (mem_Complete i p u q w) = Some x \<Longrightarrow> \<not> is_io x"
  "fst (mem_Reschedule i m d q w) = Some x \<Longrightarrow> \<not> is_io x"
  "fst (mem_Fail i m q w) = Some x \<Longrightarrow> \<not> is_io x"
  by (auto simp: mem_Complete_def mem_Reschedule_def mem_Fail_def Let_def split: option.splits if_splits)

text \<open>Complete, Reschedule and Fail in memory refine the abstract queue on every branch: an unknown
  id gives ErrNotFound, a job that is not running gives ErrNotReserved and both leave the queue as it
  was; a running job becomes done with the given price and quote time, pending with one attempt more
  and due after the delay, or failed with the given reason.\<close>

lemma mem_settle_correct:
  fixes q :: "'d::zero mem_queue"
  assumes "mem_invar q"
  shows "(case mem_Complete i p u q w of (e, q', w') \<Rightarrow> mem_invar q' \<and> upd_spec (done_arec (Now w) p u) i (mem_abs q) e (mem_abs q') \<and> (\<forall>x. e = Some x \<longrightarrow> \<not> is_io x))
    \<and> (case mem_Reschedule i m d q w of (e, q', w') \<Rightarrow> mem_invar q' \<and> upd_spec (resched_arec (Now w + d)) i (mem_abs q) e (mem_abs q') \<and> (\<forall>x. e = Some x \<longrightarrow> \<not> is_io x))
    \<and> (case mem_Fail i m q w of (e, q', w') \<Rightarrow> mem_invar q' \<and> upd_spec (fail_arec (Now w) m) i (mem_abs q) e (mem_abs q') \<and> (\<forall>x. e = Some x \<longrightarrow> \<not> is_io x))"
proof (intro conjI)
  obtain e q' w' where c: "mem_Complete i p u q w = (e, q', w')" by (metis prod_cases3)
  from mem_complete_law [OF assms c] mem_settle_no_io(1) [of i p u q w] c
  show "case mem_Complete i p u q w of (e, q', w') \<Rightarrow> mem_invar q' \<and> upd_spec (done_arec (Now w) p u) i (mem_abs q) e (mem_abs q') \<and> (\<forall>x. e = Some x \<longrightarrow> \<not> is_io x)"
    by auto
next
  obtain e q' w' where c: "mem_Reschedule i m d q w = (e, q', w')" by (metis prod_cases3)
  from mem_reschedule_law [OF assms c] mem_settle_no_io(2) [of i m d q w] c
  show "case mem_Reschedule i m d q w of (e, q', w') \<Rightarrow> mem_invar q' \<and> upd_spec (resched_arec (Now w + d)) i (mem_abs q) e (mem_abs q') \<and> (\<forall>x. e = Some x \<longrightarrow> \<not> is_io x)"
    by auto
next
  obtain e q' w' where c: "mem_Fail i m q w = (e, q', w')" by (metis prod_cases3)
  from mem_fail_law [OF assms c] mem_settle_no_io(3) [of i m q w] c
  show "case mem_Fail i m q w of (e, q', w') \<Rightarrow> mem_invar q' \<and> upd_spec (fail_arec (Now w) m) i (mem_abs q) e (mem_abs q') \<and> (\<forall>x. e = Some x \<longrightarrow> \<not> is_io x)"
    by auto
qed

end
