(* ===== verification/Pgqueue.thy ===== *)
theory Pgqueue
  imports Job_Queue Obs
begin

text \<open>
  \<open>internal/queue/pgqueue/pgqueue.go\<close>, the Postgres queue, over the table of
  \<open>migrations/\<close>: a list of rows with the primary key, the partial unique index on
  \<open>dedup_key\<close> and the CHECK constraints of the schema. Each SQL statement of the file is a
  definition. What is not in the repository is a field of \<open>pg_env\<close>: the precision of a
  \<open>TIMESTAMPTZ\<close>, the UUID reader, the text of a \<open>NUMERIC\<close>, \<open>decimal.NewFromString\<close>, the order
  among rows that compare equal and the order of \<open>RETURNING\<close>. A statement may fail, before or
  after it took effect (\<open>db_fault\<close>), and rows may be locked by other sessions (\<open>db_locks\<close>).
  The interpretation \<open>pg\<close> discharges the contract of \<open>job_queue\<close> for every environment. Text is bytes; that a
  \<open>TEXT\<close> parameter with a NUL or with bytes that are no UTF-8 makes the statement fail is one of the faults. The column
  \<open>attempts\<close> is an \<open>INT\<close> of 32 bits and an \<open>int\<close> here: it grows by one with a call of \<open>Reschedule\<close>, and a statement that would
  pass the limit fails, which is a fault as well.
\<close>

section \<open>The table\<close>

record 'd row =
  row_id :: string
  row_base :: string
  row_quote :: string
  row_status :: string
  row_attempts :: int
  row_next_run_at :: time
  row_lease_until :: "time option"
  row_locked_by :: "string option"
  row_dedup_key :: "string option"
  row_created_at :: time
  row_updated_at :: time
  row_completed_at :: "time option"
  row_last_error :: "string option"
  row_source :: string
  row_price :: "'d option"
  row_quote_updated_at :: "time option"

record 'd pgdb =
  db_jobs :: "'d row list"
  db_stmt :: nat
  db_fault :: "nat \<Rightarrow> (string \<times> bool) option"
  db_locks :: "nat \<Rightarrow> string set"

record 'd pg_env =
  pe_ts :: "time \<Rightarrow> time"
  pe_uuid :: "string \<Rightarrow> string option"
  pe_numeric_text :: "'d \<Rightarrow> string"
  pe_NewFromString :: "string \<Rightarrow> 'd option"
  pe_ties :: "'d row list \<Rightarrow> 'd row list"
  pe_returning :: "'d row list \<Rightarrow> 'd row list"

text \<open>\<open>length\<close> of Postgres counts characters: the bytes of UTF-8 text that do not continue one.\<close>

definition char_length :: "string \<Rightarrow> nat" where
  "char_length s = length (filter (\<lambda>c. (of_char c :: nat) div 64 \<noteq> 2) s)"

text \<open>The CHECK constraints \<open>last_error_length\<close>, \<open>no_self_pair\<close>, \<open>quote_jobs_source_check\<close> and
  \<open>done_has_quote\<close>.\<close>

definition row_check :: "'d row \<Rightarrow> bool" where
  "row_check r \<longleftrightarrow>
     (case row_last_error r of None \<Rightarrow> True | Some e \<Rightarrow> char_length e \<le> 4096)
     \<and> row_base r \<noteq> row_quote r
     \<and> (row_source r = ''refresh'' \<or> row_source r = ''scheduler'')
     \<and> (row_status r = ''done'' \<longleftrightarrow> row_price r \<noteq> None \<and> row_quote_updated_at r \<noteq> None)"

section \<open>Statements\<close>

definition next_stmt :: "'d pgdb \<Rightarrow> 'd pgdb" where
  "next_stmt db = db\<lparr>db_stmt := Suc (db_stmt db)\<rparr>"

text \<open>The end of a statement that computed \<open>x\<close> and would leave the rows \<open>rows\<close>.\<close>

definition finish :: "'a \<Rightarrow> 'd row list \<Rightarrow> 'd pgdb \<Rightarrow> (error + 'a) \<times> 'd pgdb" where
  "finish x rows db =
     (case db_fault db (db_stmt db) of
        None \<Rightarrow> (Inr x, (next_stmt db)\<lparr>db_jobs := rows\<rparr>)
      | Some (m, applied) \<Rightarrow> (Inl (IOError m), if applied then (next_stmt db)\<lparr>db_jobs := rows\<rparr> else next_stmt db))"

definition refuse :: "string \<Rightarrow> 'd pgdb \<Rightarrow> (error + 'a) \<times> 'd pgdb" where
  "refuse m db = (Inl (IOError m), next_stmt db)"

definition pg_update :: "('d row \<Rightarrow> bool) \<Rightarrow> ('d row \<Rightarrow> 'd row) \<Rightarrow> 'd pgdb \<Rightarrow> (error + int) \<times> 'd pgdb" where
  "pg_update P f db =
     (if list_all (\<lambda>r. P r \<longrightarrow> row_check (f r)) (db_jobs db)
      then finish (int (length (filter P (db_jobs db)))) (map (\<lambda>r. if P r then f r else r) (db_jobs db)) db
      else refuse ''new row violates check constraint'' db)"

definition new_row :: "'d pg_env \<Rightarrow> time \<Rightarrow> string \<Rightarrow> string \<Rightarrow> string \<Rightarrow> job \<Rightarrow> 'd row" where
  "new_row env now jid base quote j =
     \<lparr>row_id = jid, row_base = base, row_quote = quote, row_status = ''pending'', row_attempts = 0,
      row_next_run_at = pe_ts env (job_NextRunAt j), row_lease_until = None, row_locked_by = None,
      row_dedup_key = (if job_DedupKey j \<noteq> [] then Some (job_DedupKey j) else None),
      row_created_at = pe_ts env now, row_updated_at = pe_ts env now, row_completed_at = None,
      row_last_error = None, row_source = job_Source j, row_price = None, row_quote_updated_at = None\<rparr>"

text \<open>\<open>INSERT \<dots> ON CONFLICT (dedup_key) WHERE dedup_key IS NOT NULL DO NOTHING RETURNING id\<close>:
  \<open>True\<close> when a row came back.\<close>

definition pg_insert :: "'d pg_env \<Rightarrow> time \<Rightarrow> job \<Rightarrow> 'd pgdb \<Rightarrow> (error + bool) \<times> 'd pgdb" where
  "pg_insert env now j db =
     (case (pe_uuid env (job_ID j), bpchar3 (job_Base j), bpchar3 (job_Quote j)) of
        (Some jid, Some base, Some quote) \<Rightarrow>
          let r = new_row env now jid base quote j
          in if \<not> row_check r then refuse ''new row violates check constraint'' db
             else if row_dedup_key r \<noteq> None \<and> list_ex (\<lambda>x. row_dedup_key x = row_dedup_key r) (db_jobs db)
             then finish False (db_jobs db) db
             else if list_ex (\<lambda>x. row_id x = jid) (db_jobs db)
             then refuse ''duplicate key value violates unique constraint quote_jobs_pkey'' db
             else finish True (db_jobs db @ [r]) db
      | _ \<Rightarrow> refuse ''invalid input value'' db)"

section \<open>Operations\<close>

definition pg_Enqueue ::
    "'d pg_env \<Rightarrow> job \<Rightarrow> 'd pgdb \<Rightarrow> world \<Rightarrow> (error + string \<times> bool) \<times> 'd pgdb \<times> world" where
  "pg_Enqueue env j db w =
     (if job_Source j \<noteq> ''refresh'' \<and> job_Source j \<noteq> ''scheduler'' then (Inl ErrInvalidSource, db, w)
      else
        let now = Now w; w1 = tick w
        in case pg_insert env now j db of
             (Inr True, db1) \<Rightarrow> (Inr (job_ID j, True), db1, w1)
           | (Inr False, db1) \<Rightarrow>
               (case finish (find (\<lambda>r. row_dedup_key r = Some (job_DedupKey j)) (db_jobs db1)) (db_jobs db1) db1 of
                  (Inr (Some r), db2) \<Rightarrow>
                    (Inr (row_id r, False), db2, emit (Inc MetricCoalescingCollapsedTotal []) w1)
                | (Inr None, db2) \<Rightarrow> (Inl (Wrapf ''pgqueue enqueue: lookup existing'' ErrNoRows), db2, w1)
                | (Inl e, db2) \<Rightarrow> (Inl (Wrapf ''pgqueue enqueue: lookup existing'' e), db2, w1))
           | (Inl e, db1) \<Rightarrow> (Inl (Wrapf ''pgqueue enqueue'' e), db1, w1))"

definition row_job :: "'d row \<Rightarrow> job" where
  "row_job r = \<lparr>job_ID = row_id r, job_Base = row_base r, job_Quote = row_quote r, job_DedupKey = [],
     job_Attempts = row_attempts r, job_NextRunAt = row_next_run_at r, job_Source = row_source r,
     job_CreatedAt = row_created_at r\<rparr>"

definition pg_selected :: "'d pg_env \<Rightarrow> time \<Rightarrow> nat \<Rightarrow> 'd pgdb \<Rightarrow> 'd row list" where
  "pg_selected env now n db =
     take n (sort_key row_next_run_at
       (filter (\<lambda>r. row_status r = ''pending'' \<and> row_next_run_at r \<le> now \<and> row_id r \<notin> db_locks db (db_stmt db))
          (reorder (pe_ties env) (db_jobs db))))"

definition pg_Reserve ::
    "'d pg_env \<Rightarrow> int \<Rightarrow> duration \<Rightarrow> 'd pgdb \<Rightarrow> world \<Rightarrow> (error + job list) res \<times> 'd pgdb \<times> world" where
  "pg_Reserve env n lease_d db w =
     (let now = pe_ts env (Now w); until = pe_ts env (Now w + lease_d); w1 = tick w
      in if n < 0 then (Ok (Inl (Wrapf ''pgqueue reserve'' (IOError ''LIMIT must not be negative''))), next_stmt db, w1)
         else
           let sel = pg_selected env now (nat n) db;
               rows = map (\<lambda>r. if row_id r \<in> row_id ` set sel
                         then r\<lparr>row_status := ''running'', row_lease_until := Some until, row_updated_at := now\<rparr> else r)
                      (db_jobs db)
           in case finish (map row_job (reorder (pe_returning env) sel)) rows db of
                (Inr js, db1) \<Rightarrow> (Ok (Inr js), db1, w1)
              | (Inl e, db1) \<Rightarrow> (Ok (Inl (Wrapf ''pgqueue reserve'' e)), db1, w1))"

definition probeNotFoundOrNotReserved ::
    "'d pg_env \<Rightarrow> string \<Rightarrow> string \<Rightarrow> 'd pgdb \<Rightarrow> error option \<times> 'd pgdb" where
  "probeNotFoundOrNotReserved env i op db =
     (case finish (list_ex (\<lambda>r. pe_uuid env i = Some (row_id r)) (db_jobs db)) (db_jobs db) db of
        (Inl e, db1) \<Rightarrow> (Some (Wrapf (op @ '': probe'') e), db1)
      | (Inr ex, db1) \<Rightarrow> (Some (Wrapf op (if \<not> ex then ErrNotFound else ErrNotReserved)), db1))"

text \<open>\<open>UPDATE \<dots> WHERE id = $1 AND status = 'running'\<close>, the rows-affected test and the probe,
  common to \<open>Complete\<close>, \<open>Reschedule\<close> and \<open>Fail\<close>. An id that is no UUID is refused by the
  driver before the statement runs.\<close>

definition pg_update_running ::
    "'d pg_env \<Rightarrow> string \<Rightarrow> string \<Rightarrow> ('d row \<Rightarrow> 'd row) \<Rightarrow> 'd pgdb \<Rightarrow> error option \<times> 'd pgdb" where
  "pg_update_running env op i f db =
     (if pe_uuid env i = None then (Some (Wrapf op (IOError ''invalid input value'')), db)
      else case pg_update (\<lambda>r. pe_uuid env i = Some (row_id r) \<and> row_status r = ''running'') f db of
        (Inl e, db1) \<Rightarrow> (Some (Wrapf op e), db1)
      | (Inr n, db1) \<Rightarrow> if n = 1 then (None, db1) else probeNotFoundOrNotReserved env i op db1)"

definition pg_Complete ::
    "'d pg_env \<Rightarrow> string \<Rightarrow> 'd \<Rightarrow> time \<Rightarrow> 'd pgdb \<Rightarrow> world \<Rightarrow> error option \<times> 'd pgdb \<times> world" where
  "pg_Complete env i price quoteUpdatedAt db w =
     (let now = pe_ts env (Now w)
      in case pg_update_running env ''pgqueue complete'' i
           (\<lambda>r. r\<lparr>row_status := ''done'', row_completed_at := Some now, row_updated_at := now, row_price := Some price,
                  row_quote_updated_at := Some (pe_ts env quoteUpdatedAt)\<rparr>) db of
         (e, db1) \<Rightarrow> (e, db1, tick w))"

definition pg_Reschedule ::
    "'d pg_env \<Rightarrow> string \<Rightarrow> string \<Rightarrow> duration \<Rightarrow> 'd pgdb \<Rightarrow> world \<Rightarrow> error option \<times> 'd pgdb \<times> world" where
  "pg_Reschedule env i reason after db w =
     (case pg_update_running env ''pgqueue reschedule'' i
         (\<lambda>r. r\<lparr>row_status := ''pending'', row_next_run_at := pe_ts env (Now w + after),
                row_attempts := row_attempts r + 1, row_last_error := Some reason,
                row_updated_at := pe_ts env (Now w), row_lease_until := None\<rparr>) db of
       (e, db1) \<Rightarrow> (e, db1, tick w))"

definition pg_Fail :: "'d pg_env \<Rightarrow> string \<Rightarrow> string \<Rightarrow> 'd pgdb \<Rightarrow> world \<Rightarrow> error option \<times> 'd pgdb \<times> world" where
  "pg_Fail env i reason db w =
     (let now = pe_ts env (Now w)
      in case pg_update_running env ''pgqueue fail'' i
           (\<lambda>r. r\<lparr>row_status := ''failed'', row_last_error := Some reason, row_updated_at := now,
                  row_completed_at := Some now\<rparr>) db of
         (e, db1) \<Rightarrow> (e, db1, tick w))"

definition pg_view :: "'d pg_env \<Rightarrow> string \<Rightarrow> 'd row \<Rightarrow> error + 'd job_view" where
  "pg_view env i r =
     (let v = \<lparr>jv_ID = i, jv_Base = row_base r, jv_Quote = row_quote r, jv_Status = row_status r,
               jv_Attempts = row_attempts r, jv_CreatedAt = row_created_at r, jv_CompletedAt = row_completed_at r,
               jv_Price = None, jv_QuoteUpdatedAt = row_quote_updated_at r,
               jv_LastError = (case row_last_error r of None \<Rightarrow> [] | Some e \<Rightarrow> e)\<rparr>
      in case row_price r of
           None \<Rightarrow> Inr v
         | Some p \<Rightarrow>
             (case pe_NewFromString env (pe_numeric_text env p) of
                None \<Rightarrow> Inl (Wrapf ''pgqueue get by id: parse price'' (IOError ''cannot convert to decimal''))
              | Some d \<Rightarrow> Inr (v\<lparr>jv_Price := Some d\<rparr>)))"

definition pg_GetByID ::
    "'d pg_env \<Rightarrow> string \<Rightarrow> 'd pgdb \<Rightarrow> world \<Rightarrow> (error + 'd job_view) \<times> 'd pgdb \<times> world" where
  "pg_GetByID env i db w =
     (case (if pe_uuid env i = None then refuse ''invalid input value'' db
            else finish (find (\<lambda>r. pe_uuid env i = Some (row_id r)) (db_jobs db)) (db_jobs db) db) of
        (Inr None, db1) \<Rightarrow> (Inl ErrNotFound, db1, w)
      | (Inr (Some r), db1) \<Rightarrow> (pg_view env i r, db1, w)
      | (Inl e, db1) \<Rightarrow> (Inl (Wrapf ''pgqueue get by id'' e), db1, w))"

definition pg_RecoverExpired :: "'d pg_env \<Rightarrow> 'd pgdb \<Rightarrow> world \<Rightarrow> (error + int) \<times> 'd pgdb \<times> world" where
  "pg_RecoverExpired env db w =
     (let now = pe_ts env (Now w)
      in case pg_update (\<lambda>r. row_status r = ''running'' \<and> (case row_lease_until r of None \<Rightarrow> False | Some l \<Rightarrow> l < now))
           (\<lambda>r. r\<lparr>row_status := ''pending'', row_lease_until := None, row_locked_by := None, row_updated_at := now\<rparr>) db of
         (Inr n, db1) \<Rightarrow> (Inr n, db1, tick w)
       | (Inl e, db1) \<Rightarrow> (Inl (Wrapf ''pgqueue recover expired'' e), db1, tick w))"

definition pg_ops :: "'d pg_env \<Rightarrow> ('d pgdb, 'd) queue_ops" where
  "pg_ops env = \<lparr>Enqueue = pg_Enqueue env, Reserve = pg_Reserve env, Complete = pg_Complete env,
     Reschedule = pg_Reschedule env, Fail = pg_Fail env, GetByID = pg_GetByID env,
     RecoverExpired = pg_RecoverExpired env\<rparr>"

declare pg_ops_def [op_defs]

section \<open>Abstraction and invariant\<close>

definition tbl :: "'d row list \<Rightarrow> string \<rightharpoonup> 'd row" where
  "tbl rows = map_of (map (\<lambda>r. (row_id r, r)) rows)"

definition row_state :: "'d row \<Rightarrow> 'd jstate" where
  "row_state r =
     (if row_status r = ''pending'' then Pending
      else if row_status r = ''running'' then Running (the (row_lease_until r))
      else if row_status r = ''done''
        then Done (the (row_completed_at r)) (the (row_price r)) (the (row_quote_updated_at r))
      else Failed (the (row_completed_at r)) (the (row_last_error r)))"

definition row_arec :: "'d row \<Rightarrow> 'd arec" where
  "row_arec r = \<lparr>ar_base = row_base r, ar_quote = row_quote r, ar_source = row_source r,
     ar_dedup = (case row_dedup_key r of None \<Rightarrow> [] | Some k \<Rightarrow> k), ar_attempts = row_attempts r,
     ar_next = row_next_run_at r, ar_created = row_created_at r, ar_state = row_state r\<rparr>"

definition row_ok :: "'d row \<Rightarrow> bool" where
  "row_ok r \<longleftrightarrow> row_check r
     \<and> (row_status r = ''pending'' \<or> row_status r = ''running'' \<or> row_status r = ''done'' \<or> row_status r = ''failed'')
     \<and> (row_status r = ''running'' \<longrightarrow> row_lease_until r \<noteq> None)
     \<and> (row_status r = ''pending'' \<or> row_status r = ''running'' \<longleftrightarrow> row_completed_at r = None)
     \<and> (row_status r = ''failed'' \<longrightarrow> row_last_error r \<noteq> None)
     \<and> (row_status r \<noteq> ''done'' \<longrightarrow> row_price r = None \<and> row_quote_updated_at r = None)
     \<and> row_dedup_key r \<noteq> Some []"

definition tbl_invar :: "'d row list \<Rightarrow> bool" where
  "tbl_invar rows \<longleftrightarrow> distinct (map row_id rows) \<and> (\<forall>r \<in> set rows. row_ok r)
     \<and> (\<forall>r \<in> set rows. \<forall>x \<in> set rows. row_dedup_key r = row_dedup_key x \<and> row_dedup_key r \<noteq> None \<longrightarrow> row_id r = row_id x)"

definition tbl_abs :: "'d row list \<Rightarrow> 'd aqueue" where
  "tbl_abs rows = (\<lambda>i. map_option row_arec (tbl rows i))"

definition pg_abs :: "'d pgdb \<Rightarrow> 'd aqueue" where "pg_abs db = tbl_abs (db_jobs db)"
definition pg_invar :: "'d pgdb \<Rightarrow> bool" where "pg_invar db = tbl_invar (db_jobs db)"
definition pg_quiet :: "'d pgdb \<Rightarrow> bool" where "pg_quiet db \<longleftrightarrow> (\<forall>n. db_fault db n = None)"
definition pg_skipped :: "'d pgdb \<Rightarrow> string set" where "pg_skipped db = db_locks db (db_stmt db)"

definition pg_ok_job :: "'d pg_env \<Rightarrow> job \<Rightarrow> bool" where
  "pg_ok_job env j \<longleftrightarrow> pe_uuid env (job_ID j) = Some (job_ID j) \<and> length (job_Base j) = 3 \<and> length (job_Quote j) = 3
     \<and> job_Base j \<noteq> job_Quote j"

definition pg_ok_reason :: "string \<Rightarrow> bool" where "pg_ok_reason m \<longleftrightarrow> char_length m \<le> 4096"

lemma pg_ok_reasonI: "length m \<le> 4096 \<Longrightarrow> pg_ok_reason m"
  unfolding pg_ok_reason_def char_length_def by (rule le_trans [OF length_filter_le])

lemmas pg_abs_invar = pg_abs_def pg_invar_def

lemma row_arec_sel [simp]:
  "ar_base (row_arec r) = row_base r" "ar_quote (row_arec r) = row_quote r" "ar_source (row_arec r) = row_source r"
  "ar_attempts (row_arec r) = row_attempts r" "ar_next (row_arec r) = row_next_run_at r"
  "ar_created (row_arec r) = row_created_at r" "ar_state (row_arec r) = row_state r"
  "ar_dedup (row_arec r) = (case row_dedup_key r of None \<Rightarrow> [] | Some k \<Rightarrow> k)"
  by (simp_all add: row_arec_def)

lemma is_running_row [simp]: "is_running (row_state r) \<longleftrightarrow> row_status r = ''running''"
  by (auto simp: row_state_def)

lemma row_state_Pending [simp]: "row_state r = Pending \<longleftrightarrow> row_status r = ''pending''"
  by (auto simp: row_state_def)

lemma status_name_row: "row_ok r \<Longrightarrow> status_name (row_state r) = row_status r"
  by (auto simp: row_state_def row_ok_def)

lemma tbl_Nil [simp]: "tbl [] i = None"
  by (simp add: tbl_def)

lemma tbl_Cons [simp]: "tbl (r # rows) i = (if row_id r = i then Some r else tbl rows i)"
  by (simp add: tbl_def)

lemma tbl_map: "(\<And>r. row_id (g r) = row_id r) \<Longrightarrow> tbl (map g rows) i = map_option g (tbl rows i)"
  by (induction rows) auto

lemma tbl_mem: "tbl rows i = Some r \<Longrightarrow> r \<in> set rows \<and> row_id r = i"
  by (induction rows) (auto split: if_splits)

lemma tbl_None: "tbl rows i = None \<longleftrightarrow> i \<notin> row_id ` set rows"
  by (induction rows) auto

lemma tbl_Some: "distinct (map row_id rows) \<Longrightarrow> tbl rows i = Some r \<longleftrightarrow> r \<in> set rows \<and> row_id r = i"
  by (induction rows) (auto dest: tbl_mem)

lemma tbl_snoc: "row_id r \<notin> row_id ` set rows \<Longrightarrow> tbl (rows @ [r]) = (tbl rows)(row_id r \<mapsto> r)"
  by (induction rows) (auto simp: fun_eq_iff)

lemma tbl_find: "find (\<lambda>r. i = row_id r) rows = tbl rows i"
  by (induction rows) auto

lemma count_by_id:
  "distinct (map row_id rows) \<Longrightarrow>
     length (filter (\<lambda>r. i = row_id r \<and> Q r) rows) = (case tbl rows i of None \<Rightarrow> 0 | Some r \<Rightarrow> if Q r then 1 else 0)"
proof (induction rows)
  case (Cons x rows)
  then show ?case
    by (cases "row_id x = i") (auto simp: filter_empty_conv tbl_None [symmetric] split: option.splits dest: tbl_mem)
qed simp

lemma row_okD: "tbl_invar rows \<Longrightarrow> tbl rows i = Some r \<Longrightarrow> row_ok r"
  by (auto simp: tbl_invar_def dest: tbl_mem)

text \<open>Rewriting rows in place keeps the invariant when ids and keys stay and each row stays
  well formed.\<close>

lemma tbl_invar_map:
  assumes "tbl_invar rows" and "\<And>r. row_id (g r) = row_id r" and "\<And>r. row_dedup_key (g r) = row_dedup_key r"
    and "\<And>r. r \<in> set rows \<Longrightarrow> row_ok (g r)"
  shows "tbl_invar (map g rows)"
proof -
  have "row_id \<circ> g = row_id" using assms(2) by (simp add: fun_eq_iff)
  then show ?thesis using assms unfolding tbl_invar_def by (simp add: ball_simps) blast
qed

section \<open>Statements and the abstract queue\<close>

lemma finish_cases:
  assumes "finish x rows db = (out, db')"
  obtains (fine) "out = Inr x" "db_jobs db' = rows" "db_fault db (db_stmt db) = None"
      "db_fault db' = db_fault db" "db_locks db' = db_locks db"
  | (lost) m where "out = Inl (IOError m)" "db_jobs db' = rows \<or> db_jobs db' = db_jobs db" "\<not> pg_quiet db"
      "db_fault db' = db_fault db" "db_locks db' = db_locks db"
proof (cases "db_fault db (db_stmt db)")
  case None
  with assms show thesis by (intro fine) (auto simp: finish_def next_stmt_def)
next
  case (Some a)
  obtain m applied where a: "a = (m, applied)" by (cases a)
  have "\<not> pg_quiet db" using Some unfolding pg_quiet_def by (metis option.distinct(1))
  with assms Some a show thesis by (intro lost) (auto simp: finish_def next_stmt_def split: if_splits)
qed

lemma finish_frame: "finish x rows db = (out, db') \<Longrightarrow> db_fault db' = db_fault db"
  by (erule finish_cases) simp_all

lemma pg_quiet_eq: "db_fault db' = db_fault db \<Longrightarrow> pg_quiet db' = pg_quiet db"
  by (simp add: pg_quiet_def)

lemma probe_law:
  assumes "probeNotFoundOrNotReserved env i op db = (e, db')" and "pe_uuid env i = Some i"
    and "\<And>r. tbl (db_jobs db) i = Some r \<Longrightarrow> row_status r \<noteq> ''running''"
  shows "db_jobs db' = db_jobs db \<and> upd_spec F i (pg_abs db) e (pg_abs db') \<and> db_fault db' = db_fault db
    \<and> (pg_quiet db \<longrightarrow> (\<forall>x. e = Some x \<longrightarrow> \<not> is_io x))"
proof -
  let ?ex = "list_ex (\<lambda>r. pe_uuid env i = Some (row_id r)) (db_jobs db)"
  have ex: "?ex \<longleftrightarrow> tbl (db_jobs db) i \<noteq> None"
    using assms(2) by (auto simp: list_ex_iff tbl_None)
  obtain out db1 where f: "finish ?ex (db_jobs db) db = (out, db1)" by force
  from f show ?thesis
  proof (cases rule: finish_cases)
    case fine
    with assms(1) f have "e = Some (Wrapf op (if \<not> ?ex then ErrNotFound else ErrNotReserved))" "db' = db1"
      by (auto simp: probeNotFoundOrNotReserved_def)
    with fine ex assms(3) show ?thesis
      by (cases "tbl (db_jobs db) i") (auto simp: upd_spec_def pg_abs_def tbl_abs_def)
  next
    case (lost m)
    with assms(1) f show ?thesis
      by (auto simp: probeNotFoundOrNotReserved_def upd_spec_def pg_abs_def)
  qed
qed

text \<open>Updating the running row of one id, seen in the abstract queue.\<close>

lemma update_row_miss:
  assumes "\<And>r. row_id (f r) = row_id r" and "\<And>r. tbl rows i = Some r \<Longrightarrow> row_status r \<noteq> ''running''"
  shows "tbl_abs (map (\<lambda>r. if i = row_id r \<and> row_status r = ''running'' then f r else r) rows) = tbl_abs rows"
proof -
  let ?g = "\<lambda>r. if i = row_id r \<and> row_status r = ''running'' then f r else r"
  have look: "tbl (map ?g rows) k = map_option ?g (tbl rows k)" for k using tbl_map [of ?g] assms(1) by simp
  have "map_option row_arec (map_option ?g (tbl rows k)) = map_option row_arec (tbl rows k)" for k
    using assms(2) by (cases "tbl rows k") (auto dest: tbl_mem)
  then show ?thesis unfolding tbl_abs_def look by simp
qed

lemma update_row_hit:
  assumes "\<And>r. row_id (f r) = row_id r" and "tbl rows i = Some r" and "row_status r = ''running''"
  shows "tbl_abs (map (\<lambda>r. if i = row_id r \<and> row_status r = ''running'' then f r else r) rows) = (tbl_abs rows)(i \<mapsto> row_arec (f r))"
proof -
  let ?g = "\<lambda>r. if i = row_id r \<and> row_status r = ''running'' then f r else r"
  have look: "tbl (map ?g rows) k = map_option ?g (tbl rows k)" for k using tbl_map [of ?g] assms(1) by simp
  have "map_option row_arec (map_option ?g (tbl rows k)) = ((\<lambda>i. map_option row_arec (tbl rows i))(i \<mapsto> row_arec (f r))) k" for k
    using assms(2,3) by (cases "tbl rows k") (auto dest: tbl_mem)
  then show ?thesis unfolding tbl_abs_def look by auto
qed

lemma updated_rows:
  assumes ti: "tbl_invar rows" and keep': "\<forall>r. row_id (f r) = row_id r \<and> row_dedup_key (f r) = row_dedup_key r"
    and good: "\<forall>r. row_ok r \<and> row_status r = ''running'' \<and> row_check (f r) \<longrightarrow> row_ok (f r) \<and> row_arec (f r) = F (row_arec r)"
    and chk: "list_all (\<lambda>r. i = row_id r \<and> row_status r = ''running'' \<longrightarrow> row_check (f r)) rows"
  defines "n \<equiv> length (filter (\<lambda>r. i = row_id r \<and> row_status r = ''running'') rows)"
    and "rows' \<equiv> map (\<lambda>r. if i = row_id r \<and> row_status r = ''running'' then f r else r) rows"
  obtains (hit) r where "tbl_invar rows'" "n = 1" "tbl_abs rows i = Some r" "is_running (ar_state r)" "tbl_abs rows' = (tbl_abs rows)(i \<mapsto> F r)"
  | (miss) "tbl_invar rows'" "n = 0" "tbl_abs rows' = tbl_abs rows" "\<And>x. tbl rows' i = Some x \<Longrightarrow> row_status x \<noteq> ''running''"
proof -
  let ?g = "\<lambda>r. if i = row_id r \<and> row_status r = ''running'' then f r else r"
  have keep: "row_id (f r) = row_id r" "row_dedup_key (f r) = row_dedup_key r" for r using keep' by simp_all
  have "row_ok (?g r)" if "r \<in> set rows" for r using that ti chk good by (auto simp: tbl_invar_def list_all_iff)
  then have inv: "tbl_invar rows'" unfolding rows'_def using tbl_invar_map [OF ti, of ?g] keep by simp
  have n: "n = (case tbl rows i of None \<Rightarrow> 0 | Some r \<Rightarrow> if row_status r = ''running'' then 1 else 0)"
    unfolding n_def by (rule count_by_id) (use ti in \<open>simp add: tbl_invar_def\<close>)
  show thesis
  proof (cases "\<exists>r. tbl rows i = Some r \<and> row_status r = ''running''")
    case True
    then obtain r where r: "tbl rows i = Some r" "row_status r = ''running''" by blast
    have "row_arec (f r) = F (row_arec r)" using chk r good row_okD [OF ti r(1)] tbl_mem [OF r(1)] by (auto simp: list_all_iff)
    then have "tbl_abs rows' = (tbl_abs rows)(i \<mapsto> F (row_arec r))" using update_row_hit [of f, OF keep(1) r] by (simp add: rows'_def)
    then show thesis using inv n r by (intro hit [of "row_arec r"]) (auto simp: tbl_abs_def)
  next
    case False
    have "row_status x \<noteq> ''running''" if "tbl rows' i = Some x" for x
      using that False tbl_map [of ?g rows i] keep(1) by (auto simp: rows'_def dest: tbl_mem)
    then show thesis using inv n False update_row_miss [of f, OF keep(1), of rows i] by (intro miss) (auto simp: rows'_def split: option.splits)
  qed
qed

text \<open>One statement serves \<open>Complete\<close>, \<open>Reschedule\<close> and \<open>Fail\<close>.\<close>

lemma pg_update_running_law:
  assumes inv: "pg_invar db" and uu: "pe_uuid env i = Some i"
    and upd: "pg_update_running env op i f db = (e, db')"
    and keep: "\<And>r. row_id (f r) = row_id r" "\<And>r. row_dedup_key (f r) = row_dedup_key r"
    and good: "\<And>r. row_ok r \<Longrightarrow> row_status r = ''running'' \<Longrightarrow> row_check (f r) \<Longrightarrow> row_ok (f r) \<and> row_arec (f r) = F (row_arec r)"
  shows "pg_invar db' \<and> upd_spec F i (pg_abs db) e (pg_abs db') \<and> db_fault db' = db_fault db
    \<and> (pg_quiet db \<and> (\<forall>r. row_ok r \<and> row_status r = ''running'' \<longrightarrow> row_check (f r)) \<longrightarrow> (\<forall>x. e = Some x \<longrightarrow> \<not> is_io x))"
proof -
  let ?rows = "db_jobs db" and ?P = "\<lambda>r. i = row_id r \<and> row_status r = ''running''"
  let ?rows' = "map (\<lambda>r. if ?P r then f r else r) ?rows"
  have ti: "tbl_invar ?rows" using inv by (simp add: pg_invar_def)
  have P: "(\<lambda>r. pe_uuid env i = Some (row_id r) \<and> row_status r = ''running'') = ?P" using uu by auto
  show ?thesis
  proof (cases "list_all (\<lambda>r. ?P r \<longrightarrow> row_check (f r)) ?rows")
    case False
    then have "e = Some (Wrapf op (IOError ''new row violates check constraint''))" "db' = next_stmt db"
      using upd uu by (auto simp: pg_update_running_def pg_update_def P refuse_def)
    moreover have "\<exists>r. row_ok r \<and> row_status r = ''running'' \<and> \<not> row_check (f r)"
      using False ti by (auto simp: list_all_iff tbl_invar_def)
    ultimately show ?thesis
      using inv by (auto simp: next_stmt_def pg_abs_def pg_invar_def upd_spec_def)
  next
    case chk: True
    obtain out db1 where f: "finish (int (length (filter ?P ?rows))) ?rows' db = (out, db1)" by force
    have upd': "(e, db') = (case out of Inl x \<Rightarrow> (Some (Wrapf op x), db1)
        | Inr n \<Rightarrow> if n = 1 then (None, db1) else probeNotFoundOrNotReserved env i op db1)"
      using upd uu f chk by (simp add: pg_update_running_def pg_update_def P split: sum.splits)
    have "\<forall>r. row_id (f r) = row_id r \<and> row_dedup_key (f r) = row_dedup_key r"
      "\<forall>r. row_ok r \<and> row_status r = ''running'' \<and> row_check (f r) \<longrightarrow> row_ok (f r) \<and> row_arec (f r) = F (row_arec r)"
      using keep good by simp_all
    note rows = updated_rows [OF ti this chk]
    from f show ?thesis
    proof (cases rule: finish_cases)
      case fine
      show ?thesis
      proof (cases rule: rows)
        case (1 r)
        then show ?thesis using upd' fine by (auto simp: pg_invar_def pg_abs_def upd_spec_def)
      next
        case 2
        then have "probeNotFoundOrNotReserved env i op db1 = (e, db')" using upd' fine by simp
        from probe_law [OF this uu, of F] 2 fine pg_quiet_eq [of db1 db] show ?thesis by (auto simp: pg_invar_def pg_abs_def)
      qed
    next
      case (lost m)
      then have e: "e = Some (Wrapf op (IOError m))" "db' = db1" using upd' by auto
      show ?thesis
        by (cases rule: rows) (use e lost inv in \<open>auto simp: upd_spec_def pg_invar_def pg_abs_def\<close>)
    qed
  qed
qed

lemmas row_upd_defs = row_ok_def row_check_def row_arec_def row_state_def done_arec_def resched_arec_def fail_arec_def

lemma pg_complete_law:
  fixes db :: "'d pgdb"
  assumes "pg_invar db" and "pe_uuid env i = Some i" and "pg_Complete env i p u db w = (e, db', w')"
  shows "pg_invar db' \<and> same_oracles w w' \<and> upd_spec (done_arec (pe_ts env (Now w)) p (pe_ts env u)) i (pg_abs db) e (pg_abs db')
    \<and> (pg_quiet db \<longrightarrow> pg_quiet db' \<and> (\<forall>x. e = Some x \<longrightarrow> \<not> is_io x))"
proof -
  let ?f = "\<lambda>r :: 'd row. r\<lparr>row_status := ''done'', row_completed_at := Some (pe_ts env (Now w)), row_updated_at := pe_ts env (Now w),
    row_price := Some p, row_quote_updated_at := Some (pe_ts env u)\<rparr>"
  have u: "pg_update_running env ''pgqueue complete'' i ?f db = (e, db')" and w': "w' = tick w"
    using assms(3) by (auto simp: pg_Complete_def Let_def split: prod.splits)
  have ok: "row_check (?f r)" if "row_ok r" for r
    using that by (auto simp: row_ok_def row_check_def split: option.splits)
  have good: "row_ok (?f r) \<and> row_arec (?f r) = done_arec (pe_ts env (Now w)) p (pe_ts env u) (row_arec r)" if "row_ok r" for r
    using that ok [OF that] by (auto simp: row_upd_defs)
  have "pg_invar db' \<and> upd_spec (done_arec (pe_ts env (Now w)) p (pe_ts env u)) i (pg_abs db) e (pg_abs db') \<and> db_fault db' = db_fault db
      \<and> (pg_quiet db \<and> (\<forall>r. row_ok r \<and> row_status r = ''running'' \<longrightarrow> row_check (?f r)) \<longrightarrow> (\<forall>x. e = Some x \<longrightarrow> \<not> is_io x))"
    by (rule pg_update_running_law [OF assms(1,2) u]) (use good in simp_all)
  with w' ok pg_quiet_eq [of db' db] show ?thesis by simp
qed

lemma pg_reschedule_law:
  fixes db :: "'d pgdb"
  assumes "pg_invar db" and "pe_uuid env i = Some i" and "pg_Reschedule env i m d db w = (e, db', w')"
  shows "pg_invar db' \<and> same_oracles w w' \<and> upd_spec (resched_arec (pe_ts env (Now w + d))) i (pg_abs db) e (pg_abs db')
    \<and> (pg_quiet db \<and> pg_ok_reason m \<longrightarrow> pg_quiet db' \<and> (\<forall>x. e = Some x \<longrightarrow> \<not> is_io x))"
proof -
  let ?f = "\<lambda>r :: 'd row. r\<lparr>row_status := ''pending'', row_next_run_at := pe_ts env (Now w + d),
    row_attempts := row_attempts r + 1, row_last_error := Some m, row_updated_at := pe_ts env (Now w), row_lease_until := None\<rparr>"
  have u: "pg_update_running env ''pgqueue reschedule'' i ?f db = (e, db')" and w': "w' = tick w"
    using assms(3) by (auto simp: pg_Reschedule_def split: prod.splits)
  have ok: "row_check (?f r)" if "row_ok r" "row_status r = ''running''" "pg_ok_reason m" for r
    using that by (auto simp: row_ok_def row_check_def pg_ok_reason_def)
  have good: "row_ok (?f r) \<and> row_arec (?f r) = resched_arec (pe_ts env (Now w + d)) (row_arec r)"
    if "row_ok r" "row_status r = ''running''" "row_check (?f r)" for r
    using that by (auto simp: row_upd_defs)
  have "pg_invar db' \<and> upd_spec (resched_arec (pe_ts env (Now w + d))) i (pg_abs db) e (pg_abs db') \<and> db_fault db' = db_fault db
      \<and> (pg_quiet db \<and> (\<forall>r. row_ok r \<and> row_status r = ''running'' \<longrightarrow> row_check (?f r)) \<longrightarrow> (\<forall>x. e = Some x \<longrightarrow> \<not> is_io x))"
    by (rule pg_update_running_law [OF assms(1,2) u]) (use good in simp_all)
  with w' ok pg_quiet_eq [of db' db] show ?thesis by simp
qed

lemma pg_fail_law:
  fixes db :: "'d pgdb"
  assumes "pg_invar db" and "pe_uuid env i = Some i" and "pg_Fail env i m db w = (e, db', w')"
  shows "pg_invar db' \<and> same_oracles w w' \<and> upd_spec (fail_arec (pe_ts env (Now w)) m) i (pg_abs db) e (pg_abs db')
    \<and> (pg_quiet db \<and> pg_ok_reason m \<longrightarrow> pg_quiet db' \<and> (\<forall>x. e = Some x \<longrightarrow> \<not> is_io x))"
proof -
  let ?f = "\<lambda>r :: 'd row. r\<lparr>row_status := ''failed'', row_last_error := Some m, row_updated_at := pe_ts env (Now w),
    row_completed_at := Some (pe_ts env (Now w))\<rparr>"
  have u: "pg_update_running env ''pgqueue fail'' i ?f db = (e, db')" and w': "w' = tick w"
    using assms(3) by (auto simp: pg_Fail_def Let_def split: prod.splits)
  have ok: "row_check (?f r)" if "row_ok r" "row_status r = ''running''" "pg_ok_reason m" for r
    using that by (auto simp: row_ok_def row_check_def pg_ok_reason_def)
  have good: "row_ok (?f r) \<and> row_arec (?f r) = fail_arec (pe_ts env (Now w)) m (row_arec r)"
    if "row_ok r" "row_status r = ''running''" "row_check (?f r)" for r
    using that by (auto simp: row_upd_defs)
  have "pg_invar db' \<and> upd_spec (fail_arec (pe_ts env (Now w)) m) i (pg_abs db) e (pg_abs db') \<and> db_fault db' = db_fault db
      \<and> (pg_quiet db \<and> (\<forall>r. row_ok r \<and> row_status r = ''running'' \<longrightarrow> row_check (?f r)) \<longrightarrow> (\<forall>x. e = Some x \<longrightarrow> \<not> is_io x))"
    by (rule pg_update_running_law [OF assms(1,2) u]) (use good in simp_all)
  with w' ok pg_quiet_eq [of db' db] show ?thesis by simp
qed

definition pg_readback :: "'d pg_env \<Rightarrow> 'd \<Rightarrow> 'd" where
  "pg_readback env p = (case pe_NewFromString env (pe_numeric_text env p) of None \<Rightarrow> p | Some d \<Rightarrow> d)"

lemma pg_view_law:
  assumes "row_ok r" and "pg_view env i r = out"
  shows "case out of Inr v \<Rightarrow> view_matches (pg_readback env) i (row_arec r) v | Inl e \<Rightarrow> is_io e"
proof (cases "row_price r")
  case None
  then have "row_status r \<noteq> ''done''" using assms(1) by (auto simp: row_ok_def row_check_def)
  with None assms show ?thesis
    by (auto simp: pg_view_def view_matches_def row_ok_def row_state_def IsZero_def Let_def split: if_splits)
next
  case (Some p)
  then have "row_status r = ''done''" "row_completed_at r \<noteq> None" "row_quote_updated_at r \<noteq> None"
    using assms(1) by (auto simp: row_ok_def row_check_def)
  with Some assms show ?thesis
    by (cases "pe_NewFromString env (pe_numeric_text env p)")
      (auto simp: pg_view_def view_matches_def row_state_def pg_readback_def Let_def)
qed

lemma pg_get_law:
  assumes inv: "pg_invar db" and uu: "pe_uuid env i = Some i" and get: "pg_GetByID env i db w = (out, db', w')"
  shows "pg_invar db' \<and> same_oracles w w' \<and> pg_abs db' = pg_abs db \<and> view_spec (pg_readback env) i (pg_abs db) out"
proof -
  obtain o1 db1 where f: "finish (tbl (db_jobs db) i) (db_jobs db) db = (o1, db1)" by force
  from f show ?thesis
  proof (cases rule: finish_cases)
    case fine
    show ?thesis
    proof (cases "tbl (db_jobs db) i")
      case None
      with fine f get uu inv show ?thesis
        by (auto simp: pg_GetByID_def tbl_find view_spec_def pg_abs_invar tbl_abs_def)
    next
      case (Some r)
      with fine f get uu have *: "out = pg_view env i r" "db' = db1" "w' = w"
        by (auto simp: pg_GetByID_def tbl_find)
      have "row_ok r" using inv Some by (auto simp: pg_invar_def intro: row_okD)
      from pg_view_law [OF this *(1) [symmetric]] have "view_spec (pg_readback env) i (pg_abs db) out"
        using Some by (cases out) (simp_all add: view_spec_def pg_abs_def tbl_abs_def)
      with * fine inv show ?thesis by (simp add: pg_abs_invar)
    qed
  next
    case (lost m)
    with f get uu inv show ?thesis
      by (auto simp: pg_GetByID_def tbl_find view_spec_def pg_abs_invar)
  qed
qed

section \<open>Enqueue\<close>

lemma row_ok_new: "row_check (new_row env now jid base quote j) \<Longrightarrow> row_ok (new_row env now jid base quote j)"
  by (auto simp: row_ok_def new_row_def)

lemma row_arec_new:
  "row_arec (new_row env now jid (job_Base j) (job_Quote j) j) = new_arec (pe_ts env now) (pe_ts env (job_NextRunAt j)) j"
  by (simp add: row_arec_def new_row_def new_arec_def row_state_def)

lemma tbl_invar_snoc:
  assumes "tbl_invar rows" and "row_ok r" and "row_id r \<notin> row_id ` set rows"
    and "row_dedup_key r = None \<or> row_dedup_key r \<notin> row_dedup_key ` set rows"
  shows "tbl_invar (rows @ [r])"
proof -
  have "row_id x = row_id y"
    if "x \<in> set (rows @ [r])" "y \<in> set (rows @ [r])" "row_dedup_key x = row_dedup_key y" "row_dedup_key x \<noteq> None" for x y
  proof (cases "x = r \<or> y = r")
    case True
    then have "x = r \<and> y = r" using that assms(4) by (force simp: image_iff)
    then show ?thesis by simp
  next
    case False
    then have "x \<in> set rows" "y \<in> set rows" using that by auto
    then show ?thesis using that(3,4) assms(1) unfolding tbl_invar_def by blast
  qed
  moreover have "distinct (map row_id (rows @ [r]))" "\<forall>x \<in> set (rows @ [r]). row_ok x"
    using assms by (auto simp: tbl_invar_def)
  ultimately show ?thesis unfolding tbl_invar_def by blast
qed

lemma tbl_abs_snoc: "row_id r \<notin> row_id ` set rows \<Longrightarrow> tbl_abs (rows @ [r]) = (tbl_abs rows)(row_id r \<mapsto> row_arec r)"
  by (auto simp: tbl_abs_def tbl_snoc)

lemma dom_tbl_abs: "dom (tbl_abs rows) = row_id ` set rows"
proof -
  have "i \<in> dom (tbl_abs rows) \<longleftrightarrow> tbl rows i \<noteq> None" for i by (auto simp: tbl_abs_def)
  then show ?thesis unfolding tbl_None by blast
qed

text \<open>The ways an \<open>INSERT\<close> can end.\<close>

lemma refuse_eq: "refuse m db = (out, db') \<longleftrightarrow> out = Inl (IOError m) \<and> db' = next_stmt db"
  by (auto simp: refuse_def)

lemma pg_insert_converted:
  assumes "pe_uuid env (job_ID j) = Some jid" and "bpchar3 (job_Base j) = Some base" and "bpchar3 (job_Quote j) = Some quote"
  shows "pg_insert env now j db =
    (if \<not> row_check (new_row env now jid base quote j) then refuse ''new row violates check constraint'' db
     else if job_DedupKey j \<noteq> [] \<and> Some (job_DedupKey j) \<in> row_dedup_key ` set (db_jobs db) then finish False (db_jobs db) db
     else if jid \<in> row_id ` set (db_jobs db) then refuse ''duplicate key value violates unique constraint quote_jobs_pkey'' db
     else finish True (db_jobs db @ [new_row env now jid base quote j]) db)"
proof -
  have "list_ex (\<lambda>x. row_dedup_key x = k) rows \<longleftrightarrow> k \<in> row_dedup_key ` set rows"
    "list_ex (\<lambda>x. row_id x = jid) rows \<longleftrightarrow> jid \<in> row_id ` set rows" for k and rows :: "'a row list"
    by (auto simp: list_ex_iff)
  moreover have "row_dedup_key (new_row env now jid base quote j) = (if job_DedupKey j \<noteq> [] then Some (job_DedupKey j) else None)" by (simp add: new_row_def)
  ultimately show ?thesis using assms by (simp add: pg_insert_def Let_def)
qed

lemma pg_ok_job_conv:
  assumes "pg_ok_job env j" and "pe_uuid env (job_ID j) = Some jid" and "bpchar3 (job_Base j) = Some base" and "bpchar3 (job_Quote j) = Some quote"
  shows "jid = job_ID j" and "valid_source (job_Source j) \<Longrightarrow> row_check (new_row env now jid base quote j)"
  using assms by (auto simp: pg_ok_job_def bpchar3_exact row_check_def new_row_def valid_source_def)

lemma pg_insert_cases:
  assumes inv: "pg_invar db" and ins: "pg_insert env now j db = (out, db')"
  obtains (fails) m where "out = Inl (IOError m)" "db_jobs db' = db_jobs db"
      "\<not> (pg_quiet db \<and> pg_ok_job env j \<and> valid_source (job_Source j) \<and> job_ID j \<notin> dom (pg_abs db))"
  | (conflict) "out = Inr False" "db_jobs db' = db_jobs db" "job_DedupKey j \<noteq> []"
      "Some (job_DedupKey j) \<in> row_dedup_key ` set (db_jobs db)" "db_fault db' = db_fault db"
  | (stored) jid base quote where "out = Inr True \<or> (\<exists>m. out = Inl (IOError m) \<and> \<not> pg_quiet db)"
      "pe_uuid env (job_ID j) = Some jid" "bpchar3 (job_Base j) = Some base" "bpchar3 (job_Quote j) = Some quote"
      "db_jobs db' = db_jobs db @ [new_row env now jid base quote j]"
      "row_check (new_row env now jid base quote j)" "jid \<notin> row_id ` set (db_jobs db)"
      "job_DedupKey j = [] \<or> Some (job_DedupKey j) \<notin> row_dedup_key ` set (db_jobs db)" "db_fault db' = db_fault db"
proof (cases "\<exists>jid base quote. pe_uuid env (job_ID j) = Some jid \<and> bpchar3 (job_Base j) = Some base \<and> bpchar3 (job_Quote j) = Some quote")
  case False
  then have "out = Inl (IOError ''invalid input value'')" "db_jobs db' = db_jobs db" "\<not> pg_ok_job env j"
    using ins by (auto simp: pg_insert_def refuse_def next_stmt_def pg_ok_job_def bpchar3_exact split: option.splits prod.splits)
  then show thesis by (intro fails) auto
next
  case True
  then obtain jid base quote where conv: "pe_uuid env (job_ID j) = Some jid" "bpchar3 (job_Base j) = Some base"
    "bpchar3 (job_Quote j) = Some quote" by blast
  let ?r = "new_row env now jid base quote j" and ?rows = "db_jobs db"
  let ?hit = "job_DedupKey j \<noteq> [] \<and> Some (job_DedupKey j) \<in> row_dedup_key ` set ?rows"
  note ok = pg_ok_job_conv [OF _ conv] and res = ins [unfolded pg_insert_converted [OF conv]]
  consider (refused) m where "out = Inl (IOError m)" "db' = next_stmt db" "\<not> row_check ?r \<or> jid \<in> row_id ` set ?rows"
    | (hit) "?hit" "finish False ?rows db = (out, db')"
    | (new) "row_check ?r" "\<not> ?hit" "jid \<notin> row_id ` set ?rows" "finish True (?rows @ [?r]) db = (out, db')"
    using res by (auto simp: refuse_eq split: if_splits)
  then show thesis
  proof cases
    case (refused m)
    have "\<not> (pg_ok_job env j \<and> valid_source (job_Source j) \<and> job_ID j \<notin> dom (pg_abs db))"
      using refused(3)
    proof
      assume "\<not> row_check ?r"
      then show ?thesis by (auto intro: ok(2))
    next
      assume "jid \<in> row_id ` set ?rows"
      then show ?thesis using ok(1) unfolding pg_abs_def dom_tbl_abs by metis
    qed
    with refused show thesis by (intro fails) (auto simp: next_stmt_def)
  next
    case hit
    from hit(2) show thesis using hit(1) by (cases rule: finish_cases) (auto intro: conflict fails)
  next
    case new
    from new(4) show thesis
    proof (cases rule: finish_cases)
      case fine
      then show thesis using new by (intro stored [OF _ conv]) auto
    next
      case (lost m)
      then show thesis using new by (cases "db_jobs db' = ?rows") (auto intro: fails stored [OF _ conv])
    qed
  qed
qed

text \<open>The rows an \<open>Enqueue\<close> leaves, and what it answers.\<close>

lemma pg_Enqueue_cases:
  assumes inv: "pg_invar db" and enq: "pg_Enqueue env j db w = (out, db', w')"
  obtains (invalid) "\<not> valid_source (job_Source j)" "out = Inl ErrInvalidSource" "db' = db" "w' = w"
  | (fails) e where "valid_source (job_Source j)" "out = Inl e" "is_io e" "db_jobs db' = db_jobs db" "same_oracles w w'"
      "\<not> (pg_quiet db \<and> pg_ok_job env j \<and> job_ID j \<notin> dom (pg_abs db))"
  | (conflict) r where "valid_source (job_Source j)" "out = Inr (row_id r, False)" "db_jobs db' = db_jobs db"
      "same_oracles w w'" "r \<in> set (db_jobs db)" "row_dedup_key r = Some (job_DedupKey j)" "job_DedupKey j \<noteq> []"
      "db_fault db' = db_fault db"
  | (stored) jid base quote where "valid_source (job_Source j)"
      "out = Inr (job_ID j, True) \<or> (\<exists>e. out = Inl e \<and> is_io e \<and> \<not> pg_quiet db)"
      "pe_uuid env (job_ID j) = Some jid" "bpchar3 (job_Base j) = Some base" "bpchar3 (job_Quote j) = Some quote"
      "db_jobs db' = db_jobs db @ [new_row env (Now w) jid base quote j]"
      "row_check (new_row env (Now w) jid base quote j)" "jid \<notin> row_id ` set (db_jobs db)"
      "job_DedupKey j = [] \<or> Some (job_DedupKey j) \<notin> row_dedup_key ` set (db_jobs db)" "db_fault db' = db_fault db"
      "same_oracles w w'"
proof (cases "valid_source (job_Source j)")
  case False
  with enq show thesis by (intro invalid) (auto simp: pg_Enqueue_def valid_source_def)
next
  case True
  then have src: "\<not> (job_Source j \<noteq> ''refresh'' \<and> job_Source j \<noteq> ''scheduler'')" by (simp add: valid_source_def)
  obtain o1 db1 where ins: "pg_insert env (Now w) j db = (o1, db1)" by force
  note enq' = enq [unfolded pg_Enqueue_def if_not_P [OF src] Let_def ins]
  from inv ins show thesis
  proof (cases rule: pg_insert_cases)
    case (fails m)
    then show thesis using True enq' by (intro that(2) [of "Wrapf ''pgqueue enqueue'' (IOError m)"]) auto
  next
    case (stored jid base quote)
    then show thesis using True enq' by (intro that(4) [of jid base quote]) (auto split: sum.splits bool.splits)
  next
    case conflict
    let ?look = "find (\<lambda>r. row_dedup_key r = Some (job_DedupKey j)) (db_jobs db1)"
    obtain r where r: "?look = Some r"
      using conflict(2,4) by (cases ?look) (auto simp: find_None_iff image_iff)
    then have rr: "r \<in> set (db_jobs db)" "row_dedup_key r = Some (job_DedupKey j)"
      using conflict(2) by (auto simp: find_Some_iff)
    obtain o2 db2 where look: "finish ?look (db_jobs db1) db1 = (o2, db2)" by force
    from look show thesis
    proof (cases rule: finish_cases)
      case fine
      then show thesis using True enq' look conflict r rr by (intro that(3) [of r]) auto
    next
      case (lost m)
      have "\<not> pg_quiet db" using lost(3) pg_quiet_eq conflict(5) by blast
      then show thesis using True enq' look conflict lost
        by (intro that(2) [of "Wrapf ''pgqueue enqueue: lookup existing'' (IOError m)"]) auto
    qed
  qed
qed

lemma pg_enqueue_stored:
  assumes "pg_invar db" and "db_jobs db' = db_jobs db @ [new_row env now jid base quote j]"
    and "row_check (new_row env now jid base quote j)" and "jid \<notin> row_id ` set (db_jobs db)"
    and "job_DedupKey j = [] \<or> Some (job_DedupKey j) \<notin> row_dedup_key ` set (db_jobs db)"
  shows "pg_invar db' \<and> pg_abs db' = (pg_abs db)(jid \<mapsto> row_arec (new_row env now jid base quote j))"
proof -
  let ?r = "new_row env now jid base quote j"
  have r: "row_id ?r = jid" "row_dedup_key ?r = None \<or> row_dedup_key ?r \<notin> row_dedup_key ` set (db_jobs db)"
    using assms(5) by (auto simp: new_row_def)
  show ?thesis
    using tbl_invar_snoc [of "db_jobs db" ?r] row_ok_new [OF assms(3)] tbl_abs_snoc [of ?r "db_jobs db"] assms r
    by (simp add: pg_abs_invar)
qed

lemma pg_enqueue_frame:
  assumes "pg_invar db" and "job_ID j \<notin> dom (pg_abs db)" and "pg_Enqueue env j db w = (out, db', w')"
  shows "pg_invar db' \<and> same_oracles w w' \<and> (\<forall>i r. pg_abs db i = Some r \<longrightarrow> pg_abs db' i = Some r)"
  using assms(1,3)
proof (cases rule: pg_Enqueue_cases)
  case (stored jid base quote)
  have "pg_abs db jid = None" using stored(8) by (auto simp: pg_abs_def tbl_abs_def tbl_None)
  then show ?thesis using pg_enqueue_stored [OF assms(1) stored(6-9)] stored(11) by (auto simp del: fun_upd_apply simp: fun_upd_other) (metis fun_upd_other option.distinct(1))
qed (use assms(1) in \<open>auto simp: pg_abs_invar\<close>)

lemma pg_enqueue_law:
  assumes inv: "pg_invar db" and fresh: "job_ID j \<notin> dom (pg_abs db)" and ok: "pg_ok_job env j"
    and enq: "pg_Enqueue env j db w = (out, db', w')"
  shows "enqueue_spec (pe_ts env (Now w)) (pe_ts env (job_NextRunAt j)) j (pg_abs db) out (pg_abs db')"
  using inv enq
proof (cases rule: pg_Enqueue_cases)
  case (conflict r)
  have "tbl (db_jobs db) (row_id r) = Some r"
    using inv conflict(5) by (simp add: tbl_Some pg_invar_def tbl_invar_def)
  with conflict show ?thesis by (simp add: enqueue_spec_def pg_abs_def tbl_abs_def)
next
  case (stored jid base quote)
  then have id: "jid = job_ID j" "base = job_Base j" "quote = job_Quote j"
    using ok by (auto simp: pg_ok_job_def bpchar3_exact)
  have new: "pg_abs db' = (pg_abs db)(job_ID j \<mapsto> new_arec (pe_ts env (Now w)) (pe_ts env (job_NextRunAt j)) j)"
    using pg_enqueue_stored [OF inv stored(6-9)] unfolding id row_arec_new by blast
  have "job_DedupKey j = [] \<or> (\<forall>i r. pg_abs db i = Some r \<longrightarrow> ar_dedup r \<noteq> job_DedupKey j)"
    using stored(9) by (force simp: pg_abs_def tbl_abs_def image_iff dest: tbl_mem split: option.splits)
  with new stored(1,2) show ?thesis by (auto simp: enqueue_spec_def)
qed (auto simp: enqueue_spec_def pg_abs_def)

lemma pg_enqueue_quiet:
  assumes "pg_quiet db" and "pg_invar db" and "job_ID j \<notin> dom (pg_abs db)" and "pg_ok_job env j"
    and enq: "pg_Enqueue env j db w = (out, db', w')"
  shows "pg_quiet db' \<and> (\<forall>e. out = Inl e \<longrightarrow> \<not> is_io e)"
  using assms(2,5) by (cases rule: pg_Enqueue_cases) (use assms pg_quiet_eq in auto)

section \<open>Reserve\<close>

lemma pg_selected_sub:
  "r \<in> set (pg_selected env now n db) \<Longrightarrow>
     r \<in> set (db_jobs db) \<and> row_status r = ''pending'' \<and> row_next_run_at r \<le> now \<and> row_id r \<notin> pg_skipped db"
  by (auto simp: pg_selected_def pg_skipped_def dest!: in_set_takeD)

lemma pg_selected_distinct:
  "distinct (map row_id (db_jobs db)) \<Longrightarrow> distinct (map row_id (pg_selected env now n db))"
  unfolding pg_selected_def by (rule distinct_map_take_sort)

lemma pg_selected_leftover:
  assumes "r \<in> set (db_jobs db)" and "row_status r = ''pending''" and "row_next_run_at r \<le> now" and "row_id r \<notin> pg_skipped db"
    and "row_id r \<notin> row_id ` set (pg_selected env now n db)"
  shows "length (pg_selected env now n db) = n"
    and "x \<in> set (pg_selected env now n db) \<Longrightarrow> row_next_run_at x \<le> row_next_run_at r"
proof -
  let ?el = "filter (\<lambda>r. row_status r = ''pending'' \<and> row_next_run_at r \<le> now \<and> row_id r \<notin> db_locks db (db_stmt db))
    (reorder (pe_ties env) (db_jobs db))"
  have mem: "r \<in> set ?el" using assms(1-4) by (simp add: pg_skipped_def)
  have out: "r \<notin> set (take n (sort_key row_next_run_at ?el))"
    using assms(5) by (auto simp: pg_selected_def)
  from take_sort_leftover [OF mem out] show "length (pg_selected env now n db) = n" unfolding pg_selected_def .
  assume "x \<in> set (pg_selected env now n db)"
  then show "row_next_run_at x \<le> row_next_run_at r"
    unfolding pg_selected_def by (rule sorted_take_sort_key [OF _ mem out])
qed

definition lease_row :: "time \<Rightarrow> time \<Rightarrow> 'd row \<Rightarrow> 'd row" where
  "lease_row until now r = r\<lparr>row_status := ''running'', row_lease_until := Some until, row_updated_at := now\<rparr>"

definition leased_rows :: "string set \<Rightarrow> time \<Rightarrow> time \<Rightarrow> 'd row list \<Rightarrow> 'd row list" where
  "leased_rows ids until now rows = map (\<lambda>r. if row_id r \<in> ids then lease_row until now r else r) rows"

lemma lease_row_keep [simp]:
  "row_id (lease_row until now r) = row_id r" "row_dedup_key (lease_row until now r) = row_dedup_key r"
  "row_arec (lease_row until now r) = lease_arec until (row_arec r)"
  by (simp_all add: lease_row_def row_arec_def lease_arec_def row_state_def)

lemma row_ok_lease: "row_ok r \<Longrightarrow> row_status r = ''pending'' \<Longrightarrow> row_ok (lease_row until now r)"
  by (auto simp: row_ok_def row_check_def lease_row_def)

lemma tbl_abs_leased: "tbl_abs (leased_rows ids until now rows) = reserve_upd until ids (tbl_abs rows)"
proof
  fix k
  have "tbl (leased_rows ids until now rows) k = map_option (\<lambda>r. if row_id r \<in> ids then lease_row until now r else r) (tbl rows k)"
    unfolding leased_rows_def by (rule tbl_map) simp
  then show "tbl_abs (leased_rows ids until now rows) k = reserve_upd until ids (tbl_abs rows) k"
    by (cases "tbl rows k") (auto simp: tbl_abs_def reserve_upd_def dest: tbl_mem)
qed

lemma tbl_invar_leased:
  assumes inv: "tbl_invar rows" and sub: "\<And>r. r \<in> sel \<Longrightarrow> r \<in> set rows \<and> row_status r = ''pending''"
  shows "tbl_invar (leased_rows (row_id ` sel) until now rows)"
  unfolding leased_rows_def
proof (rule tbl_invar_map [OF inv])
  fix r assume r: "r \<in> set rows"
  show "row_ok (if row_id r \<in> row_id ` sel then lease_row until now r else r)"
  proof (cases "row_id r \<in> row_id ` sel")
    case True
    then obtain x where "x \<in> sel" "row_id x = row_id r" by auto
    moreover from this have "x = r"
      using sub r inv by (metis distinct_map inj_onD tbl_invar_def)
    ultimately have "row_status r = ''pending''" using sub by blast
    moreover have "row_ok r" using r inv by (simp add: tbl_invar_def)
    ultimately show ?thesis using row_ok_lease True by simp
  qed (use r inv in \<open>auto simp: tbl_invar_def\<close>)
qed simp_all

lemma pg_reserve_spec:
  assumes inv: "pg_invar db" and sel: "sel = pg_selected env now n db" and js: "js = map row_job (reorder ord sel)"
  shows "reserve_spec (pg_skipped db) now until n (pg_abs db) js (tbl_abs (leased_rows (row_id ` set sel) until now (db_jobs db)))"
proof -
  have dist: "distinct (map row_id (db_jobs db))" using inv by (simp add: pg_invar_def tbl_invar_def)
  have ids: "map job_ID js = map row_id (reorder ord sel)" "job_ID ` set js = row_id ` set sel"
    by (simp_all add: js row_job_def image_comp o_def)
  have sub: "r \<in> set (db_jobs db) \<and> row_status r = ''pending'' \<and> row_next_run_at r \<le> now \<and> row_id r \<notin> pg_skipped db"
    if "r \<in> set sel" for r using that pg_selected_sub unfolding sel by blast
  show ?thesis
    unfolding reserve_spec_def
  proof (intro conjI ballI allI impI)
    show "distinct (map job_ID js)"
      unfolding ids using pg_selected_distinct [OF dist] by (simp add: sel)
    show "length js \<le> n" by (simp add: js sel pg_selected_def)
    show "\<exists>r. pg_abs db (job_ID j) = Some r \<and> eligible now r \<and> job_ID j \<notin> pg_skipped db \<and> job_matches (job_ID j) r j"
      if "j \<in> set js" for j
    proof -
      from that obtain r where r: "r \<in> set sel" "j = row_job r" by (auto simp: js)
      with sub have "tbl (db_jobs db) (job_ID j) = Some r" by (simp add: tbl_Some [OF dist] row_job_def)
      with sub [OF r(1)] r(2) show ?thesis
        by (auto simp: pg_abs_def tbl_abs_def eligible_def job_matches_def row_job_def)
    qed
    fix i ar
    assume *: "pg_abs db i = Some ar \<and> eligible now ar \<and> i \<notin> pg_skipped db \<and> i \<notin> job_ID ` set js"
    then obtain r where r: "r \<in> set (db_jobs db)" "row_id r = i" "ar = row_arec r"
      by (auto simp: pg_abs_def tbl_abs_def dest: tbl_mem)
    with * have left: "row_status r = ''pending''" "row_next_run_at r \<le> now" "row_id r \<notin> pg_skipped db"
        "row_id r \<notin> row_id ` set (pg_selected env now n db)"
      by (auto simp: eligible_def ids(2) sel)
    from pg_selected_leftover(1) [OF r(1) left] show "length js = n" by (simp add: js sel)
    show "job_NextRunAt j \<le> ar_next ar" if "j \<in> set js" for j
      using that pg_selected_leftover(2) [OF r(1) left] by (auto simp: js sel r(3) row_job_def)
  next
    show "tbl_abs (leased_rows (row_id ` set sel) until now (db_jobs db)) = reserve_upd until (job_ID ` set js) (pg_abs db)"
      unfolding ids(2) tbl_abs_leased pg_abs_def ..
  qed
qed

lemma pg_reserve_law:
  assumes inv: "pg_invar db" and n: "0 \<le> n" and res: "pg_Reserve env n l db w = (out, db', w')"
  shows "pg_invar db' \<and> same_oracles w w' \<and>
     (case out of
        Ok (Inr js) \<Rightarrow> reserve_spec (pg_skipped db) (pe_ts env (Now w)) (pe_ts env (Now w + l)) (nat n) (pg_abs db) js (pg_abs db')
      | Ok (Inl e) \<Rightarrow> is_io e \<and> (pg_abs db' = pg_abs db \<or>
          (\<exists>js. reserve_spec (pg_skipped db) (pe_ts env (Now w)) (pe_ts env (Now w + l)) (nat n) (pg_abs db) js (pg_abs db')))
      | Panic m \<Rightarrow> False)
     \<and> (pg_quiet db \<longrightarrow> pg_quiet db' \<and> (\<exists>js. out = Ok (Inr js)))"
proof -
  define now until sel where "now = pe_ts env (Now w)" and "until = pe_ts env (Now w + l)"
    and "sel = pg_selected env now (nat n) db"
  let ?rows = "leased_rows (row_id ` set sel) until now (db_jobs db)"
  let ?js = "map row_job (reorder (pe_returning env) sel)"
  obtain o1 db1 where f: "finish ?js ?rows db = (o1, db1)" by force
  have res': "(out, db', w') = (case o1 of Inr js \<Rightarrow> (Ok (Inr js), db1, tick w)
      | Inl e \<Rightarrow> (Ok (Inl (Wrapf ''pgqueue reserve'' e)), db1, tick w))"
    using res f n unfolding pg_Reserve_def Let_def now_def until_def sel_def leased_rows_def lease_row_def
    by (auto split: sum.splits)
  have ti: "tbl_invar ?rows"
    unfolding sel_def by (rule tbl_invar_leased) (use inv in \<open>auto simp: pg_invar_def dest: pg_selected_sub\<close>)
  have spec: "reserve_spec (pg_skipped db) now until (nat n) (pg_abs db) ?js (tbl_abs ?rows)"
    by (rule pg_reserve_spec [OF inv sel_def refl])
  from f show ?thesis
  proof (cases rule: finish_cases)
    case fine
    then show "?thesis" using res' ti spec pg_quiet_eq [of db1 db]
      by (simp add: pg_invar_def pg_abs_def now_def [symmetric] until_def [symmetric])
  next
    case (lost m)
    then show "?thesis" using res' ti spec inv
      by (auto simp: pg_invar_def pg_abs_def now_def [symmetric] until_def [symmetric])
  qed
qed

section \<open>Recovering expired leases\<close>

definition row_expired :: "time \<Rightarrow> 'd row \<Rightarrow> bool" where
  "row_expired now r \<longleftrightarrow> row_status r = ''running'' \<and> (case row_lease_until r of None \<Rightarrow> False | Some l \<Rightarrow> l < now)"

definition recover_row :: "time \<Rightarrow> 'd row \<Rightarrow> 'd row" where
  "recover_row now r =
     r\<lparr>row_status := ''pending'', row_lease_until := None, row_locked_by := None, row_updated_at := now\<rparr>"

lemma row_ok_recover: "row_ok r \<Longrightarrow> row_expired now r \<Longrightarrow> row_ok (recover_row now r)"
  by (auto simp: row_ok_def row_check_def row_expired_def recover_row_def)

lemma recover_row_keep [simp]:
  "row_id (recover_row now r) = row_id r" "row_dedup_key (recover_row now r) = row_dedup_key r"
  "row_arec (recover_row now r) = (row_arec r)\<lparr>ar_state := Pending\<rparr>"
  by (simp_all add: recover_row_def row_arec_def row_state_def)

lemma expired_row: "row_ok r \<Longrightarrow> expired now (row_arec r) \<longleftrightarrow> row_expired now r"
  by (cases "row_lease_until r") (auto simp: expired_def row_state_def row_ok_def row_expired_def)

lemma recover_arec_expired: "recover_arec now r = (if expired now r then r\<lparr>ar_state := Pending\<rparr> else r)"
  by (simp add: recover_arec_def expired_def split: jstate.splits)

lemma expired_ids:
  assumes "tbl_invar rows"
  shows "{i. \<exists>r. tbl_abs rows i = Some r \<and> expired now r} = row_id ` set (filter (row_expired now) rows)" (is "?L = ?R")
proof (intro set_eqI iffI)
  fix i assume "i \<in> ?L"
  then obtain x where "tbl rows i = Some x" "expired now (row_arec x)" by (auto simp: tbl_abs_def)
  with row_okD [OF assms] tbl_mem expired_row show "i \<in> ?R" by fastforce
next
  fix i assume "i \<in> ?R"
  then obtain x where x: "x \<in> set rows" "row_id x = i" "row_expired now x" by auto
  then have "tbl rows i = Some x" "row_ok x" using assms by (auto simp: tbl_invar_def tbl_Some)
  with x(3) show "i \<in> ?L" by (simp add: tbl_abs_def expired_row)
qed

lemma tbl_abs_recovered:
  assumes "tbl_invar rows"
  shows "tbl_abs (map (\<lambda>r. if row_expired now r then recover_row now r else r) rows) = recover_upd now (tbl_abs rows)"
proof
  fix k
  have "tbl (map (\<lambda>r. if row_expired now r then recover_row now r else r) rows) k
      = map_option (\<lambda>r. if row_expired now r then recover_row now r else r) (tbl rows k)"
    by (rule tbl_map) simp
  then show "tbl_abs (map (\<lambda>r. if row_expired now r then recover_row now r else r) rows) k = recover_upd now (tbl_abs rows) k"
    using row_okD [OF assms, of k]
    by (cases "tbl rows k") (auto simp: tbl_abs_def recover_upd_def recover_arec_expired expired_row)
qed

lemma pg_recover_law:
  fixes db :: "'d pgdb"
  assumes inv: "pg_invar db" and rec: "pg_RecoverExpired env db w = (out, db', w')"
  shows "pg_invar db' \<and> same_oracles w w' \<and> recover_spec (pe_ts env (Now w)) (pg_abs db) out (pg_abs db')"
proof -
  define now where "now = pe_ts env (Now w)"
  let ?P = "row_expired now :: 'd row \<Rightarrow> bool" and ?g = "\<lambda>r. if row_expired now r then recover_row now r else r"
  have ti: "tbl_invar (db_jobs db)" and dist: "distinct (map row_id (db_jobs db))" and ok: "\<And>r. r \<in> set (db_jobs db) \<Longrightarrow> row_ok r"
    using inv by (auto simp: pg_invar_def tbl_invar_def)
  have "list_all (\<lambda>r. ?P r \<longrightarrow> row_check (recover_row now r)) (db_jobs db)"
    using ok row_ok_recover unfolding list_all_iff row_ok_def by blast
  then have rec': "(out, db', w') = (case finish (int (length (filter ?P (db_jobs db)))) (map ?g (db_jobs db)) db of
      (Inr n, db1) \<Rightarrow> (Inr n, db1, tick w) | (Inl e, db1) \<Rightarrow> (Inl (Wrapf ''pgqueue recover expired'' e), db1, tick w))"
    using rec unfolding pg_RecoverExpired_def pg_update_def Let_def now_def [symmetric]
      row_expired_def [symmetric] recover_row_def [symmetric] by simp
  have inv1: "tbl_invar (map ?g (db_jobs db))"
    by (rule tbl_invar_map [OF ti]) (use row_ok_recover ok in auto)
  have abs1: "tbl_abs (map ?g (db_jobs db)) = recover_upd now (pg_abs db)"
    unfolding pg_abs_def by (rule tbl_abs_recovered [OF ti])
  have cnt: "int (length (filter ?P (db_jobs db))) = int (card {i. \<exists>r. pg_abs db i = Some r \<and> expired now r})"
    unfolding pg_abs_def expired_ids [OF ti] card_image_filter [OF dist] ..
  obtain o1 db1 where f: "finish (int (length (filter ?P (db_jobs db)))) (map ?g (db_jobs db)) db = (o1, db1)" by force
  from f have "pg_invar db' \<and> same_oracles w w' \<and> recover_spec now (pg_abs db) out (pg_abs db')"
  proof (cases rule: finish_cases)
    case fine
    with rec' f have "out = Inr (int (length (filter ?P (db_jobs db))))" "db' = db1" "w' = tick w" by auto
    with fine inv1 abs1 cnt show ?thesis by (simp add: recover_spec_def pg_abs_invar)
  next
    case (lost m)
    with rec' f have "out = Inl (Wrapf ''pgqueue recover expired'' (IOError m))" "db' = db1" "w' = tick w" by auto
    with lost(2) inv inv1 abs1 show ?thesis by (auto simp: recover_spec_def pg_abs_invar)
  qed
  then show ?thesis unfolding now_def .
qed

interpretation pg: job_queue "pg_ops env" pg_abs pg_invar "pe_ts env" "\<lambda>i. pe_uuid env i = Some i" "pg_ok_job env"
  pg_ok_reason pg_quiet pg_skipped "pg_readback env" for env
proof (unfold_locales, goal_cases)
  case (1 s)
  then show ?case by (simp add: pg_abs_def dom_tbl_abs)
next
  case (2 s i r k r')
  then obtain x y where xy: "x \<in> set (db_jobs s)" "row_id x = i" "r = row_arec x" "y \<in> set (db_jobs s)" "row_id y = k" "r' = row_arec y"
    by (auto simp: pg_abs_def tbl_abs_def dest!: tbl_mem)
  with 2(4,5) have "row_dedup_key x = row_dedup_key y \<and> row_dedup_key x \<noteq> None"
    by (auto split: option.splits)
  with xy 2(1) show ?case unfolding pg_invar_def tbl_invar_def by blast
next
  case (3 s j w out s' w')
  then show ?case using pg_enqueue_frame by (simp add: op_defs)
next
  case (4 s j w out s' w')
  then show ?case using pg_enqueue_law by (simp add: op_defs)
next
  case (5 s j w out s' w')
  then show ?case using pg_enqueue_quiet by (simp add: op_defs)
next
  case (6 s n l w rout s' w')
  then have "pg_Reserve env n l s w = (rout, s', w')" by (simp add: op_defs)
  from pg_reserve_law [OF 6(1,2) this] show ?case by blast
next
  case (7 s n l w rout s' w')
  then have "pg_Reserve env n l s w = (rout, s', w')" by (simp add: op_defs)
  from pg_reserve_law [OF 7(2,3) this] 7(1) show ?case by blast
next
  case (8 s i p u w e s' w')
  then show ?case using pg_complete_law [of s env i] by (simp add: op_defs)
next
  case (9 s i p u w e s' w')
  then show ?case using pg_complete_law [of s env i] by (simp add: op_defs)
next
  case (10 s i m d w e s' w')
  then show ?case using pg_reschedule_law [of s env i] by (simp add: op_defs)
next
  case (11 s i m d w e s' w')
  then show ?case using pg_reschedule_law [of s env i] by (simp add: op_defs)
next
  case (12 s i m w e s' w')
  then show ?case using pg_fail_law [of s env i] by (simp add: op_defs)
next
  case (13 s i m w e s' w')
  then show ?case using pg_fail_law [of s env i] by (simp add: op_defs)
next
  case (14 s i w gout s' w')
  then show ?case using pg_get_law by (simp add: op_defs)
next
  case (15 s w vout s' w')
  then show ?case using pg_recover_law by (simp add: op_defs)
qed

section \<open>Closed instances\<close>

text \<open>A concrete environment (microsecond timestamps, ids read as they are, an integer price type) and a
  table with a running, a pending and a failed job.\<close>

definition sample_env :: "int pg_env" where
  "sample_env = \<lparr>pe_ts = (\<lambda>t. t div 1000 * 1000), pe_uuid = Some, pe_numeric_text = show_int, pe_NewFromString = Atoi,
     pe_ties = (\<lambda>xs. xs), pe_returning = rev\<rparr>"

definition sample_row :: "string \<Rightarrow> string \<Rightarrow> string \<Rightarrow> int row" where
  "sample_row jid status key = \<lparr>row_id = jid, row_base = ''EUR'', row_quote = ''MXN'', row_status = status, row_attempts = 1,
     row_next_run_at = 0, row_lease_until = (if status = ''pending'' then None else Some (1000 * second)), row_locked_by = None,
     row_dedup_key = Some key, row_created_at = 0, row_updated_at = 0,
     row_completed_at = (if status = ''failed'' then Some (50 * second) else None),
     row_last_error = (if status = ''failed'' then Some ''no rate'' else None), row_source = ''refresh'', row_price = None,
     row_quote_updated_at = None\<rparr>"

definition sample_db :: "int pgdb" where
  "sample_db = \<lparr>db_jobs = [sample_row ''a'' ''running'' ''ka'', sample_row ''b'' ''pending'' ''kb'', sample_row ''c'' ''failed'' ''kc''],
     db_stmt = 0, db_fault = (\<lambda>n. None), db_locks = (\<lambda>n. {})\<rparr>"

lemma sample_env_sel [simp]:
  "pe_ts sample_env t = t div 1000 * 1000" "pe_uuid sample_env i = Some i"
  by (simp_all add: sample_env_def)

lemma sample_db_invar: "pg_invar sample_db"
  by (auto simp: char_length_def pg_invar_def tbl_invar_def sample_db_def sample_row_def row_ok_def row_check_def)

lemma sample_db_quiet: "pg_quiet sample_db"
  by (simp add: pg_quiet_def sample_db_def)

lemma sample_db_abs:
  "pg_abs sample_db = [''a'' \<mapsto> row_arec (sample_row ''a'' ''running'' ''ka''), ''b'' \<mapsto> row_arec (sample_row ''b'' ''pending'' ''kb''),
     ''c'' \<mapsto> row_arec (sample_row ''c'' ''failed'' ''kc'')]"
  by (auto simp: pg_abs_def tbl_abs_def sample_db_def sample_row_def fun_eq_iff)

section \<open>Properties\<close>

text \<open>C1: A finished job is final in the Postgres queue. Over any interleaving of the seven operations by
  any number of processes (new ids fresh, ids in canonical UUID form, batch sizes not negative), with
  statements failing before or after they took effect and rows locked by others at any point, every
  job keeps its pair, source, key and creation time, its attempts never decrease, and a done or
  failed job keeps its whole record.\<close>

theorem pg_terminal_forever:
  assumes "pg_invar db" and "wf_calls (pg_ops env) pg_abs (\<lambda>i. pe_uuid env i = Some i) cs db w"
    and "exec_calls (pg_ops env) cs db w = (js, db', w')" and "pg_abs db i = Some r"
  shows "pg_invar db' \<and> (\<exists>r'. pg_abs db' i = Some r' \<and> same_job r r' \<and> (is_terminal (ar_state r) \<longrightarrow> r' = r))"
  by (rule pg.calls_keep_job [OF assms])

theorem pg_terminal_forever_witness:
  "pg_abs (fst (snd (exec_calls (pg_ops sample_env) [CFail ''c'' ''late'', CReserve 5 second, CRecoverExpired] sample_db sample_world))) ''c''
     = pg_abs sample_db ''c''"
proof -
  let ?cs = "[CFail ''c'' ''late'', CReserve 5 second, CRecoverExpired] :: int qcall list"
  obtain js db' w' where e: "exec_calls (pg_ops sample_env) ?cs sample_db sample_world = (js, db', w')" by (metis prod_cases3)
  have wf: "wf_calls (pg_ops sample_env) pg_abs (\<lambda>i. pe_uuid sample_env i = Some i) ?cs sample_db sample_world" by (simp split: prod.splits)
  obtain r where r: "pg_abs sample_db ''c'' = Some r" "is_terminal (ar_state r)"
    by (simp add: sample_db_abs) (simp add: row_state_def sample_row_def)
  from pg_terminal_forever [OF sample_db_invar wf e r(1)] r e show ?thesis by auto
qed

text \<open>C2: Lease exclusivity in Postgres. While no clock reading of any process passes the lease of a
  running job (at the precision of the column) and no call completes, reschedules or fails it, the job
  stays exactly as it is and no Reserve hands it out again, even when statements fail half-way.\<close>

theorem pg_lease_exclusive:
  assumes "pg_invar db" and "wf_calls (pg_ops env) pg_abs (\<lambda>i. pe_uuid env i = Some i) cs db w"
    and "exec_calls (pg_ops env) cs db w = (js, db', w')" and "pg_abs db i = Some r" and "ar_state r = Running l"
    and "\<forall>c \<in> set cs. \<not> settles i c" and "\<forall>n. pe_ts env (clk w n) \<le> l"
  shows "pg_abs db' i = Some r \<and> i \<notin> job_ID ` set js"
  by (rule pg.calls_keep_lease [OF assms])

theorem pg_lease_exclusive_witness:
  "pg_abs (fst (snd (exec_calls (pg_ops sample_env) [CReserve 5 second, CRecoverExpired] sample_db
      (sample_world\<lparr>clk := \<lambda>n. 900 * second\<rparr>)))) ''a'' = pg_abs sample_db ''a''"
proof -
  let ?cs = "[CReserve 5 second, CRecoverExpired] :: int qcall list" and ?w = "sample_world\<lparr>clk := \<lambda>n. 900 * second\<rparr>"
  obtain js db' w' where e: "exec_calls (pg_ops sample_env) ?cs sample_db ?w = (js, db', w')" by (metis prod_cases3)
  have wf: "wf_calls (pg_ops sample_env) pg_abs (\<lambda>i. pe_uuid sample_env i = Some i) ?cs sample_db ?w" by (simp split: prod.splits)
  obtain r where r: "pg_abs sample_db ''a'' = Some r" "ar_state r = Running (1000 * second)"
    by (simp add: sample_db_abs) (simp add: row_state_def sample_row_def)
  have "pg_abs db' ''a'' = Some r"
    using pg_lease_exclusive [OF sample_db_invar wf e r] by simp
  then show ?thesis using e r by simp
qed

text \<open>C4: Coalescing in Postgres. After an Enqueue with a non-empty key answered id \<open>i\<close>, and after any
  further calls (failing ones included), an Enqueue of another storable job with that key, at a moment
  without storage failures, inserts nothing and answers \<open>i\<close>, not created, whatever became of the job.\<close>

theorem pg_coalesces:
  assumes "pg_invar db" and "job_ID j \<notin> dom (pg_abs db)" and "pg_ok_job env j" and "job_DedupKey j \<noteq> []"
    and "pg_Enqueue env j db w = (Inr (i, b), db1, w1)"
    and "wf_calls (pg_ops env) pg_abs (\<lambda>i. pe_uuid env i = Some i) cs db1 w1" and "exec_calls (pg_ops env) cs db1 w1 = (js, db2, w2)"
    and "pg_quiet db2" and "job_ID j2 \<notin> dom (pg_abs db2)" and "pg_ok_job env j2" and "valid_source (job_Source j2)"
    and "job_DedupKey j2 = job_DedupKey j" and "pg_Enqueue env j2 db2 w3 = (out, db3, w4)"
  shows "out = Inr (i, False) \<and> pg_abs db3 = pg_abs db2"
  by (rule pg.coalesce_across [OF assms(1-4) _ assms(6-12)]) (use assms(5,13) in \<open>simp_all add: op_defs\<close>)

theorem pg_coalesces_witness:
  "fst (pg_Enqueue sample_env (sample_job ''e'' ''kd'' 0) (fst (snd (pg_Enqueue sample_env (sample_job ''d'' ''kd'' 0) sample_db sample_world)))
      sample_world) = Inr (''d'', False)"
proof -
  let ?j = "sample_job ''d'' ''kd'' 0" and ?j2 = "sample_job ''e'' ''kd'' 0"
  obtain db1 where db1: "pg_Enqueue sample_env ?j sample_db sample_world = (Inr (''d'', True), db1, tick sample_world)"
      "row_id ` set (db_jobs db1) = {''a'', ''b'', ''c'', ''d''}" "pg_quiet db1"
    by (simp add: pg_Enqueue_def pg_insert_def sample_db_def sample_row_def sample_job_def new_row_def row_check_def bpchar3_exact Let_def
        finish_def next_stmt_def pg_quiet_def insert_commute)
  obtain out db3 w4 where e2: "pg_Enqueue sample_env ?j2 db1 sample_world = (out, db3, w4)" by (metis prod_cases3)
  have e: "exec_calls (pg_ops sample_env) [] db1 (tick sample_world) = ([], db1, tick sample_world)" by simp
  have ids: "job_ID ?j2 \<notin> dom (pg_abs db1)" using db1(2) by (simp add: pg_abs_def dom_tbl_abs sample_job_def)
  have "out = Inr (''d'', False) \<and> pg_abs db3 = pg_abs db1"
    by (rule pg_coalesces [OF sample_db_invar _ _ _ db1(1) _ e db1(3) ids _ _ _ e2])
      (simp_all add: sample_db_abs sample_job_def pg_ok_job_def valid_source_def)
  then show ?thesis using db1(1) e2 by simp
qed

text \<open>C7: Reserve in Postgres, for a non-negative limit. It never panics. When it returns jobs it has taken at
  most \<open>n\<close> distinct pending due jobs that no other session holds locked, made exactly those running with
  a lease of \<open>now + l\<close>, and left an unlocked due job behind only if \<open>n\<close> jobs were taken, all due no later.
  An error means a storage failure, with the table unchanged or the same step taken unseen; without
  storage failures ahead it always returns jobs.\<close>

theorem pg_reserve_correct:
  assumes "pg_invar db" and "0 \<le> n" and "pg_Reserve env n l db w = (out, db', w')"
  shows "pg_invar db' \<and> (pg_quiet db \<longrightarrow> (\<exists>js. out = Ok (Inr js)))
    \<and> (case out of
         Ok (Inr js) \<Rightarrow> reserve_spec (pg_skipped db) (pe_ts env (Now w)) (pe_ts env (Now w + l)) (nat n) (pg_abs db) js (pg_abs db')
       | Ok (Inl e) \<Rightarrow> is_io e \<and> (pg_abs db' = pg_abs db \<or>
           (\<exists>js. reserve_spec (pg_skipped db) (pe_ts env (Now w)) (pe_ts env (Now w + l)) (nat n) (pg_abs db) js (pg_abs db')))
       | Panic m \<Rightarrow> False)"
  using pg_reserve_law [OF assms] by blast

theorem pg_reserve_correct_witness:
  "\<exists>js db' w'. pg_Reserve sample_env 5 (60 * second) sample_db sample_world = (Ok (Inr js), db', w')
     \<and> reserve_spec {} (100 * second) (160 * second) 5 (pg_abs sample_db) js (pg_abs db')"
proof -
  obtain out db' w' where e: "pg_Reserve sample_env 5 (60 * second) sample_db sample_world = (out, db', w')" by (metis prod_cases3)
  have "(0 :: int) \<le> 5" by simp
  from pg_reserve_correct [OF sample_db_invar this e] sample_db_quiet e show ?thesis
    by (auto simp: Now_def sample_world_def pg_skipped_def sample_db_def)
qed

text \<open>C8: Complete, Reschedule and Fail in Postgres, for an id in canonical form, refine the abstract queue on
  every branch: ErrNotFound for an unknown id, ErrNotReserved for a job that is not running (the table
  unchanged both times), otherwise the job becomes done with its price and quote time, pending with one
  attempt more, or failed with its reason. Storage failures are reported, and without one ahead (and, for
  Reschedule and Fail, a reason of at most 4096 characters) the answer is never a storage failure.\<close>

theorem pg_settle_correct:
  assumes "pg_invar db" and "pe_uuid env i = Some i"
  shows "(case pg_Complete env i p u db w of (e, db', w') \<Rightarrow> pg_invar db'
        \<and> upd_spec (done_arec (pe_ts env (Now w)) p (pe_ts env u)) i (pg_abs db) e (pg_abs db') \<and> (pg_quiet db \<longrightarrow> (\<forall>x. e = Some x \<longrightarrow> \<not> is_io x)))
    \<and> (case pg_Reschedule env i m d db w of (e, db', w') \<Rightarrow> pg_invar db'
        \<and> upd_spec (resched_arec (pe_ts env (Now w + d))) i (pg_abs db) e (pg_abs db') \<and> (pg_quiet db \<and> char_length m \<le> 4096 \<longrightarrow> (\<forall>x. e = Some x \<longrightarrow> \<not> is_io x)))
    \<and> (case pg_Fail env i m db w of (e, db', w') \<Rightarrow> pg_invar db'
        \<and> upd_spec (fail_arec (pe_ts env (Now w)) m) i (pg_abs db) e (pg_abs db') \<and> (pg_quiet db \<and> char_length m \<le> 4096 \<longrightarrow> (\<forall>x. e = Some x \<longrightarrow> \<not> is_io x)))"
proof (intro conjI)
  obtain e db' w' where c: "pg_Complete env i p u db w = (e, db', w')" by (metis prod_cases3)
  from pg_complete_law [OF assms c] c show "case pg_Complete env i p u db w of (e, db', w') \<Rightarrow> pg_invar db'
        \<and> upd_spec (done_arec (pe_ts env (Now w)) p (pe_ts env u)) i (pg_abs db) e (pg_abs db') \<and> (pg_quiet db \<longrightarrow> (\<forall>x. e = Some x \<longrightarrow> \<not> is_io x))"
    by simp
next
  obtain e db' w' where c: "pg_Reschedule env i m d db w = (e, db', w')" by (metis prod_cases3)
  from pg_reschedule_law [OF assms c] c show "case pg_Reschedule env i m d db w of (e, db', w') \<Rightarrow> pg_invar db'
        \<and> upd_spec (resched_arec (pe_ts env (Now w + d))) i (pg_abs db) e (pg_abs db') \<and> (pg_quiet db \<and> char_length m \<le> 4096 \<longrightarrow> (\<forall>x. e = Some x \<longrightarrow> \<not> is_io x))"
    by (simp add: pg_ok_reason_def)
next
  obtain e db' w' where c: "pg_Fail env i m db w = (e, db', w')" by (metis prod_cases3)
  from pg_fail_law [OF assms c] c show "case pg_Fail env i m db w of (e, db', w') \<Rightarrow> pg_invar db'
        \<and> upd_spec (fail_arec (pe_ts env (Now w)) m) i (pg_abs db) e (pg_abs db') \<and> (pg_quiet db \<and> char_length m \<le> 4096 \<longrightarrow> (\<forall>x. e = Some x \<longrightarrow> \<not> is_io x))"
    by (simp add: pg_ok_reason_def)
qed

theorem pg_settle_correct_witness:
  "case pg_Complete sample_env ''a'' 20 (99 * second) sample_db sample_world of (e, db', w') \<Rightarrow>
     upd_spec (done_arec (100 * second) 20 (99 * second)) ''a'' (pg_abs sample_db) e (pg_abs db')"
proof -
  obtain e db' w' where e: "pg_Complete sample_env ''a'' 20 (99 * second) sample_db sample_world = (e, db', w')" by (metis prod_cases3)
  have "pe_ts sample_env (Now sample_world) = 100 * second" "pe_ts sample_env (99 * second) = 99 * second"
    by (simp_all add: Now_def sample_world_def)
  with pg_settle_correct [OF sample_db_invar, where env = sample_env and i = "''a''" and p = 20 and u = "99 * second" and w = sample_world] e
  show ?thesis by simp
qed

text \<open>C9: RecoverExpired in Postgres returns the number of running jobs whose lease ended before now, makes
  exactly those pending again with their attempts unchanged, and touches nothing else; a storage failure
  is reported and leaves the table unchanged or recovered.\<close>

theorem pg_recover_correct:
  assumes "pg_invar db" and "pg_RecoverExpired env db w = (out, db', w')"
  shows "pg_invar db' \<and> recover_spec (pe_ts env (Now w)) (pg_abs db) out (pg_abs db')"
  using pg_recover_law [OF assms] by blast

theorem pg_recover_correct_witness:
  "case pg_RecoverExpired sample_env sample_db sample_world of (out, db', w') \<Rightarrow>
     recover_spec (100 * second) (pg_abs sample_db) out (pg_abs db')"
proof -
  obtain out db' w' where e: "pg_RecoverExpired sample_env sample_db sample_world = (out, db', w')" by (metis prod_cases3)
  from pg_recover_correct [OF sample_db_invar e] e show ?thesis by (simp add: Now_def sample_world_def)
qed

text \<open>An over-long failure text cannot be stored: with a reason of more than 4096 characters, Fail and
  Reschedule of a running job are refused by the check constraint, whatever the storage does, and leave
  the job running.\<close>

lemma pg_long_reason_refused:
  assumes "pg_invar db" and "pe_uuid env i = Some i" and "pg_abs db i = Some r" and "is_running (ar_state r)" and "4096 < char_length m"
  shows "(case pg_Fail env i m db w of (e, db', w') \<Rightarrow> (\<exists>x. e = Some x \<and> is_io x) \<and> pg_abs db' = pg_abs db)
    \<and> (case pg_Reschedule env i m d db w of (e, db', w') \<Rightarrow> (\<exists>x. e = Some x \<and> is_io x) \<and> pg_abs db' = pg_abs db)"
proof -
  obtain x where x: "x \<in> set (db_jobs db)" "row_id x = i" "row_status x = ''running''"
    using assms(3,4) by (auto simp: pg_abs_def tbl_abs_def dest!: tbl_mem)
  have no: "\<not> list_all (\<lambda>r. i = row_id r \<and> row_status r = ''running'' \<longrightarrow> row_check (f r)) (db_jobs db)"
    if "\<And>r. row_last_error (f r) = Some m" for f :: "'a row \<Rightarrow> 'a row"
    using x assms(5) that by (auto simp: list_all_iff row_check_def intro!: bexI [of _ x])
  have "pg_update_running env op i f db = (Some (Wrapf op (IOError ''new row violates check constraint'')), next_stmt db)"
    if "\<And>r. row_last_error (f r) = Some m" for op and f :: "'a row \<Rightarrow> 'a row"
    using no [OF that] assms(2) by (simp add: pg_update_running_def pg_update_def refuse_def)
  then show ?thesis
    by (simp add: pg_Fail_def pg_Reschedule_def Let_def pg_abs_def next_stmt_def)
qed

end
