(* ===== verification/Quote_Repo.thy ===== *)
theory Quote_Repo
  imports Rates_Provider Job_Queue
begin

text \<open>
  The store of latest quotes: the interface \<open>internal/quoterepo/quoterepo.go\<close> as a record of
  operations with the locale \<open>quote_repo\<close>, the in-memory double \<open>memquoterepo\<close> and the Postgres
  store \<open>pgquoterepo\<close>. A batch is written one quote at a time, so a failing batch leaves a
  prefix behind; the contract says so, and says that a batch that succeeded is read back, last
  write first.
\<close>

section \<open>The interface\<close>

record ('s, 'd) repo_ops =
  UpsertBatch :: "'d quote list \<Rightarrow> 's \<Rightarrow> world \<Rightarrow> error option \<times> 's \<times> world"
  GetLatest :: "string \<Rightarrow> string \<Rightarrow> 's \<Rightarrow> world \<Rightarrow> (error + 'd quote) \<times> 's \<times> world"

type_synonym 'd arepo = "pair \<rightharpoonup> 'd quote"

fun upserted :: "(time \<Rightarrow> time) \<Rightarrow> 'd quote list \<Rightarrow> 'd arepo \<Rightarrow> 'd arepo" where
  "upserted ts [] m = m"
| "upserted ts (q # qs) m = upserted ts qs (m(quo_Pair q \<mapsto> q\<lparr>quo_FetchedAt := ts (quo_FetchedAt q)\<rparr>))"

definition upsert_spec :: "(time \<Rightarrow> time) \<Rightarrow> 'd quote list \<Rightarrow> 'd arepo \<Rightarrow> error option \<Rightarrow> 'd arepo \<Rightarrow> bool" where
  "upsert_spec ts qs m e m' \<longleftrightarrow>
     (case e of
        None \<Rightarrow> m' = upserted ts qs m
      | Some x \<Rightarrow> is_io x \<and> (\<exists>k \<le> length qs. m' = upserted ts (take k qs) m))"

definition latest_spec :: "('d \<Rightarrow> 'd) \<Rightarrow> pair \<Rightarrow> 'd arepo \<Rightarrow> error + 'd quote \<Rightarrow> bool" where
  "latest_spec rb p m out \<longleftrightarrow>
     (case out of
        Inr q \<Rightarrow> \<exists>x. m p = Some x \<and> q = x\<lparr>quo_Pair := p, quo_Price := rb (quo_Price x)\<rparr>
      | Inl e \<Rightarrow> if is_io e then True else e = ErrNoData \<and> m p = None)"

lemma upserted_append: "upserted ts (xs @ ys) m = upserted ts ys (upserted ts xs m)"
  by (induction xs arbitrary: m) auto

lemma upserted_other: "p \<notin> quo_Pair ` set qs \<Longrightarrow> upserted ts qs m p = m p"
  by (induction qs arbitrary: m) auto

lemma upserted_last:
  assumes "quo_Pair q \<notin> quo_Pair ` set rest"
  shows "upserted ts (qs @ q # rest) m (quo_Pair q) = Some (q\<lparr>quo_FetchedAt := ts (quo_FetchedAt q)\<rparr>)"
  using upserted_other [OF assms] by (simp add: upserted_append)

locale quote_repo =
  fixes rops :: "('s, 'd) repo_ops"
    and absr :: "'s \<Rightarrow> 'd arepo"
    and rinvar :: "'s \<Rightarrow> bool"
    and rts :: "time \<Rightarrow> time"
    and ok_pair :: "pair \<Rightarrow> bool"
    and rquiet :: "'s \<Rightarrow> bool"
    and rreadback :: "'d \<Rightarrow> 'd"
  assumes upsert_law: "rinvar s \<Longrightarrow> \<forall>q \<in> set qs. ok_pair (quo_Pair q) \<Longrightarrow> UpsertBatch rops qs s w = (e, s', w') \<Longrightarrow>
          rinvar s' \<and> w' = w \<and> upsert_spec rts qs (absr s) e (absr s')"
    and upsert_quiet: "rquiet s \<Longrightarrow> rinvar s \<Longrightarrow> \<forall>q \<in> set qs. ok_pair (quo_Pair q) \<Longrightarrow>
          UpsertBatch rops qs s w = (e, s', w') \<Longrightarrow> rquiet s' \<and> e = None"
    and latest_law: "rinvar s \<Longrightarrow> ok_pair (Pair b q) \<Longrightarrow> GetLatest rops b q s w = (out, s', w') \<Longrightarrow>
          rinvar s' \<and> w' = w \<and> absr s' = absr s \<and> latest_spec rreadback (Pair b q) (absr s) out"
begin

text \<open>Read your writes: after a batch that succeeded, the latest quote of a pair is the last
  one the batch held for it.\<close>

lemma latest_after_upsert:
  assumes inv: "rinvar s" and ok: "\<forall>x \<in> set (qs @ q # rest). ok_pair (quo_Pair x)"
    and last: "quo_Pair q \<notin> quo_Pair ` set rest"
    and ups: "UpsertBatch rops (qs @ q # rest) s w = (None, s1, w1)"
    and get: "GetLatest rops (Base (quo_Pair q)) (Quote (quo_Pair q)) s1 w2 = (out, s2, w3)"
  shows "out = Inr (q\<lparr>quo_Price := rreadback (quo_Price q), quo_FetchedAt := rts (quo_FetchedAt q)\<rparr>)
       \<or> (\<exists>e. out = Inl e \<and> is_io e)"
proof -
  have up: "rinvar s1" "absr s1 (quo_Pair q) = Some (q\<lparr>quo_FetchedAt := rts (quo_FetchedAt q)\<rparr>)"
    using upsert_law [OF inv ok ups] upserted_last [OF last] by (auto simp: upsert_spec_def)
  have "ok_pair (Pair (Base (quo_Pair q)) (Quote (quo_Pair q)))" using ok by simp
  from latest_law [OF up(1) this get] up(2) show ?thesis
    by (cases out) (auto simp: latest_spec_def split: if_splits)
qed

end

section \<open>In memory\<close>

record 'd mem_repo =
  mrepo_quotes :: "(pair \<times> 'd quote) list"

definition memrepo_New :: "'d mem_repo" where
  "memrepo_New = \<lparr>mrepo_quotes = []\<rparr>"

definition memrepo_UpsertBatch :: "'d quote list \<Rightarrow> 'd mem_repo \<Rightarrow> world \<Rightarrow> error option \<times> 'd mem_repo \<times> world" where
  "memrepo_UpsertBatch qs r w =
     (None, r\<lparr>mrepo_quotes := fold (\<lambda>q m. AList.update (quo_Pair q) q m) qs (mrepo_quotes r)\<rparr>, w)"

definition memrepo_Get :: "pair \<Rightarrow> 'd mem_repo \<Rightarrow> 'd quote option" where
  "memrepo_Get p r = map_of (mrepo_quotes r) p"

definition memrepo_GetLatest ::
    "string \<Rightarrow> string \<Rightarrow> 'd mem_repo \<Rightarrow> world \<Rightarrow> (error + 'd quote) \<times> 'd mem_repo \<times> world" where
  "memrepo_GetLatest base quote r w =
     (case map_of (mrepo_quotes r) (Pair base quote) of
        None \<Rightarrow> (Inl ErrNoData, r, w)
      | Some q \<Rightarrow> (Inr q, r, w))"

definition memrepo_Len :: "'d mem_repo \<Rightarrow> nat" where
  "memrepo_Len r = length (mrepo_quotes r)"

definition memrepo_ops :: "('d mem_repo, 'd) repo_ops" where
  "memrepo_ops = \<lparr>UpsertBatch = memrepo_UpsertBatch, GetLatest = memrepo_GetLatest\<rparr>"

declare memrepo_ops_def [op_defs]

definition memrepo_abs :: "'d mem_repo \<Rightarrow> 'd arepo" where
  "memrepo_abs r = map_of (mrepo_quotes r)"

definition memrepo_invar :: "'d mem_repo \<Rightarrow> bool" where
  "memrepo_invar r \<longleftrightarrow> distinct (map fst (mrepo_quotes r)) \<and> (\<forall>p q. map_of (mrepo_quotes r) p = Some q \<longrightarrow> quo_Pair q = p)"

lemma fold_update_map:
  "map_of (fold (\<lambda>q m. AList.update (quo_Pair q) q m) qs xs) = upserted (\<lambda>t. t) qs (map_of xs)"
  by (induction qs arbitrary: xs) (simp_all add: update_conv')

lemma fold_update_distinct:
  "distinct (map fst xs) \<Longrightarrow> distinct (map fst (fold (\<lambda>q m. AList.update (quo_Pair q) q m) qs xs))"
  by (induction qs arbitrary: xs) (simp_all add: distinct_update)

lemma upserted_pairs:
  "(\<forall>p q. m p = Some q \<longrightarrow> quo_Pair q = p) \<Longrightarrow> upserted ts qs m p = Some q \<Longrightarrow> quo_Pair q = p"
proof (induction qs arbitrary: m)
  case (Cons x qs)
  have "\<forall>p q. (m(quo_Pair x \<mapsto> x\<lparr>quo_FetchedAt := ts (quo_FetchedAt x)\<rparr>)) p = Some q \<longrightarrow> quo_Pair q = p"
    using Cons.prems(1) by auto
  with Cons.prems(2) show ?case unfolding upserted.simps by (rule Cons.IH [rotated])
qed simp

lemma memrepo_upsert_law:
  assumes "memrepo_invar r" and "memrepo_UpsertBatch qs r w = (e, r', w')"
  shows "memrepo_invar r' \<and> w' = w \<and> upsert_spec (\<lambda>t. t) qs (memrepo_abs r) e (memrepo_abs r') \<and> e = None"
proof -
  have r': "mrepo_quotes r' = fold (\<lambda>q m. AList.update (quo_Pair q) q m) qs (mrepo_quotes r)" "e = None" "w' = w"
    using assms(2) by (auto simp: memrepo_UpsertBatch_def)
  have "distinct (map fst (mrepo_quotes r'))"
    unfolding r'(1) using assms(1) by (intro fold_update_distinct) (simp add: memrepo_invar_def)
  moreover have "quo_Pair q = p" if "map_of (mrepo_quotes r') p = Some q" for p q
    using that assms(1) upserted_pairs [of "map_of (mrepo_quotes r)"] unfolding r'(1) fold_update_map memrepo_invar_def by blast
  ultimately show ?thesis
    using r' by (simp add: memrepo_invar_def upsert_spec_def memrepo_abs_def fold_update_map)
qed

interpretation memrepo: quote_repo memrepo_ops memrepo_abs memrepo_invar "\<lambda>t. t" "\<lambda>p. True" "\<lambda>s. True" "\<lambda>p. p"
proof (unfold_locales, goal_cases)
  case (1 s qs w e s' w')
  then have "memrepo_UpsertBatch qs s w = (e, s', w')" by (simp add: op_defs)
  from memrepo_upsert_law [OF 1(1) this] show ?case by blast
next
  case (2 s qs w e s' w')
  then have "memrepo_UpsertBatch qs s w = (e, s', w')" by (simp add: op_defs)
  from memrepo_upsert_law [OF 2(2) this] show ?case by blast
next
  case (3 s b q w out s' w')
  then show ?case
    by (auto simp: op_defs memrepo_GetLatest_def memrepo_abs_def latest_spec_def memrepo_invar_def split: option.splits)
qed

section \<open>Postgres\<close>

text \<open>
  The table \<open>quotes\<close> of migration 3: primary key \<open>(base, quote)\<close>, both \<open>CHAR(3)\<close>, and
  \<open>CHECK (base <> quote)\<close>. As in \<open>Pgqueue\<close>, a statement can fail before or after it took
  effect. A \<open>CHAR\<close> comparison ignores trailing blanks.
\<close>

record 'd quote_row =
  qrow_price :: 'd
  qrow_updated_at :: time

record 'd quote_db =
  qdb_rows :: "(pair \<times> 'd quote_row) list"
  qdb_stmt :: nat
  qdb_fault :: "nat \<Rightarrow> (string \<times> bool) option"

record 'd quote_env =
  qe_ts :: "time \<Rightarrow> time"
  qe_numeric_text :: "'d \<Rightarrow> string"
  qe_NewFromString :: "string \<Rightarrow> 'd option"

definition rtrim :: "string \<Rightarrow> string" where
  "rtrim s = rev (dropWhile (\<lambda>c. c = CHR '' '') (rev s))"

definition bpchar_eq :: "string \<Rightarrow> string \<Rightarrow> bool" where
  "bpchar_eq s t \<longleftrightarrow> rtrim s = rtrim t"

definition qdb_next :: "'d quote_db \<Rightarrow> 'd quote_db" where
  "qdb_next db = db\<lparr>qdb_stmt := Suc (qdb_stmt db)\<rparr>"

definition pgrepo_upsert_one :: "'d quote_env \<Rightarrow> 'd quote \<Rightarrow> 'd quote_db \<Rightarrow> error option \<times> 'd quote_db" where
  "pgrepo_upsert_one env q db =
     (case (bpchar3 (Base (quo_Pair q)), bpchar3 (Quote (quo_Pair q))) of
        (Some b, Some c) \<Rightarrow>
          (if b = c then (Some (IOError ''new row violates check constraint no_self_pair''), qdb_next db)
           else
             let db' = (qdb_next db)\<lparr>qdb_rows := AList.update (Pair b c)
                         \<lparr>qrow_price = quo_Price q, qrow_updated_at = qe_ts env (quo_FetchedAt q)\<rparr> (qdb_rows db)\<rparr>
             in case qdb_fault db (qdb_stmt db) of
                  None \<Rightarrow> (None, db')
                | Some (m, applied) \<Rightarrow> (Some (IOError m), if applied then db' else qdb_next db))
      | _ \<Rightarrow> (Some (IOError ''value too long for type character(3)''), qdb_next db))"

fun pgrepo_upsert :: "'d quote_env \<Rightarrow> 'd quote list \<Rightarrow> 'd quote_db \<Rightarrow> error option \<times> 'd quote_db" where
  "pgrepo_upsert env [] db = (None, db)"
| "pgrepo_upsert env (q # qs) db =
     (case pgrepo_upsert_one env q db of
        (None, db') \<Rightarrow> pgrepo_upsert env qs db'
      | (Some e, db') \<Rightarrow>
          (Some (Wrapf (''pgquoterepo upsert ('' @ Base (quo_Pair q) @ ''/'' @ Quote (quo_Pair q) @ '')'') e), db'))"

definition pgrepo_UpsertBatch ::
    "'d quote_env \<Rightarrow> 'd quote list \<Rightarrow> 'd quote_db \<Rightarrow> world \<Rightarrow> error option \<times> 'd quote_db \<times> world" where
  "pgrepo_UpsertBatch env qs db w = (case pgrepo_upsert env qs db of (e, db') \<Rightarrow> (e, db', w))"

definition pgrepo_GetLatest ::
    "'d quote_env \<Rightarrow> string \<Rightarrow> string \<Rightarrow> 'd quote_db \<Rightarrow> world \<Rightarrow> (error + 'd quote) \<times> 'd quote_db \<times> world" where
  "pgrepo_GetLatest env base quote db w =
     (case qdb_fault db (qdb_stmt db) of
        Some (m, _) \<Rightarrow> (Inl (Wrapf ''pgquoterepo get latest'' (IOError m)), qdb_next db, w)
      | None \<Rightarrow>
          (case find (\<lambda>(p, r). bpchar_eq (Base p) base \<and> bpchar_eq (Quote p) quote) (qdb_rows db) of
             None \<Rightarrow> (Inl ErrNoData, qdb_next db, w)
           | Some (p, r) \<Rightarrow>
               (case qe_NewFromString env (qe_numeric_text env (qrow_price r)) of
                  None \<Rightarrow> (Inl (Wrapf ''pgquoterepo get latest: parse price'' (IOError ''cannot convert to decimal'')), qdb_next db, w)
                | Some d \<Rightarrow> (Inr \<lparr>quo_Pair = Pair base quote, quo_Price = d, quo_FetchedAt = qrow_updated_at r\<rparr>, qdb_next db, w))))"

definition pgrepo_ops :: "'d quote_env \<Rightarrow> ('d quote_db, 'd) repo_ops" where
  "pgrepo_ops env = \<lparr>UpsertBatch = pgrepo_UpsertBatch env, GetLatest = pgrepo_GetLatest env\<rparr>"

declare pgrepo_ops_def [op_defs]

definition row_quote_of :: "pair \<Rightarrow> 'd quote_row \<Rightarrow> 'd quote" where
  "row_quote_of p r = \<lparr>quo_Pair = p, quo_Price = qrow_price r, quo_FetchedAt = qrow_updated_at r\<rparr>"

definition pgrepo_abs :: "'d quote_db \<Rightarrow> 'd arepo" where
  "pgrepo_abs db = (\<lambda>p. map_option (row_quote_of p) (map_of (qdb_rows db) p))"

definition pgrepo_invar :: "'d quote_db \<Rightarrow> bool" where
  "pgrepo_invar db \<longleftrightarrow> (\<forall>(p, r) \<in> set (qdb_rows db). length (Base p) = 3 \<and> length (Quote p) = 3)"

definition pgrepo_quiet :: "'d quote_db \<Rightarrow> bool" where
  "pgrepo_quiet db \<longleftrightarrow> (\<forall>n. qdb_fault db n = None)"

definition pgrepo_ok :: "pair \<Rightarrow> bool" where
  "pgrepo_ok p \<longleftrightarrow> length (Base p) = 3 \<and> length (Quote p) = 3 \<and> Base p \<noteq> Quote p"

definition pgrepo_readback :: "'d quote_env \<Rightarrow> 'd \<Rightarrow> 'd" where
  "pgrepo_readback env p = (case qe_NewFromString env (qe_numeric_text env p) of None \<Rightarrow> p | Some d \<Rightarrow> d)"

lemma rtrim_pad: "s = rtrim s @ replicate (length s - length (rtrim s)) (CHR '' '')"
proof -
  let ?t = "takeWhile (\<lambda>c. c = CHR '' '') (rev s)"
  have "rev s = ?t @ dropWhile (\<lambda>c. c = CHR '' '') (rev s)" by simp
  then have s: "s = rtrim s @ rev ?t" unfolding rtrim_def by (metis rev_append rev_rev_ident)
  have "?t = replicate (length ?t) (CHR '' '')" by (rule replicate_eqI [symmetric, THEN sym]) (auto dest: set_takeWhileD)
  moreover have "length ?t = length s - length (rtrim s)" using arg_cong [OF s, of length] by simp
  ultimately show ?thesis using s by (metis rev_replicate)
qed

lemma bpchar_eq_same_length: "length s = length t \<Longrightarrow> bpchar_eq s t \<longleftrightarrow> s = t"
  unfolding bpchar_eq_def by (metis rtrim_pad)

lemma find_quote_row:
  assumes "\<forall>(p, r) \<in> set rows. length (Base p) = 3 \<and> length (Quote p) = 3" and "length b = 3" and "length q = 3"
  shows "find (\<lambda>(p, r). bpchar_eq (Base p) b \<and> bpchar_eq (Quote p) q) rows = map_option (Product_Type.Pair (Pair b q)) (map_of rows (Pair b q))"
  using assms
proof (induction rows)
  case (Cons x rows)
  obtain b' q' r where x: "x = (Pair b' q', r)" by (metis pair.exhaust prod.exhaust)
  with Cons show ?case by (auto simp: bpchar_eq_same_length)
qed simp

lemma pgrepo_upsert_one_law:
  assumes inv: "pgrepo_invar db" and ok: "pgrepo_ok (quo_Pair q)" and up: "pgrepo_upsert_one env q db = (e, db')"
  shows "pgrepo_invar db' \<and> qdb_fault db' = qdb_fault db
    \<and> (case e of
         None \<Rightarrow> pgrepo_abs db' = (pgrepo_abs db)(quo_Pair q \<mapsto> q\<lparr>quo_FetchedAt := qe_ts env (quo_FetchedAt q)\<rparr>)
       | Some x \<Rightarrow> is_io x \<and> \<not> pgrepo_quiet db \<and> (pgrepo_abs db' = pgrepo_abs db
           \<or> pgrepo_abs db' = (pgrepo_abs db)(quo_Pair q \<mapsto> q\<lparr>quo_FetchedAt := qe_ts env (quo_FetchedAt q)\<rparr>)))"
proof -
  obtain b c where p: "quo_Pair q = Pair b c" by (cases "quo_Pair q")
  have bc: "bpchar3 b = Some b" "bpchar3 c = Some c" "b \<noteq> c" "length b = 3" "length c = 3"
    using ok p by (auto simp: pgrepo_ok_def bpchar3_exact)
  define r where "r = \<lparr>qrow_price = quo_Price q, qrow_updated_at = qe_ts env (quo_FetchedAt q)\<rparr>"
  define db1 where "db1 = (qdb_next db)\<lparr>qdb_rows := AList.update (Pair b c) r (qdb_rows db)\<rparr>"
  have row: "row_quote_of (Pair b c) r = q\<lparr>quo_FetchedAt := qe_ts env (quo_FetchedAt q)\<rparr>"
    using p by (simp add: row_quote_of_def r_def)
  have abs1: "pgrepo_abs db1 = (pgrepo_abs db)(Pair b c \<mapsto> q\<lparr>quo_FetchedAt := qe_ts env (quo_FetchedAt q)\<rparr>)"
    using row by (auto simp: pgrepo_abs_def db1_def update_conv')
  have inv1: "pgrepo_invar db1"
    using set_update_subset [of "Pair b c" r "qdb_rows db"] inv bc by (fastforce simp: pgrepo_invar_def db1_def)
  have next1: "pgrepo_invar (qdb_next db)" "pgrepo_abs (qdb_next db) = pgrepo_abs db" "qdb_fault (qdb_next db) = qdb_fault db"
      "qdb_fault db1 = qdb_fault db"
    using inv by (simp_all add: pgrepo_invar_def pgrepo_abs_def qdb_next_def db1_def)
  have up': "(e, db') = (case qdb_fault db (qdb_stmt db) of None \<Rightarrow> (None, db1)
      | Some (m, applied) \<Rightarrow> (Some (IOError m), if applied then db1 else qdb_next db))"
    using up bc p unfolding pgrepo_upsert_one_def Let_def r_def db1_def by simp
  show ?thesis
  proof (cases "qdb_fault db (qdb_stmt db)")
    case None
    then show ?thesis using up' inv1 abs1 next1 p by simp
  next
    case (Some f)
    then have "\<not> pgrepo_quiet db" unfolding pgrepo_quiet_def by (metis option.distinct(1))
    with Some up' inv1 abs1 next1 p show ?thesis by (cases f) (auto split: if_splits)
  qed
qed

lemma pgrepo_upsert_law:
  assumes "pgrepo_invar db" and "\<forall>q \<in> set qs. pgrepo_ok (quo_Pair q)" and "pgrepo_upsert env qs db = (e, db')"
  shows "pgrepo_invar db' \<and> qdb_fault db' = qdb_fault db \<and> upsert_spec (qe_ts env) qs (pgrepo_abs db) e (pgrepo_abs db')
    \<and> (pgrepo_quiet db \<longrightarrow> e = None)"
  using assms
proof (induction qs arbitrary: db)
  case Nil
  then show ?case by (simp add: upsert_spec_def)
next
  case (Cons q qs)
  obtain e1 db1 where one: "pgrepo_upsert_one env q db = (e1, db1)" by force
  have ok: "pgrepo_ok (quo_Pair q)" using Cons.prems(2) by simp
  note law = pgrepo_upsert_one_law [OF Cons.prems(1) ok one]
  show ?case
  proof (cases e1)
    case None
    then have rest: "pgrepo_upsert env qs db1 = (e, db')" using Cons.prems(3) one by simp
    have "pgrepo_quiet db1 = pgrepo_quiet db" using law by (simp add: pgrepo_quiet_def)
    moreover have ih: "pgrepo_invar db' \<and> qdb_fault db' = qdb_fault db1 \<and> upsert_spec (qe_ts env) qs (pgrepo_abs db1) e (pgrepo_abs db')
      \<and> (pgrepo_quiet db1 \<longrightarrow> e = None)"
      using Cons.IH [OF _ _ rest] law Cons.prems(2) by simp
    moreover have "upsert_spec (qe_ts env) (q # qs) (pgrepo_abs db) e (pgrepo_abs db')"
    proof (cases e)
      case (Some x)
      with ih obtain k where "is_io x" "k \<le> length qs" "pgrepo_abs db' = upserted (qe_ts env) (take k qs) (pgrepo_abs db1)"
        by (auto simp: upsert_spec_def)
      then have "is_io x" "Suc k \<le> length (q # qs)" "pgrepo_abs db' = upserted (qe_ts env) (take (Suc k) (q # qs)) (pgrepo_abs db)"
        using law None by simp_all
      then show ?thesis unfolding upsert_spec_def Some option.case by blast
    qed (use ih law None in \<open>simp add: upsert_spec_def\<close>)
    ultimately show ?thesis using law by simp
  next
    case (Some x)
    then have e: "e = Some (Wrapf (''pgquoterepo upsert ('' @ Base (quo_Pair q) @ ''/'' @ Quote (quo_Pair q) @ '')'') x)" "db' = db1"
      using Cons.prems(3) one by simp_all
    have "\<exists>k \<le> length (q # qs). pgrepo_abs db1 = upserted (qe_ts env) (take k (q # qs)) (pgrepo_abs db)"
    proof (cases "pgrepo_abs db1 = pgrepo_abs db")
      case True
      then show ?thesis by (intro exI [of _ 0]) simp
    next
      case False
      then show ?thesis using law Some by (intro exI [of _ 1]) simp
    qed
    with e law Some show ?thesis by (simp add: upsert_spec_def)
  qed
qed

interpretation pgrepo: quote_repo "pgrepo_ops env" pgrepo_abs pgrepo_invar "qe_ts env" pgrepo_ok pgrepo_quiet "pgrepo_readback env"
  for env
proof (unfold_locales, goal_cases)
  case (1 s qs w e s' w')
  then have "pgrepo_upsert env qs s = (e, s')" "w' = w"
    by (auto simp: op_defs pgrepo_UpsertBatch_def split: prod.splits)
  from pgrepo_upsert_law [OF 1(1,2) this(1)] this(2) show ?case by blast
next
  case (2 s qs w e s' w')
  then have "pgrepo_upsert env qs s = (e, s')"
    by (auto simp: op_defs pgrepo_UpsertBatch_def split: prod.splits)
  from pgrepo_upsert_law [OF 2(2,3) this] 2(1) show ?case by (simp add: pgrepo_quiet_def)
next
  case (3 s b q w out s' w')
  have find: "find (\<lambda>(p, r). bpchar_eq (Base p) b \<and> bpchar_eq (Quote p) q) (qdb_rows s)
      = map_option (Product_Type.Pair (Pair b q)) (map_of (qdb_rows s) (Pair b q))"
    by (rule find_quote_row) (use 3 in \<open>auto simp: pgrepo_invar_def pgrepo_ok_def\<close>)
  have s': "s' = qdb_next s" "w' = w" using 3(3)
    by (auto simp: op_defs pgrepo_GetLatest_def split: option.splits prod.splits)
  have "latest_spec (pgrepo_readback env) (Pair b q) (pgrepo_abs s) out"
    using 3(3)
    by (auto simp: op_defs pgrepo_GetLatest_def find latest_spec_def pgrepo_abs_def row_quote_of_def
        pgrepo_readback_def split: option.splits prod.splits)
  with s' 3(1) show ?case by (simp add: pgrepo_invar_def pgrepo_abs_def qdb_next_def)
qed

section \<open>Properties\<close>

text \<open>An environment with microsecond timestamps and integer prices, and an empty table.\<close>

definition sample_renv :: "int quote_env" where
  "sample_renv = \<lparr>qe_ts = (\<lambda>t. t div 1000 * 1000), qe_numeric_text = show_int, qe_NewFromString = Atoi\<rparr>"

definition sample_quotes :: "int quote_db" where
  "sample_quotes = \<lparr>qdb_rows = [], qdb_stmt = 0, qdb_fault = (\<lambda>n. None)\<rparr>"

text \<open>C27: Read your writes in Postgres. With no storage failure ahead, and a driver that reads a stored price back as it was
  written, an upsert of pairs the table can hold succeeds, and a lookup afterwards returns the last quote the
  batch held for the pair, at the precision of the timestamp column; pairs outside the batch keep their quote.\<close>

theorem pgrepo_read_your_writes:
  assumes "pgrepo_invar db" and "pgrepo_quiet db" and "\<forall>x \<in> set (qs @ q # rest). pgrepo_ok (quo_Pair x)"
    and "quo_Pair q \<notin> quo_Pair ` set rest"
    and "qe_NewFromString env (qe_numeric_text env (quo_Price q)) = Some (quo_Price q)"
  shows "\<exists>db1. pgrepo_UpsertBatch env (qs @ q # rest) db w = (None, db1, w) \<and> pgrepo_invar db1
    \<and> fst (pgrepo_GetLatest env (Base (quo_Pair q)) (Quote (quo_Pair q)) db1 w1) = Inr (q\<lparr>quo_FetchedAt := qe_ts env (quo_FetchedAt q)\<rparr>)
    \<and> (\<forall>p. p \<notin> quo_Pair ` set (qs @ q # rest) \<longrightarrow> pgrepo_abs db1 p = pgrepo_abs db p)"
proof -
  obtain e db1 where up: "pgrepo_upsert env (qs @ q # rest) db = (e, db1)" by force
  note law = pgrepo_upsert_law [OF assms(1,3) up]
  then have e: "e = None" and inv1: "pgrepo_invar db1" and quiet1: "pgrepo_quiet db1"
    and abs1: "pgrepo_abs db1 = upserted (qe_ts env) (qs @ q # rest) (pgrepo_abs db)"
    using assms(2) by (auto simp: upsert_spec_def pgrepo_quiet_def)
  have row: "pgrepo_abs db1 (quo_Pair q) = Some (q\<lparr>quo_FetchedAt := qe_ts env (quo_FetchedAt q)\<rparr>)"
    unfolding abs1 by (rule upserted_last [OF assms(4)])
  obtain b c where p: "quo_Pair q = Pair b c" by (cases "quo_Pair q")
  have len: "length b = 3" "length c = 3" using assms(3) p by (auto simp: pgrepo_ok_def)
  obtain r where r: "map_of (qdb_rows db1) (Pair b c) = Some r" "row_quote_of (Pair b c) r = q\<lparr>quo_FetchedAt := qe_ts env (quo_FetchedAt q)\<rparr>"
    using row p by (auto simp: pgrepo_abs_def)
  have price: "qrow_price r = quo_Price q" "qrow_updated_at r = qe_ts env (quo_FetchedAt q)"
    using r(2) by (auto simp: row_quote_of_def dest: arg_cong [of _ _ quo_Price] arg_cong [of _ _ quo_FetchedAt])
  have find: "find (\<lambda>(p, r). bpchar_eq (Base p) b \<and> bpchar_eq (Quote p) c) (qdb_rows db1) = Some (Pair b c, r)"
    using find_quote_row [of "qdb_rows db1" b c] inv1 len r(1) by (simp add: pgrepo_invar_def)
  have "fst (pgrepo_GetLatest env b c db1 w1) = Inr (q\<lparr>quo_FetchedAt := qe_ts env (quo_FetchedAt q)\<rparr>)"
    using quiet1 find assms(5) price p by (simp add: pgrepo_GetLatest_def pgrepo_quiet_def)
  moreover have "pgrepo_abs db1 x = pgrepo_abs db x" if "x \<notin> quo_Pair ` set (qs @ q # rest)" for x
    unfolding abs1 by (rule upserted_other [OF that])
  ultimately show ?thesis using up e inv1 p by (simp add: pgrepo_UpsertBatch_def)
qed

theorem pgrepo_read_your_writes_witness:
  "\<exists>db1. pgrepo_UpsertBatch sample_renv [\<lparr>quo_Pair = Pair ''EUR'' ''MXN'', quo_Price = 20, quo_FetchedAt = 1234\<rparr>] sample_quotes sample_world = (None, db1, sample_world)
     \<and> fst (pgrepo_GetLatest sample_renv ''EUR'' ''MXN'' db1 sample_world) = Inr \<lparr>quo_Pair = Pair ''EUR'' ''MXN'', quo_Price = 20, quo_FetchedAt = 1000\<rparr>"
proof -
  let ?q = "\<lparr>quo_Pair = Pair ''EUR'' ''MXN'', quo_Price = 20, quo_FetchedAt = 1234\<rparr> :: int quote"
  have h: "pgrepo_invar sample_quotes" "pgrepo_quiet sample_quotes" "\<forall>x \<in> set ([] @ ?q # []). pgrepo_ok (quo_Pair x)"
      "quo_Pair ?q \<notin> quo_Pair ` set ([] :: int quote list)"
      "qe_NewFromString sample_renv (qe_numeric_text sample_renv (quo_Price ?q)) = Some (quo_Price ?q)"
    by (simp_all add: sample_quotes_def sample_renv_def pgrepo_invar_def pgrepo_quiet_def pgrepo_ok_def Atoi_show_int int64_ok_def)
  from pgrepo_read_your_writes [OF h, of sample_world sample_world] show ?thesis by (auto simp: sample_renv_def)
qed

end
