(* ===== verification/Apilayer.thy ===== *)
theory Apilayer
  imports Rates_Provider Obs "HOL-Library.List_Lexorder" "HOL-Library.Char_ord"
begin

text \<open>
  The two implementations of \<open>RatesProvider\<close>: the client of the upstream rates service,
  \<open>internal/ratesprovider/apilayer/apilayer.go\<close>, and the hand-written double
  \<open>internal/ratesprovider/fake/fake.go\<close>. The HTTP transport, the JSON decoder and the iteration
  orders of the two Go maps are fields of \<open>apilayer_env\<close>; the state of the upstream is the
  type variable \<open>'p\<close>. Both implementations interpret \<open>rates_provider\<close>.
\<close>

section \<open>Requests and responses\<close>

record http_resp =
  resp_StatusCode :: int
  resp_Body :: string

record 'd api_response =
  api_Success :: bool
  api_Timestamp :: int
  api_Source :: string
  api_Quotes :: "(string \<times> 'd) list"
  api_Error :: "(int \<times> string \<times> string) option"

record ('p, 'd) apilayer_env =
  al_APIKey :: string
  al_BaseURL :: string
  al_NewRequest :: "string \<Rightarrow> error option"
  al_Do :: "string \<Rightarrow> 'p \<Rightarrow> (error + http_resp) \<times> 'p"
  al_Decode :: "string \<Rightarrow> error + 'd api_response"
  al_range_bases :: "string list \<Rightarrow> string list"
  al_range_targets :: "string list \<Rightarrow> string list"
  al_range_quotes :: "(string \<times> 'd) list \<Rightarrow> (string \<times> 'd) list"

text \<open>\<open>url.QueryEscape\<close>, and \<open>url.Values.Encode\<close> on the three keys, which it sorts.\<close>

definition url_hex_digit :: "nat \<Rightarrow> char" where
  "url_hex_digit n = (if n < 10 then char_of (48 + n) else char_of (55 + n))"

definition url_unreserved :: "char \<Rightarrow> bool" where
  "url_unreserved c \<longleftrightarrow>
     (let n = (of_char c :: nat)
      in 48 \<le> n \<and> n \<le> 57 \<or> 65 \<le> n \<and> n \<le> 90 \<or> 97 \<le> n \<and> n \<le> 122
         \<or> c = CHR ''-'' \<or> c = CHR ''_'' \<or> c = CHR ''.'' \<or> c = CHR ''~'')"

definition QueryEscape :: "string \<Rightarrow> string" where
  "QueryEscape s =
     concat (map (\<lambda>c. if url_unreserved c then [c] else if c = CHR '' '' then ''+''
                      else [CHR ''%'', url_hex_digit (of_char c div 16), url_hex_digit (of_char c mod 16)]) s)"

definition live_url :: "('p, 'd) apilayer_env \<Rightarrow> string \<Rightarrow> string list \<Rightarrow> string" where
  "live_url env base targets =
     al_BaseURL env @ ''/live?'' @ ''access_key='' @ QueryEscape (al_APIKey env)
     @ ''&currencies='' @ QueryEscape (join_with '','' targets) @ ''&source='' @ QueryEscape base"

section \<open>Grouping\<close>

definition targets_of :: "('p, 'd) apilayer_env \<Rightarrow> pair list \<Rightarrow> string \<Rightarrow> string list" where
  "targets_of env pairs base =
     reorder (al_range_targets env) (remdups (map Quote (filter (\<lambda>p. Base p = base) pairs)))"

definition sorted_bases :: "('p, 'd) apilayer_env \<Rightarrow> pair list \<Rightarrow> string list" where
  "sorted_bases env pairs = sort (reorder (al_range_bases env) (remdups (map Base pairs)))"

section \<open>One upstream call\<close>

definition provider_failure ::
    "time \<Rightarrow> error \<Rightarrow> world \<Rightarrow> (error + (pair \<rightharpoonup> 'd quote)) \<times> world" where
  "provider_failure start e w =
     (Inl e, emit (Observe MetricRatesProviderRequestDurationSeconds [''apilayer''] (Now w - start))
               (emit (Inc MetricRatesProviderRequestsTotal [''apilayer'', Code e]) (tick w)))"

definition api_outcome :: "int \<Rightarrow> string" where
  "api_outcome apiCode = (if apiCode = 104 then ''quota_exceeded'' else ''permanent'')"

fun add_quotes ::
    "string \<Rightarrow> time \<Rightarrow> (string \<times> 'd) list \<Rightarrow> (pair \<rightharpoonup> 'd quote) \<Rightarrow> world \<Rightarrow> (pair \<rightharpoonup> 'd quote) \<times> world" where
  "add_quotes base fetchedAt [] m w = (m, w)"
| "add_quotes base fetchedAt ((key, price) # rest) m w =
     (if length key \<noteq> 6
      then add_quotes base fetchedAt rest m
             (emit (Inc MetricRatesProviderResponseAnomaliesTotal [''apilayer'', ''malformed_quote_key'']) w)
      else if take 3 key \<noteq> base then add_quotes base fetchedAt rest m w
      else
        let pair = Pair (take 3 key) (drop 3 key)
        in add_quotes base fetchedAt rest
             (m(pair \<mapsto> \<lparr>quo_Pair = pair, quo_Price = price, quo_FetchedAt = fetchedAt\<rparr>)) w)"

definition fetch_base ::
    "('p, 'd) apilayer_env \<Rightarrow> pair list \<Rightarrow> string \<Rightarrow> (pair \<rightharpoonup> 'd quote) \<Rightarrow> 'p \<Rightarrow> world
      \<Rightarrow> ((error + (pair \<rightharpoonup> 'd quote)) \<times> world) \<times> 'p" where
  "fetch_base env pairs base m s w0 =
     (let rawURL = live_url env base (targets_of env pairs base); start = Now w0; w = tick w0
      in case al_NewRequest env rawURL of
           Some err \<Rightarrow> (provider_failure start (ProviderError ''transient'' 0 0 ''http request failed'' (Some err)) w, s)
         | None \<Rightarrow>
             (case al_Do env rawURL s of
                (Inl err, s1) \<Rightarrow>
                  (provider_failure start (ProviderError ''transient'' 0 0 ''http request failed'' (Some err)) w, s1)
              | (Inr resp, s1) \<Rightarrow>
                  (if resp_StatusCode resp \<noteq> 200
                   then (provider_failure start (ProviderError ''transient'' (resp_StatusCode resp) 0 ''http error response'' None) w, s1)
                   else
                     case al_Decode env (resp_Body resp) of
                       Inl err \<Rightarrow>
                         (provider_failure start (ProviderError ''transient'' 0 0 ''malformed response body'' (Some err)) w, s1)
                     | Inr apiResp \<Rightarrow>
                         (if \<not> api_Success apiResp
                          then
                            let (apiCode, message) =
                                  (case api_Error apiResp of None \<Rightarrow> (0, []) | Some (c, ty, info) \<Rightarrow> (c, info))
                            in (provider_failure start (ProviderError (api_outcome apiCode) 0 apiCode message None) w, s1)
                          else
                            case add_quotes base (api_Timestamp apiResp * second)
                                   (reorder (al_range_quotes env) (AList.clearjunk (api_Quotes apiResp))) m w of
                              (m1, w1) \<Rightarrow>
                                ((Inr m1, emit (Observe MetricRatesProviderRequestDurationSeconds [''apilayer''] (Now w1 - start))
                                    (emit (Inc MetricRatesProviderRequestsTotal [''apilayer'', ''ok'']) (tick w1))), s1)))))"

fun fetch_bases ::
    "('p, 'd) apilayer_env \<Rightarrow> pair list \<Rightarrow> string list \<Rightarrow> (pair \<rightharpoonup> 'd quote) \<Rightarrow> 'p \<Rightarrow> world
      \<Rightarrow> (error + (pair \<rightharpoonup> 'd quote)) \<times> 'p \<times> world" where
  "fetch_bases env pairs [] m s w = (Inr m, s, w)"
| "fetch_bases env pairs (b # bs) m s w =
     (case fetch_base env pairs b m s w of
        ((Inl e, w1), s1) \<Rightarrow> (Inl e, s1, w1)
      | ((Inr m1, w1), s1) \<Rightarrow> fetch_bases env pairs bs m1 s1 w1)"

definition apilayer_FetchPairs ::
    "('p, 'd) apilayer_env \<Rightarrow> pair list \<Rightarrow> 'p \<Rightarrow> world \<Rightarrow> (error + 'd fetch_result) \<times> 'p \<times> world" where
  "apilayer_FetchPairs env pairs s w =
     (case fetch_bases env pairs (sorted_bases env pairs) Map.empty s w of
        (Inl e, s1, w1) \<Rightarrow> (Inl e, s1, w1)
      | (Inr m, s1, w1) \<Rightarrow> (Inr \<lparr>fr_Quotes = m, fr_Missing = missing_pairs m {} pairs\<rparr>, s1, w1))"

definition apilayer_ops :: "('p, 'd) apilayer_env \<Rightarrow> ('p, 'd) provider_ops" where
  "apilayer_ops env = \<lparr>FetchPairs = apilayer_FetchPairs env\<rparr>"

declare apilayer_ops_def [op_defs]

section \<open>The double\<close>

record 'd fake_provider =
  fk_Quotes :: "pair \<rightharpoonup> 'd quote"
  fk_BatchError :: "error option"
  fk_Calls :: nat
  fk_LastPairs :: "pair list"

fun fake_collect :: "(pair \<rightharpoonup> 'd quote) \<Rightarrow> time \<Rightarrow> pair list \<Rightarrow> (pair \<rightharpoonup> 'd quote) \<Rightarrow> (pair \<rightharpoonup> 'd quote)" where
  "fake_collect src now [] m = m"
| "fake_collect src now (p # ps) m =
     (case src p of
        Some q \<Rightarrow> fake_collect src now ps (m(p \<mapsto> q\<lparr>quo_FetchedAt := now, quo_Pair := p\<rparr>))
      | None \<Rightarrow> fake_collect src now ps m)"

definition fake_FetchPairs ::
    "pair list \<Rightarrow> 'd fake_provider \<Rightarrow> world \<Rightarrow> (error + 'd fetch_result) \<times> 'd fake_provider \<times> world" where
  "fake_FetchPairs pairs f w =
     (let f1 = f\<lparr>fk_Calls := fk_Calls f + 1, fk_LastPairs := pairs\<rparr>
      in case fk_BatchError f of
           Some e \<Rightarrow> (Inl e, f1, w)
         | None \<Rightarrow>
             let m = fake_collect (fk_Quotes f) (Now w) pairs Map.empty
             in (Inr \<lparr>fr_Quotes = m, fr_Missing = missing_pairs (fk_Quotes f) {} pairs\<rparr>, f1, tick w))"

definition fake_ops :: "('d fake_provider, 'd) provider_ops" where
  "fake_ops = \<lparr>FetchPairs = fake_FetchPairs\<rparr>"

declare fake_ops_def [op_defs]

section \<open>The upstream client\<close>

definition filed :: "(pair \<rightharpoonup> 'd quote) \<Rightarrow> bool" where
  "filed m \<longleftrightarrow> (\<forall>p q. m p = Some q \<longrightarrow> quo_Pair q = p)"

lemma filed_empty [simp]: "filed Map.empty"
  by (simp add: filed_def)

lemma filed_upd: "filed m \<Longrightarrow> quo_Pair q = p \<Longrightarrow> filed (m(p \<mapsto> q))"
  by (simp add: filed_def)

lemma add_quotes_filed: "filed m \<Longrightarrow> filed (fst (add_quotes b t xs m w))"
  by (induction b t xs m w rule: add_quotes.induct) (simp_all add: Let_def filed_upd)

lemma add_quotes_dom: "dom (fst (add_quotes b t xs m w)) \<subseteq> dom m \<union> {p. Base p = b}"
proof (induction xs arbitrary: m w)
  case (Cons x xs)
  obtain key price where x: "x = (key, price)" by force
  have "dom (fst (add_quotes b t xs (m(Pair b (drop 3 key) \<mapsto> \<lparr>quo_Pair = Pair b (drop 3 key), quo_Price = price, quo_FetchedAt = t\<rparr>)) w))
      \<subseteq> dom m \<union> {p. Base p = b}"
    by (rule subset_trans [OF Cons.IH]) (auto split: if_splits)
  with Cons.IH x show ?case by (simp add: Let_def)
qed simp

text \<open>A requested pair is quoted exactly when the response holds its six-character key.\<close>

lemma add_quotes_lookup:
  assumes b: "length b = 3" and q: "length q = 3" and "distinct (map fst xs)"
  shows "fst (add_quotes b t xs m w) (Pair b q) =
    (case map_of xs (b @ q) of Some price \<Rightarrow> Some \<lparr>quo_Pair = Pair b q, quo_Price = price, quo_FetchedAt = t\<rparr> | None \<Rightarrow> m (Pair b q))"
  using assms(3)
proof (induction xs arbitrary: m w)
  case (Cons x xs)
  obtain key price where x: "x = (key, price)" by force
  have dist: "distinct (map fst xs)" and fresh: "key = b @ q \<Longrightarrow> map_of xs (b @ q) = None"
    using Cons.prems x by (auto simp: map_of_eq_None_iff)
  have key: "key = b @ q \<longleftrightarrow> length key = 6 \<and> take 3 key = b \<and> drop 3 key = q"
    using b q by (metis append_eq_conv_conj append_take_drop_id length_append numeral_Bit0)
  show ?case
  proof (cases "length key = 6 \<and> take 3 key = b")
    case False
    then have "key \<noteq> b @ q" using key by blast
    moreover have "\<exists>w'. add_quotes b t (x # xs) m w = add_quotes b t xs m w'" using False x by auto
    ultimately show ?thesis using Cons.IH [OF dist] x by auto
  next
    case True
    let ?m = "m(Pair b (drop 3 key) \<mapsto> \<lparr>quo_Pair = Pair b (drop 3 key), quo_Price = price, quo_FetchedAt = t\<rparr>)"
    have "add_quotes b t (x # xs) m w = add_quotes b t xs ?m w"
      using True x by (simp add: Let_def del: fun_upd_apply)
    then show ?thesis
      by (rule ssubst, subst Cons.IH [OF dist]) (use key True fresh x in \<open>auto split: option.splits\<close>)
  qed
qed simp

lemma add_quotes_counter:
  "counter MetricRatesProviderRequestsTotal l (snd (add_quotes b t xs m w)) = counter MetricRatesProviderRequestsTotal l w"
proof (induction xs arbitrary: m w)
  case (Cons x xs)
  then show ?case by (cases x) (simp add: Let_def metric_names del: fun_upd_apply)
qed simp

definition provider_codes :: "string set" where
  "provider_codes = {''transient'', ''quota_exceeded'', ''permanent''}"

text \<open>The end of a call that answered: what follows the parsing of its quotes.\<close>

definition provider_ok :: "time \<Rightarrow> world \<Rightarrow> world" where
  "provider_ok start w =
     emit (Observe MetricRatesProviderRequestDurationSeconds [''apilayer''] (Now w - start))
       (emit (Inc MetricRatesProviderRequestsTotal [''apilayer'', ''ok'']) (tick w))"

text \<open>The two ways a call ends, with the world it leaves.\<close>

lemma fetch_base_shape:
  assumes "fetch_base env pairs b m s w = ((out, w'), s')"
  obtains (failed) c h a msg cause where "c \<in> provider_codes"
      "(out, w') = provider_failure (Now w) (ProviderError c h a msg cause) (tick w)"
  | (fine) t xs where "out = Inr (fst (add_quotes b t xs m (tick w)))"
      "w' = provider_ok (Now w) (snd (add_quotes b t xs m (tick w)))"
proof -
  let ?u = "live_url env b (targets_of env pairs b)"
  have out: "api_outcome c \<in> provider_codes" for c by (simp add: api_outcome_def provider_codes_def)
  have tr: "''transient'' \<in> provider_codes" by (simp add: provider_codes_def)
  note fail = failed [OF tr sym] failed [OF out sym]
  note unf = assms [unfolded fetch_base_def Let_def]
  show thesis
  proof (cases "al_NewRequest env ?u")
    case (Some err)
    then show thesis using unf by (auto intro: fail)
  next
    case None
    obtain d s1 where d: "al_Do env ?u s = (d, s1)" by force
    show thesis
    proof (cases "\<exists>resp ar. d = Inr resp \<and> resp_StatusCode resp = 200 \<and> al_Decode env (resp_Body resp) = Inr ar \<and> api_Success ar")
      case True
      then obtain resp ar where "d = Inr resp" "resp_StatusCode resp = 200" "al_Decode env (resp_Body resp) = Inr ar" "api_Success ar"
        by blast
      then show thesis using unf None d
        by (intro fine [of "api_Timestamp ar * second" "reorder (al_range_quotes env) (AList.clearjunk (api_Quotes ar))"])
          (auto simp: provider_ok_def split: prod.splits)
    next
      case False
      then show thesis using unf None d by (auto intro: fail split: sum.splits if_splits option.splits)
    qed
  qed
qed

text \<open>One call ends in a failure counted under its class, or in the quotes of its base counted
  under \<open>ok\<close>.\<close>

lemma fetch_base_cases:
  assumes "fetch_base env pairs b m s w = ((out, w'), s')"
  obtains (failed) c h a msg cause where "out = Inl (ProviderError c h a msg cause)" "c \<in> provider_codes"
      "\<And>l. counter MetricRatesProviderRequestsTotal l w' =
         counter MetricRatesProviderRequestsTotal l w + (if l = [''apilayer'', c] then 1 else 0)"
  | (fine) m' where "out = Inr m'" "filed m \<Longrightarrow> filed m'" "dom m' \<subseteq> dom m \<union> {p. Base p = b}"
      "\<And>l. counter MetricRatesProviderRequestsTotal l w' =
         counter MetricRatesProviderRequestsTotal l w + (if l = [''apilayer'', ''ok''] then 1 else 0)"
proof -
  from assms show thesis
  proof (cases rule: fetch_base_shape)
    case (failed c h a msg cause)
    then show thesis by (intro that(1) [of c h a msg cause]) (auto simp: provider_failure_def)
  next
    case (fine t xs)
    then show thesis
      by (intro that(2) [OF fine(1)]) (simp_all add: add_quotes_filed add_quotes_dom add_quotes_counter provider_ok_def)
  qed
qed

lemma fetch_bases_law:
  assumes "filed m" and "fetch_bases env pairs bs m s w = (out, s', w')"
  shows "case out of
      Inr m' \<Rightarrow> filed m' \<and> dom m' \<subseteq> dom m \<union> {p. Base p \<in> set bs}
        \<and> (\<forall>l. counter MetricRatesProviderRequestsTotal l w' =
             counter MetricRatesProviderRequestsTotal l w + (if l = [''apilayer'', ''ok''] then length bs else 0))
    | Inl e \<Rightarrow> \<exists>c h a msg cause k. e = ProviderError c h a msg cause \<and> c \<in> provider_codes \<and> k < length bs
        \<and> (\<forall>l. counter MetricRatesProviderRequestsTotal l w' =
             counter MetricRatesProviderRequestsTotal l w + (if l = [''apilayer'', ''ok''] then k else if l = [''apilayer'', c] then 1 else 0))"
  using assms
proof (induction bs arbitrary: m s w)
  case Nil
  then show ?case by auto
next
  case (Cons b bs)
  obtain o1 w1 s1 where one: "fetch_base env pairs b m s w = ((o1, w1), s1)" by (metis prod.exhaust)
  from one show ?case
  proof (cases rule: fetch_base_cases)
    case (failed c h a msg cause)
    have "c \<noteq> ''ok''" using failed(2) by (auto simp: provider_codes_def)
    moreover have "out = Inl (ProviderError c h a msg cause)" "w' = w1" using Cons.prems(2) one failed(1) by auto
    ultimately show ?thesis
      using failed(2,3) by (auto intro!: exI [of _ c] exI [of _ 0])
  next
    case (fine m1)
    then have rest: "fetch_bases env pairs bs m1 s1 w1 = (out, s', w')" using Cons.prems(2) one by simp
    note ih = Cons.IH [OF fine(2) [OF Cons.prems(1)] rest]
    show ?thesis
    proof (cases out)
      case (Inr m')
      with ih have "filed m'" "dom m' \<subseteq> dom m1 \<union> {p. Base p \<in> set bs}" by simp_all
      moreover from this(2) fine(3) have "dom m' \<subseteq> dom m \<union> {p. Base p \<in> set (b # bs)}" by (simp add: subset_iff) blast
      ultimately show ?thesis using Inr ih fine(4) by simp
    next
      case (Inl e)
      with ih obtain c h a msg cause k where e: "e = ProviderError c h a msg cause" "c \<in> provider_codes" "k < length bs"
        "\<forall>l. counter MetricRatesProviderRequestsTotal l w' =
             counter MetricRatesProviderRequestsTotal l w1 + (if l = [''apilayer'', ''ok''] then k else if l = [''apilayer'', c] then 1 else 0)"
        by auto
      then have "\<forall>l. counter MetricRatesProviderRequestsTotal l w' =
             counter MetricRatesProviderRequestsTotal l w + (if l = [''apilayer'', ''ok''] then Suc k else if l = [''apilayer'', c] then 1 else 0)"
        using fine(4) by simp
      with e(1-3) Inl show ?thesis by (auto intro!: exI [of _ c] exI [of _ "Suc k"])
    qed
  qed
qed

lemma set_sorted_bases [simp]: "set (sorted_bases env pairs) = Base ` set pairs"
  by (simp add: sorted_bases_def)

lemma sorted_bases_distinct: "distinct (sorted_bases env pairs)" "sorted (sorted_bases env pairs)"
  by (simp_all add: sorted_bases_def)

text \<open>The call order does not depend on the iteration order of the map nor on the order of the
  pairs.\<close>

lemma sorted_bases_eq: "sorted_bases env pairs = sorted_list_of_set (Base ` set pairs)"
  by (rule sorted_distinct_set_unique) (use sorted_bases_distinct in auto)

lemma apilayer_fetch_ok:
  assumes "apilayer_FetchPairs env ps s w = (Inr res, s', w')"
  shows "fetch_ok ps res"
proof -
  obtain m where m: "fetch_bases env ps (sorted_bases env ps) Map.empty s w = (Inr m, s', w')"
      "res = \<lparr>fr_Quotes = m, fr_Missing = missing_pairs m {} ps\<rparr>"
    using assms by (auto simp: apilayer_FetchPairs_def split: prod.splits sum.splits)
  from fetch_bases_law [OF filed_empty m(1)] m(2) show ?thesis
    by (auto simp: fetch_ok_def set_missing_pairs distinct_missing_pairs filed_def)
qed

lemma add_quotes_oracles: "same_oracles w0 (snd (add_quotes b t xs m w)) = same_oracles w0 w"
proof (induction xs arbitrary: m w)
  case (Cons x xs)
  then show ?case by (cases x) (simp add: Let_def del: fun_upd_apply)
qed simp

lemma fetch_base_oracles:
  assumes "fetch_base env pairs b m s w = ((out, w'), s')"
  shows "same_oracles w w'"
  using assms
  by (cases rule: fetch_base_shape) (auto simp: provider_failure_def provider_ok_def add_quotes_oracles)

lemma fetch_bases_oracles: "fetch_bases env pairs bs m s w = (out, s', w') \<Longrightarrow> same_oracles w w'"
proof (induction bs arbitrary: m s w)
  case (Cons b bs)
  obtain o1 w1 s1 where one: "fetch_base env pairs b m s w = ((o1, w1), s1)" by (metis prod.exhaust)
  show ?case
  proof (cases o1)
    case (Inl e)
    with Cons.prems one have "w' = w1" by simp
    with fetch_base_oracles [OF one] show ?thesis by simp
  next
    case (Inr m1)
    with Cons.prems one have "fetch_bases env pairs bs m1 s1 w1 = (out, s', w')" by simp
    from Cons.IH [OF this] fetch_base_oracles [OF one] show ?thesis by (rule same_oracles_trans [rotated])
  qed
qed simp

lemma apilayer_oracles: "apilayer_FetchPairs env ps s w = (out, s', w') \<Longrightarrow> same_oracles w w'"
  by (auto simp: apilayer_FetchPairs_def split: prod.splits sum.splits dest: fetch_bases_oracles)

interpretation apilayer: rates_provider "apilayer_ops env" for env
  by unfold_locales (auto simp: op_defs dest: apilayer_fetch_ok apilayer_oracles)

section \<open>The double keeps the contract\<close>

lemma fake_collect_lookup:
  "fake_collect src now ps m p =
     (if p \<in> set ps \<and> src p \<noteq> None then Some ((the (src p))\<lparr>quo_FetchedAt := now, quo_Pair := p\<rparr>) else m p)"
  by (induction ps arbitrary: m) (auto split: option.splits)

lemma fake_fetch_ok:
  assumes "fake_FetchPairs ps f w = (Inr res, f', w')"
  shows "fetch_ok ps res"
  using assms
  by (auto simp: fake_FetchPairs_def Let_def fetch_ok_def set_missing_pairs distinct_missing_pairs
      fake_collect_lookup dom_def split: option.splits if_splits)

interpretation fake: rates_provider fake_ops
proof (unfold_locales, goal_cases)
  case (1 ps s w res s' w')
  then show ?case by (simp add: op_defs fake_fetch_ok)
next
  case (2 ps s w out s' w')
  then show ?case by (auto simp: op_defs fake_FetchPairs_def Let_def split: option.splits)
qed

section \<open>Properties\<close>

text \<open>An upstream that answers every request with a quote of 20 for EUR/MXN.\<close>

definition sample_al :: "(nat, int) apilayer_env" where
  "sample_al = \<lparr>al_APIKey = ''k'', al_BaseURL = ''http://up'', al_NewRequest = (\<lambda>u. None),
     al_Do = (\<lambda>u n. (Inr \<lparr>resp_StatusCode = 200, resp_Body = ''body''\<rparr>, Suc n)),
     al_Decode = (\<lambda>b. Inr \<lparr>api_Success = True, api_Timestamp = 90, api_Source = ''EUR'', api_Quotes = [(''EURMXN'', 20)], api_Error = None\<rparr>),
     al_range_bases = rev, al_range_targets = rev, al_range_quotes = rev\<rparr>"

lemma fetch_accounts:
  assumes "apilayer_FetchPairs env ps s w = (Inr res, s', w')"
  shows "fetch_ok ps res \<and> Base ` dom (fr_Quotes res) \<subseteq> Base ` set ps
    \<and> (\<forall>l. counter MetricRatesProviderRequestsTotal l w' = counter MetricRatesProviderRequestsTotal l w
         + (if l = [''apilayer'', ''ok''] then card (Base ` set ps) else 0))"
proof -
  obtain m where m: "fetch_bases env ps (sorted_bases env ps) Map.empty s w = (Inr m, s', w')" "fr_Quotes res = m"
    using assms by (auto simp: apilayer_FetchPairs_def split: prod.splits sum.splits)
  have "length (sorted_bases env ps) = card (Base ` set ps)"
    using distinct_card [OF sorted_bases_distinct(1) [of env ps]] by simp
  with fetch_bases_law [OF filed_empty m(1)] m(2) apilayer_fetch_ok [OF assms] show ?thesis by auto
qed

text \<open>C19: A successful fetch accounts for every requested pair exactly once: it is quoted (under its own pair) or
  reported missing, never both, and nothing is reported missing that was not asked for or twice; one upstream
  call was made per distinct base, each counted as ok and no other outcome counted; and every quote belongs to
  a base that was asked for.\<close>

theorem apilayer_fetch_complete:
  assumes "apilayer_FetchPairs env ps s w = (Inr res, s', w')"
  shows "fetch_ok ps res \<and> Base ` dom (fr_Quotes res) \<subseteq> Base ` set ps
    \<and> (\<forall>l. counter MetricRatesProviderRequestsTotal l w' = counter MetricRatesProviderRequestsTotal l w
         + (if l = [''apilayer'', ''ok''] then card (Base ` set ps) else 0))"
  by (rule fetch_accounts [OF assms])

theorem apilayer_fetch_complete_witness:
  "\<exists>res s' w'. apilayer_FetchPairs sample_al [Pair ''EUR'' ''MXN'', Pair ''USD'' ''EUR''] 0 sample_world = (Inr res, s', w')
     \<and> fetch_ok [Pair ''EUR'' ''MXN'', Pair ''USD'' ''EUR''] res \<and> fr_Missing res = [Pair ''USD'' ''EUR'']
     \<and> counter MetricRatesProviderRequestsTotal [''apilayer'', ''ok''] w' = 2"
proof -
  let ?f = "apilayer_FetchPairs sample_al [Pair ''EUR'' ''MXN'', Pair ''USD'' ''EUR''] 0 sample_world"
  have ev: "case ?f of (Inr res, s', w') \<Rightarrow> fr_Missing res = [Pair ''USD'' ''EUR''] | (Inl e, _) \<Rightarrow> False" by code_simp
  then obtain res s' w' where f: "?f = (Inr res, s', w')" "fr_Missing res = [Pair ''USD'' ''EUR'']"
    by (auto split: prod.split_asm sum.split_asm)
  from apilayer_fetch_complete [OF f(1)] have c: "fetch_ok [Pair ''EUR'' ''MXN'', Pair ''USD'' ''EUR''] res"
      "counter MetricRatesProviderRequestsTotal [''apilayer'', ''ok''] w' = 2"
    by (simp_all add: counter_def sample_world_def)
  with f show ?thesis by blast
qed

text \<open>C20: A failed fetch stops at the first failing base. The error is a ProviderError of class transient, quota_exceeded or
  permanent; fewer upstream calls succeeded than there are bases, and exactly one failure was counted, under its class.\<close>

theorem apilayer_fetch_failfast:
  assumes "apilayer_FetchPairs env ps s w = (Inl e, s', w')"
  shows "\<exists>c h a msg cause k. e = ProviderError c h a msg cause \<and> c \<in> {''transient'', ''quota_exceeded'', ''permanent''}
    \<and> k < card (Base ` set ps)
    \<and> (\<forall>l. counter MetricRatesProviderRequestsTotal l w' = counter MetricRatesProviderRequestsTotal l w
         + (if l = [''apilayer'', ''ok''] then k else if l = [''apilayer'', c] then 1 else 0))"
proof -
  have m: "fetch_bases env ps (sorted_bases env ps) Map.empty s w = (Inl e, s', w')"
    using assms by (auto simp: apilayer_FetchPairs_def split: prod.splits sum.splits)
  have "length (sorted_bases env ps) = card (Base ` set ps)"
    using distinct_card [OF sorted_bases_distinct(1) [of env ps]] by simp
  with fetch_bases_law [OF filed_empty m] show ?thesis by (simp add: provider_codes_def)
qed

theorem apilayer_fetch_failfast_witness:
  "\<exists>e c h a msg cause k s' w'. apilayer_FetchPairs (sample_al\<lparr>al_Do := \<lambda>u n. (Inl (IOError ''refused''), n)\<rparr>) [Pair ''EUR'' ''MXN''] 0 sample_world = (Inl e, s', w')
     \<and> e = ProviderError c h a msg cause \<and> k < (1 :: nat)"
proof -
  let ?f = "apilayer_FetchPairs (sample_al\<lparr>al_Do := \<lambda>u n. (Inl (IOError ''refused''), n)\<rparr>) [Pair ''EUR'' ''MXN''] 0 sample_world"
  have ev: "isl (fst ?f)" by code_simp
  then obtain e s' w' where f: "?f = (Inl e, s', w')" by (metis fst_conv isl_def prod_cases3)
  from apilayer_fetch_failfast [OF f] f show ?thesis by auto
qed

lemma map_of_reorder: "distinct (map fst xs) \<Longrightarrow> map_of (reorder ord xs) = map_of xs"
  by (rule map_of_eqI) (auto simp: map_of_eq_Some_iff image_iff)

lemma add_quotes_response:
  assumes "length b = 3" and "length q = 3"
  shows "fst (add_quotes b t (reorder (al_range_quotes env) (AList.clearjunk xs)) m w) (Pair b q) =
      (case map_of xs (b @ q) of Some price \<Rightarrow> Some \<lparr>quo_Pair = Pair b q, quo_Price = price, quo_FetchedAt = t\<rparr> | None \<Rightarrow> m (Pair b q))"
proof -
  let ?xs = "reorder (al_range_quotes env) (AList.clearjunk xs)"
  have d: "distinct (map fst ?xs)" by (simp add: distinct_clearjunk)
  have "map_of ?xs = map_of (AList.clearjunk xs)"
    by (rule map_of_reorder) (simp add: distinct_clearjunk)
  with add_quotes_lookup [OF assms d] show ?thesis by (simp add: map_of_clearjunk)
qed

text \<open>One upstream call, on every branch. A request that cannot be built or sent, a status other than 200 and a body that does not
  decode are transient failures; an unsuccessful answer is quota_exceeded for API code 104 and permanent for every other
  (or no) code; a successful answer files exactly the prices under the six-character keys of the base with the
  time of the answer, and leaves the quotes of other pairs as they were.\<close>

lemma fetch_base_branches:
  "let u = live_url env b (targets_of env ps b) in
   case fetch_base env ps b m s w of ((out, w'), s') \<Rightarrow>
    (if al_NewRequest env u \<noteq> None then s' = s \<and> (\<exists>msg cause. out = Inl (ProviderError ''transient'' 0 0 msg cause))
     else case al_Do env u s of
       (Inl err, s1) \<Rightarrow> s' = s1 \<and> (\<exists>msg. out = Inl (ProviderError ''transient'' 0 0 msg (Some err)))
     | (Inr resp, s1) \<Rightarrow> s' = s1 \<and>
         (if resp_StatusCode resp \<noteq> 200 then \<exists>msg. out = Inl (ProviderError ''transient'' (resp_StatusCode resp) 0 msg None)
          else case al_Decode env (resp_Body resp) of
            Inl err \<Rightarrow> \<exists>msg. out = Inl (ProviderError ''transient'' 0 0 msg (Some err))
          | Inr ar \<Rightarrow>
              if \<not> api_Success ar then out = Inl (case api_Error ar of
                   None \<Rightarrow> ProviderError ''permanent'' 0 0 [] None
                 | Some (c, ty, info) \<Rightarrow> ProviderError (if c = 104 then ''quota_exceeded'' else ''permanent'') 0 c info None)
              else \<exists>m'. out = Inr m' \<and> (\<forall>q. length b = 3 \<and> length q = 3 \<longrightarrow> m' (Pair b q) =
                   (case map_of (api_Quotes ar) (b @ q) of
                      Some price \<Rightarrow> Some \<lparr>quo_Pair = Pair b q, quo_Price = price, quo_FetchedAt = api_Timestamp ar * second\<rparr>
                    | None \<Rightarrow> m (Pair b q)))))"
proof -
  define u where "u = live_url env b (targets_of env ps b)"
  note unf = fetch_base_def Let_def u_def [symmetric]
  show ?thesis
  proof (cases "al_NewRequest env u")
    case (Some err)
    then show ?thesis unfolding unf by (simp add: provider_failure_def)
  next
    case None
    obtain d s1 where d: "al_Do env u s = (d, s1)" by force
    show ?thesis
    proof (cases d)
      case (Inl err)
      then show ?thesis unfolding unf using None d by (simp add: provider_failure_def)
    next
      case resp: (Inr resp)
      show ?thesis
      proof (cases "al_Decode env (resp_Body resp)")
        case (Inl err)
        then show ?thesis unfolding unf using None d resp by (simp add: provider_failure_def)
      next
        case (Inr ar)
        obtain m1 w1 where aq: "add_quotes b (api_Timestamp ar * second)
            (reorder (al_range_quotes env) (AList.clearjunk (api_Quotes ar))) m (tick w) = (m1, w1)" by force
        have "m1 (Pair b q) = (case map_of (api_Quotes ar) (b @ q) of
            Some price \<Rightarrow> Some \<lparr>quo_Pair = Pair b q, quo_Price = price, quo_FetchedAt = api_Timestamp ar * second\<rparr> | None \<Rightarrow> m (Pair b q))"
          if "length b = 3" "length q = 3" for q
          using add_quotes_response [OF that, of "api_Timestamp ar * second" env "api_Quotes ar" m "tick w"] aq by simp
        then show ?thesis unfolding unf using None d resp Inr aq
          by (auto simp: provider_failure_def api_outcome_def split: option.splits)
      qed
    qed
  qed
qed

end
