(* ===== verification/Backoff.thy ===== *)
theory Backoff
  imports Prelude
begin

text \<open>
  The small seams: \<open>internal/backoff/backoff.go\<close> (retry delay with full jitter),
  \<open>internal/clock/clock.go\<close> (the fake clock; the real one is the oracle of the world) and
  \<open>internal/idgen/idgen.go\<close> (the sequential generator; the random one belongs to a package
  outside the repository).
\<close>

section \<open>Retry delay\<close>

definition baseDelay :: duration where "baseDelay = second"
definition maxBackoff :: duration where "maxBackoff = 60 * second"
definition saturationAttempt :: int where "saturationAttempt = 6"

definition backoff_window :: "int \<Rightarrow> duration" where
  "backoff_window attempt0 =
     (let attempt = (if attempt0 < 0 then 0 else attempt0)
      in if attempt \<ge> saturationAttempt then maxBackoff else baseDelay * 2 ^ nat attempt)"

definition Compute :: "int \<Rightarrow> world \<Rightarrow> duration \<times> world" where
  "Compute attempt w = Int64N (backoff_window attempt) w"

lemmas backoff_consts = baseDelay_def maxBackoff_def saturationAttempt_def

lemma window_small: "0 \<le> a \<Longrightarrow> a < 6 \<Longrightarrow> backoff_window a \<in> {1 * second, 2 * second, 4 * second, 8 * second, 16 * second, 32 * second}"
proof -
  assume "0 \<le> a" "a < 6"
  then have "a \<in> {0, 1, 2, 3, 4, 5}" by auto
  then show ?thesis by (auto simp: backoff_window_def backoff_consts)
qed

lemma backoff_window_pos: "0 < backoff_window a"
  by (auto simp: backoff_window_def backoff_consts Let_def)

lemma backoff_window_le: "backoff_window a \<le> maxBackoff"
proof (cases "0 \<le> a \<and> a < 6")
  case True
  then have "backoff_window a \<in> {1 * second, 2 * second, 4 * second, 8 * second, 16 * second, 32 * second}"
    by (intro window_small) auto
  then show ?thesis by (auto simp: maxBackoff_def)
qed (auto simp: backoff_window_def backoff_consts Let_def)

lemma Compute_range: "0 \<le> fst (Compute a w) \<and> fst (Compute a w) < backoff_window a"
  unfolding Compute_def by (rule Int64N_range [OF backoff_window_pos])

lemma Compute_oracles: "same_oracles w (snd (Compute a w))"
  by (simp add: Compute_def Int64N_def same_oracles_def)

section \<open>The fake clock\<close>

record fake_clock =
  fc_now :: time

definition NewFake :: "time \<Rightarrow> fake_clock" where "NewFake initial = \<lparr>fc_now = initial\<rparr>"
definition FakeClock_Now :: "fake_clock \<Rightarrow> time" where "FakeClock_Now c = fc_now c"
definition FakeClock_Advance :: "duration \<Rightarrow> fake_clock \<Rightarrow> fake_clock" where
  "FakeClock_Advance d c = c\<lparr>fc_now := fc_now c + d\<rparr>"
definition FakeClock_Set :: "time \<Rightarrow> fake_clock \<Rightarrow> fake_clock" where
  "FakeClock_Set t c = c\<lparr>fc_now := t\<rparr>"

section \<open>Sequential ids\<close>

record seq_gen =
  sg_counter :: nat

definition NewSeq :: seq_gen where "NewSeq = \<lparr>sg_counter = 0\<rparr>"

definition pad12 :: "nat \<Rightarrow> string" where
  "pad12 n = replicate (12 - length (show_nat n)) (CHR ''0'') @ show_nat n"

definition SeqNewID :: "seq_gen \<Rightarrow> string \<times> seq_gen" where
  "SeqNewID g = (let c = sg_counter g + 1 in (''00000000-0000-0000-0000-'' @ pad12 c, g\<lparr>sg_counter := c\<rparr>))"

fun SeqNewIDs :: "nat \<Rightarrow> seq_gen \<Rightarrow> string list \<times> seq_gen" where
  "SeqNewIDs 0 g = ([], g)"
| "SeqNewIDs (Suc n) g = (case SeqNewID g of (i, g1) \<Rightarrow> case SeqNewIDs n g1 of (is, g2) \<Rightarrow> (i # is, g2))"

lemma digits_val_zeros: "digits_val (replicate k (CHR ''0'') @ s) = digits_val s"
proof (induction k)
  case (Suc k)
  have "digits_val (CHR ''0'' # x) = digits_val x" for x
    by (simp add: digits_val_def digit_val_def)
  with Suc show ?case by simp
qed simp

lemma pad12_inj: "pad12 m = pad12 n \<longleftrightarrow> m = n"
  unfolding pad12_def by (metis digits_val_show_nat digits_val_zeros)

lemma SeqNewIDs_set:
  "SeqNewIDs n g = (is, g') \<Longrightarrow>
     is = map (\<lambda>k. ''00000000-0000-0000-0000-'' @ pad12 k) [sg_counter g + 1 ..< sg_counter g + 1 + n] \<and> sg_counter g' = sg_counter g + n"
proof (induction n arbitrary: g g' "is")
  case (Suc n)
  let ?g = "g\<lparr>sg_counter := sg_counter g + 1\<rparr>"
  obtain js g1 where js: "SeqNewIDs n ?g = (js, g1)" by force
  with Suc.prems have "is = (''00000000-0000-0000-0000-'' @ pad12 (sg_counter g + 1)) # js" "g' = g1"
    by (auto simp: SeqNewID_def Let_def)
  moreover have "[sg_counter g + 1 ..< sg_counter g + 1 + Suc n] = (sg_counter g + 1) # [sg_counter ?g + 1 ..< sg_counter ?g + 1 + n]"
    by (simp add: upt_conv_Cons del: upt_Suc)
  ultimately show ?case using Suc.IH [OF js] by (simp del: upt_Suc)
qed simp

section \<open>Properties\<close>

text \<open>The retry delay is full jitter over a capped exponential window: for every attempt number (negative ones
  count as zero) it lies in \<open>[0, min (2 ^ attempt seconds) 60 seconds)\<close>; the window is never empty, so the
  draw never panics.\<close>

lemma Compute_full_jitter:
  "0 \<le> fst (Compute a w) \<and> fst (Compute a w) < min (second * 2 ^ nat a) (60 * second) \<and> 0 < backoff_window a"
proof -
  have "backoff_window a = min (second * 2 ^ nat a) (60 * second)"
  proof (cases "a \<ge> 6")
    case True
    then have "(2 :: int) ^ 6 \<le> 2 ^ nat a" by (intro power_increasing) auto
    then show ?thesis using True by (simp add: backoff_window_def backoff_consts Let_def)
  next
    case False
    then have "(2 :: int) ^ nat a \<le> 2 ^ 5" by (intro power_increasing) auto
    then show ?thesis using False by (auto simp: backoff_window_def backoff_consts Let_def)
  qed
  then show ?thesis using Compute_range [of a w] backoff_window_pos [of a] by simp
qed

text \<open>The sequential id generator never repeats itself: \<open>n\<close> consecutive ids are pairwise distinct, none was
  given before, and as long as the counter has at most twelve digits each has the 36 characters of a UUID.\<close>

lemma SeqNewIDs_distinct:
  "case SeqNewIDs n g of (is, g') \<Rightarrow> distinct is \<and> length is = n \<and> sg_counter g' = sg_counter g + n
     \<and> (\<forall>k \<le> sg_counter g. ''00000000-0000-0000-0000-'' @ pad12 k \<notin> set is)
     \<and> (sg_counter g + n < 10 ^ 12 \<longrightarrow> (\<forall>i \<in> set is. length i = 36))"
proof -
  obtain "is" g' where r: "SeqNewIDs n g = (is, g')" by force
  note shape = SeqNewIDs_set [OF r]
  define f where "f k = ''00000000-0000-0000-0000-'' @ pad12 k" for k
  have inj: "inj f" by (auto simp: inj_def f_def pad12_inj)
  have eq: "is = map f [sg_counter g + 1 ..< sg_counter g + 1 + n]" "sg_counter g' = sg_counter g + n"
    using shape by (simp_all add: f_def)
  have "distinct is" using inj by (auto simp: eq(1) distinct_map intro: inj_on_subset)
  moreover have "f k \<notin> set is" if "k \<le> sg_counter g" for k
    using that inj by (auto simp: eq(1) inj_eq)
  moreover have "length (f k) = 36" if "k < 10 ^ 12" for k
    using show_nat_length [of 12 k] that by (simp add: f_def pad12_def)
  ultimately show ?thesis using r eq unfolding f_def [symmetric] by auto
qed

end
