(* ===== verification/Worker.thy ===== *)
theory Worker
  imports Memqueue Pgqueue Quote_Repo Apilayer Backoff
begin

text \<open>
  The background worker, \<open>internal/worker/worker.go\<close>: construction, the event loop, batch
  dispatch and the classification of failures. It is written over the three interfaces, and
  its lemmas are proved in the locale \<open>worker_env\<close>, which joins their contracts; the locale is
  interpreted with the in-memory and the Postgres stores. Log lines are not modelled;
  the clock readings they take are.
\<close>

section \<open>Construction\<close>

record worker =
  wk_pollInterval :: duration
  wk_leaseTime :: duration
  wk_maxAttempts :: int
  wk_batchSize :: int
  wk_cleanInterval :: duration

datatype wk_option =
    WithPollInterval duration
  | WithLeaseTime duration
  | WithMaxAttempts int
  | WithBatchSize int
  | WithCleanInterval duration

fun apply_option :: "wk_option \<Rightarrow> worker \<Rightarrow> worker" where
  "apply_option (WithPollInterval d) wk = wk\<lparr>wk_pollInterval := d\<rparr>"
| "apply_option (WithLeaseTime d) wk = wk\<lparr>wk_leaseTime := d\<rparr>"
| "apply_option (WithMaxAttempts n) wk = wk\<lparr>wk_maxAttempts := n\<rparr>"
| "apply_option (WithBatchSize n) wk = wk\<lparr>wk_batchSize := n\<rparr>"
| "apply_option (WithCleanInterval d) wk = wk\<lparr>wk_cleanInterval := d\<rparr>"

definition worker_New :: "wk_option list \<Rightarrow> worker res" where
  "worker_New opts =
     (let wk = fold apply_option opts
            \<lparr>wk_pollInterval = 0, wk_leaseTime = 60 * second, wk_maxAttempts = 5, wk_batchSize = 0,
             wk_cleanInterval = 60 * second\<rparr>
      in if wk_pollInterval wk \<le> 0 then Panic ''worker.New: WithPollInterval option is required''
         else if wk_batchSize wk \<le> 0 then Panic ''worker.New: WithBatchSize option is required''
         else Ok wk)"

section \<open>Settling one job\<close>

definition job_pair :: "job \<Rightarrow> pair" where
  "job_pair j = Pair (job_Base j) (job_Quote j)"

definition failJob :: "('s, 'd) queue_ops \<Rightarrow> job \<Rightarrow> error \<Rightarrow> 's \<Rightarrow> world \<Rightarrow> 's \<times> world" where
  "failJob qops j err s w =
     (case Fail qops (job_ID j) (Error err) s w of
        (Some fErr, s1, w1) \<Rightarrow> (s1, w1)
      | (None, s1, w1) \<Rightarrow>
          (s1, emit (Observe MetricQuoteJobsAttempts [] (job_Attempts j + 1))
                 (emit (Inc MetricQuoteJobsTotal [''failed'']) w1)))"

definition rescheduleOrFail ::
    "('s, 'd) queue_ops \<Rightarrow> worker \<Rightarrow> job \<Rightarrow> error \<Rightarrow> 's \<Rightarrow> world \<Rightarrow> 's \<times> world" where
  "rescheduleOrFail qops wk j err s w =
     (if job_Attempts j < wk_maxAttempts wk
      then case Compute (job_Attempts j) w of
             (delay, w1) \<Rightarrow> (case Reschedule qops (job_ID j) (Error err) delay s w1 of (rErr, s2, w2) \<Rightarrow> (s2, w2))
      else failJob qops j err s w)"

definition classify :: "error \<Rightarrow> error" where
  "classify err = (case errors_As_ProviderError err of
      Some pe \<Rightarrow> pe
    | None \<Rightarrow> ProviderError ''transient'' 0 0 (Error err) None)"

definition handleBatchError ::
    "('s, 'd) queue_ops \<Rightarrow> worker \<Rightarrow> job \<Rightarrow> error \<Rightarrow> 's \<Rightarrow> world \<Rightarrow> 's \<times> world" where
  "handleBatchError qops wk j err s w =
     (let pe = classify err
      in if Code pe = ''quota_exceeded''
         then (case Reschedule qops (job_ID j) (Error pe) hour s (tick w) of (rErr, s1, w1) \<Rightarrow> (s1, w1))
         else if Code pe = ''transient'' then rescheduleOrFail qops wk j pe s w
         else failJob qops j pe s w)"

text \<open>The body of the demultiplexing loop: upsert, then complete.\<close>

definition processJob ::
    "('s, 'd) queue_ops \<Rightarrow> ('r, 'd) repo_ops \<Rightarrow> worker \<Rightarrow> 'd fetch_result \<Rightarrow> job \<Rightarrow> 's \<Rightarrow> 'r \<Rightarrow> world \<Rightarrow> 's \<times> 'r \<times> world" where
  "processJob qops rops wk res j s r w =
     (case fr_Quotes res (job_pair j) of
        Some q \<Rightarrow>
          (case UpsertBatch rops [q] r w of
             (Some uErr, r1, w1) \<Rightarrow>
               (case rescheduleOrFail qops wk j (Wrapf ''upsert quote'' uErr) s w1 of (s2, w2) \<Rightarrow> (s2, r1, w2))
           | (None, r1, w1) \<Rightarrow>
               (case Complete qops (job_ID j) (quo_Price q) (quo_FetchedAt q) s w1 of
                  (Some cErr, s2, w2) \<Rightarrow> (s2, r1, w2)
                | (None, s2, w2) \<Rightarrow>
                    let w3 = emit (Observe MetricQuoteJobsAttempts [] (job_Attempts j + 1))
                               (emit (Inc MetricQuoteJobsTotal [''done'']) (tick w2))
                    in (s2, r1,
                        if job_Attempts j = 0
                        then emit (Observe MetricQuoteJobsCompletionSeconds [job_Source j] (Now w3 - job_CreatedAt j)) (tick w3)
                        else w3)))
      | None \<Rightarrow>
          (case failJob qops j (ErrorsNew ''missing in upstream response'') s w of (s1, w1) \<Rightarrow> (s1, r, w1)))"

section \<open>A batch\<close>

fun failBatch :: "('s, 'd) queue_ops \<Rightarrow> worker \<Rightarrow> error \<Rightarrow> job list \<Rightarrow> 's \<Rightarrow> world \<Rightarrow> 's \<times> world" where
  "failBatch qops wk err [] s w = (s, w)"
| "failBatch qops wk err (j # js) s w =
     (case handleBatchError qops wk j err s w of (s1, w1) \<Rightarrow> failBatch qops wk err js s1 w1)"

fun processBatch ::
    "('s, 'd) queue_ops \<Rightarrow> ('r, 'd) repo_ops \<Rightarrow> worker \<Rightarrow> 'd fetch_result \<Rightarrow> job list \<Rightarrow> 's \<Rightarrow> 'r \<Rightarrow> world \<Rightarrow> 's \<times> 'r \<times> world" where
  "processBatch qops rops wk res [] s r w = (s, r, w)"
| "processBatch qops rops wk res (j # js) s r w =
     (case processJob qops rops wk res j s r w of (s1, r1, w1) \<Rightarrow> processBatch qops rops wk res js s1 r1 w1)"

definition dispatchBatch ::
    "('s, 'd) queue_ops \<Rightarrow> ('p, 'd) provider_ops \<Rightarrow> ('r, 'd) repo_ops \<Rightarrow> worker \<Rightarrow> job list
      \<Rightarrow> 's \<Rightarrow> 'p \<Rightarrow> 'r \<Rightarrow> world \<Rightarrow> 's \<times> 'p \<times> 'r \<times> world" where
  "dispatchBatch qops pops rops wk jobs s p r w =
     (case FetchPairs pops (map job_pair jobs) p w of
        (Inl err, p1, w1) \<Rightarrow> (case failBatch qops wk err jobs s w1 of (s2, w2) \<Rightarrow> (s2, p1, r, w2))
      | (Inr res, p1, w1) \<Rightarrow> (case processBatch qops rops wk res jobs s r w1 of (s2, r2, w2) \<Rightarrow> (s2, p1, r2, w2)))"

section \<open>The loop\<close>

record ('s, 'p, 'r) wk_state =
  st_queue :: 's
  st_provider :: 'p
  st_repo :: 'r
  st_lastIteration :: int

datatype wk_event = PollTick | CleanTick | CtxDone

definition worker_poll ::
    "('s, 'd) queue_ops \<Rightarrow> ('p, 'd) provider_ops \<Rightarrow> ('r, 'd) repo_ops \<Rightarrow> worker
      \<Rightarrow> ('s, 'p, 'r) wk_state \<Rightarrow> world \<Rightarrow> (('s, 'p, 'r) wk_state \<times> world) res" where
  "worker_poll qops pops rops wk st w0 =
     (let st0 = st\<lparr>st_lastIteration := wrap64 (Now w0)\<rparr>
      in case Reserve qops (wk_batchSize wk) (wk_leaseTime wk) (st_queue st0) (tick w0) of
           (Panic m, s1, w1) \<Rightarrow> Panic m
         | (Ok (Inl err), s1, w1) \<Rightarrow> Ok (st0\<lparr>st_queue := s1\<rparr>, emit (Inc MetricWorkerIterationsTotal [''error'']) w1)
         | (Ok (Inr jobs), s1, w1) \<Rightarrow>
             if jobs = [] then Ok (st0\<lparr>st_queue := s1\<rparr>, emit (Inc MetricWorkerIterationsTotal [''idle'']) w1)
             else
               case dispatchBatch qops pops rops wk jobs s1 (st_provider st0) (st_repo st0)
                      (tick (emit (Inc MetricWorkerIterationsTotal [''work'']) w1)) of
                 (s2, p2, r2, w2) \<Rightarrow> Ok (st0\<lparr>st_queue := s2, st_provider := p2, st_repo := r2\<rparr>, w2))"

definition worker_clean :: "('s, 'd) queue_ops \<Rightarrow> ('s, 'p, 'r) wk_state \<Rightarrow> world \<Rightarrow> ('s, 'p, 'r) wk_state \<times> world" where
  "worker_clean qops st w0 =
     (case RecoverExpired qops (st_queue st) (tick w0) of
        (Inl err, s1, w1) \<Rightarrow>
          (st\<lparr>st_lastIteration := wrap64 (Now w0), st_queue := s1\<rparr>, emit (Inc MetricWorkerIterationsTotal [''error'']) w1)
      | (Inr n, s1, w1) \<Rightarrow>
          (st\<lparr>st_lastIteration := wrap64 (Now w0), st_queue := s1\<rparr>, emit (Inc MetricWorkerIterationsTotal [''ok'']) w1))"

text \<open>The loop over the events the \<open>select\<close> delivers: the third component is what \<open>Run\<close>
  returned, \<open>None\<close> while it is still waiting.\<close>

fun worker_loop ::
    "('s, 'd) queue_ops \<Rightarrow> ('p, 'd) provider_ops \<Rightarrow> ('r, 'd) repo_ops \<Rightarrow> worker \<Rightarrow> wk_event list
      \<Rightarrow> ('s, 'p, 'r) wk_state \<Rightarrow> world \<Rightarrow> (('s, 'p, 'r) wk_state \<times> world \<times> error option) res" where
  "worker_loop qops pops rops wk [] st w = Ok (st, w, None)"
| "worker_loop qops pops rops wk (CtxDone # es) st w = Ok (st, w, Some Canceled)"
| "worker_loop qops pops rops wk (CleanTick # es) st w =
     (case worker_clean qops st w of (st1, w1) \<Rightarrow> worker_loop qops pops rops wk es st1 w1)"
| "worker_loop qops pops rops wk (PollTick # es) st w =
     (case worker_poll qops pops rops wk st w of
        Panic m \<Rightarrow> Panic m
      | Ok (st1, w1) \<Rightarrow> worker_loop qops pops rops wk es st1 w1)"

definition worker_Run ::
    "('s, 'd) queue_ops \<Rightarrow> ('p, 'd) provider_ops \<Rightarrow> ('r, 'd) repo_ops \<Rightarrow> worker \<Rightarrow> wk_event list
      \<Rightarrow> ('s, 'p, 'r) wk_state \<Rightarrow> world \<Rightarrow> (('s, 'p, 'r) wk_state \<times> world \<times> error option) res" where
  "worker_Run qops pops rops wk es st w =
     (if wk_pollInterval wk \<le> 0 \<or> wk_cleanInterval wk \<le> 0 then Panic ''non-positive interval for NewTicker''
      else worker_loop qops pops rops wk es st w)"

definition LastIteration :: "('s, 'p, 'r) wk_state \<Rightarrow> time" where
  "LastIteration st = (if st_lastIteration st = 0 then zero_time else st_lastIteration st)"

section \<open>What a job can become\<close>

definition fail_outcome :: "(nat \<Rightarrow> time) \<Rightarrow> (time \<Rightarrow> time) \<Rightarrow> string \<Rightarrow> 'd arec \<Rightarrow> 'd arec \<Rightarrow> bool" where
  "fail_outcome ck ts m r r' \<longleftrightarrow> (\<exists>n. r' = fail_arec (ts (ck n)) m r)"

definition retry_outcome :: "(nat \<Rightarrow> time) \<Rightarrow> (time \<Rightarrow> time) \<Rightarrow> duration \<Rightarrow> duration \<Rightarrow> 'd arec \<Rightarrow> 'd arec \<Rightarrow> bool" where
  "retry_outcome ck ts lo hi r r' \<longleftrightarrow> (\<exists>n d. lo \<le> d \<and> d < hi \<and> r' = resched_arec (ts (ck n + d)) r)"

definition done_outcome :: "(nat \<Rightarrow> time) \<Rightarrow> (time \<Rightarrow> time) \<Rightarrow> 'd \<Rightarrow> time \<Rightarrow> 'd arec \<Rightarrow> 'd arec \<Rightarrow> bool" where
  "done_outcome ck ts p u r r' \<longleftrightarrow> (\<exists>n. r' = done_arec (ts (ck n)) p (ts u) r)"

definition budget_outcome :: "(nat \<Rightarrow> time) \<Rightarrow> (time \<Rightarrow> time) \<Rightarrow> worker \<Rightarrow> job \<Rightarrow> string \<Rightarrow> 'd arec \<Rightarrow> 'd arec \<Rightarrow> bool" where
  "budget_outcome ck ts wk j m r r' \<longleftrightarrow>
     (if job_Attempts j < wk_maxAttempts wk then retry_outcome ck ts 0 (backoff_window (job_Attempts j)) r r'
      else fail_outcome ck ts m r r')"

definition error_outcome :: "(nat \<Rightarrow> time) \<Rightarrow> (time \<Rightarrow> time) \<Rightarrow> worker \<Rightarrow> error \<Rightarrow> job \<Rightarrow> 'd arec \<Rightarrow> 'd arec \<Rightarrow> bool" where
  "error_outcome ck ts wk err j r r' \<longleftrightarrow>
     (let pe = classify err
      in if Code pe = ''quota_exceeded'' then retry_outcome ck ts hour (hour + 1) r r'
         else if Code pe = ''transient'' then budget_outcome ck ts wk j (Error pe) r r'
         else fail_outcome ck ts (Error pe) r r')"

definition result_outcome :: "(nat \<Rightarrow> time) \<Rightarrow> (time \<Rightarrow> time) \<Rightarrow> 'd fetch_result \<Rightarrow> job \<Rightarrow> 'd arec \<Rightarrow> 'd arec \<Rightarrow> bool" where
  "result_outcome ck ts res j r r' \<longleftrightarrow>
     (case fr_Quotes res (job_pair j) of
        Some q \<Rightarrow> done_outcome ck ts (quo_Price q) (quo_FetchedAt q) r r'
      | None \<Rightarrow> fail_outcome ck ts ''missing in upstream response'' r r')"

text \<open>One step on one job: nothing happened (a storage failure before the write), or the job
  moved as \<open>R\<close> says; all other jobs stay.\<close>

definition moved :: "('d arec \<Rightarrow> 'd arec \<Rightarrow> bool) \<Rightarrow> string \<Rightarrow> 'd aqueue \<Rightarrow> 'd aqueue \<Rightarrow> bool" where
  "moved R i q q' \<longleftrightarrow> (\<exists>r r'. q i = Some r \<and> R r r' \<and> q' = q(i \<mapsto> r'))"

lemmas outcomes = fail_outcome_def retry_outcome_def done_outcome_def budget_outcome_def error_outcome_def
  result_outcome_def

lemma budget_outcome_eq:
  "budget_outcome ck ts wk j m =
     (if job_Attempts j < wk_maxAttempts wk then retry_outcome ck ts 0 (backoff_window (job_Attempts j)) else fail_outcome ck ts m)"
  by (simp add: fun_eq_iff budget_outcome_def)

lemma error_outcome_eq:
  "error_outcome ck ts wk err j =
     (if Code (classify err) = ''quota_exceeded'' then retry_outcome ck ts hour (hour + 1)
      else if Code (classify err) = ''transient'' then budget_outcome ck ts wk j (Error (classify err))
      else fail_outcome ck ts (Error (classify err)))"
  by (simp add: fun_eq_iff error_outcome_def)

lemma upd_spec_moved:
  assumes "upd_spec f i q e q'" and "q i = Some r" and "is_running (ar_state r)" and "R r (f r)"
  shows "q' = q \<and> e \<noteq> None \<or> moved R i q q'" and "\<forall>x. e = Some x \<longrightarrow> \<not> is_io x \<Longrightarrow> e = None \<and> moved R i q q'"
  using assms by (auto simp: upd_spec_def moved_def split: option.splits if_splits)

definition step_law ::
    "('s \<Rightarrow> bool) \<Rightarrow> ('s \<Rightarrow> 'd aqueue) \<Rightarrow> ('s \<Rightarrow> bool) \<Rightarrow> ('d arec \<Rightarrow> 'd arec \<Rightarrow> bool) \<Rightarrow> ('d arec \<Rightarrow> 'd arec \<Rightarrow> bool)
      \<Rightarrow> bool \<Rightarrow> string \<Rightarrow> 's \<Rightarrow> 's \<Rightarrow> bool" where
  "step_law invr absq quiet R X calm i s s' \<longleftrightarrow>
     invr s' \<and> (absq s' = absq s \<or> moved R i (absq s) (absq s')) \<and> (quiet s \<and> calm \<longrightarrow> quiet s' \<and> moved X i (absq s) (absq s'))"

definition batch_law :: "(job \<Rightarrow> 'd arec \<Rightarrow> 'd arec \<Rightarrow> bool) \<Rightarrow> job list \<Rightarrow> 'd aqueue \<Rightarrow> 'd aqueue \<Rightarrow> bool" where
  "batch_law R js q q' \<longleftrightarrow>
     (\<forall>i. i \<notin> job_ID ` set js \<longrightarrow> q' i = q i)
     \<and> (\<forall>j \<in> set js. \<exists>r r'. q (job_ID j) = Some r \<and> q' (job_ID j) = Some r' \<and> R j r r')"

lemma batch_law_Nil [simp]: "batch_law R [] q q' \<longleftrightarrow> q' = q"
  by (auto simp: batch_law_def)

lemma batch_law_Cons:
  assumes "moved (R j) (job_ID j) q q1" and "batch_law R js q1 q'" and "job_ID j \<notin> job_ID ` set js"
  shows "batch_law R (j # js) q q'"
proof -
  from assms(1) obtain r r1 where m: "q (job_ID j) = Some r" "R j r r1" "q1 = q(job_ID j \<mapsto> r1)"
    by (auto simp: moved_def)
  have j: "q' (job_ID j) = Some r1" using assms(2,3) m(3) by (simp add: batch_law_def)
  have "q' i = q i" if "i \<notin> job_ID ` set (j # js)" for i
    using that assms(2) m(3) by (simp add: batch_law_def)
  moreover have "\<exists>r r'. q (job_ID k) = Some r \<and> q' (job_ID k) = Some r' \<and> R k r r'" if k: "k \<in> set js" for k
  proof -
    have "job_ID k \<noteq> job_ID j" using k assms(3) by (metis imageI)
    then show ?thesis using k assms(2) m(3) by (auto simp: batch_law_def)
  qed
  ultimately show ?thesis using m(1,2) j by (auto simp: batch_law_def)
qed

lemma moved_mono: "moved R i q q' \<Longrightarrow> (\<And>r r'. R r r' \<Longrightarrow> R' r r') \<Longrightarrow> moved R' i q q'"
  by (auto simp: moved_def)

lemma moved_refl: "q i = Some r \<Longrightarrow> R r r \<Longrightarrow> moved R i q q"
  by (auto simp: moved_def fun_upd_idem)

definition all_running :: "job list \<Rightarrow> 'd aqueue \<Rightarrow> bool" where
  "all_running js q \<longleftrightarrow> (\<forall>j \<in> set js. \<exists>r. q (job_ID j) = Some r \<and> is_running (ar_state r))"

lemma all_running_other:
  assumes "all_running (j # js) q" and "q1 = q \<or> moved R (job_ID j) q q1" and "job_ID j \<notin> job_ID ` set js"
  shows "all_running js q1"
  unfolding all_running_def
proof
  fix k assume k: "k \<in> set js"
  then have "job_ID k \<noteq> job_ID j" using assms(3) by (metis imageI)
  with assms(2) have "q1 (job_ID k) = q (job_ID k)" by (auto simp: moved_def)
  with k assms(1) show "\<exists>r. q1 (job_ID k) = Some r \<and> is_running (ar_state r)" by (simp add: all_running_def)
qed

definition quote_stored :: "(time \<Rightarrow> time) \<Rightarrow> 'd fetch_result \<Rightarrow> 'd arepo \<Rightarrow> pair \<Rightarrow> bool" where
  "quote_stored ts res m p \<longleftrightarrow> (\<exists>q. fr_Quotes res p = Some q \<and> m p = Some (q\<lparr>quo_FetchedAt := ts (quo_FetchedAt q)\<rparr>))"

lemma quote_stored_keep:
  assumes "upsert_spec ts [q] m e m'" and "fr_Quotes res (quo_Pair q) = Some q" and "quote_stored ts res m p"
  shows "quote_stored ts res m' p"
proof -
  have "m' = m \<or> m' = m(quo_Pair q \<mapsto> q\<lparr>quo_FetchedAt := ts (quo_FetchedAt q)\<rparr>)"
    using assms(1) by (auto simp: upsert_spec_def le_Suc_eq split: option.splits)
  with assms(2,3) show ?thesis by (auto simp: quote_stored_def)
qed

text \<open>The life of a job over several steps.\<close>

definition job_steps :: "'d aqueue \<Rightarrow> 'd aqueue \<Rightarrow> bool" where
  "job_steps q q' \<longleftrightarrow> dom q' = dom q \<and> (\<forall>i r. q i = Some r \<longrightarrow> (\<exists>r'. q' i = Some r' \<and> job_trans\<^sup>*\<^sup>* r r'))"

lemma job_steps_refl [simp]: "job_steps q q"
  by (auto simp: job_steps_def)

lemma job_steps_trans: "job_steps q q' \<Longrightarrow> job_steps q' q'' \<Longrightarrow> job_steps q q''"
  unfolding job_steps_def by (metis rtranclp_trans)

lemma job_stepsI:
  assumes "\<And>i r. q i = Some r \<Longrightarrow> \<exists>r'. q' i = Some r' \<and> job_trans r r'" and "dom q' \<subseteq> dom q"
  shows "job_steps q q'"
proof -
  have "dom q' = dom q" using assms by (force simp: dom_def)
  with assms(1) show ?thesis unfolding job_steps_def by (metis r_into_rtranclp)
qed

lemma job_steps_terminal:
  assumes "job_steps q q'" and "q i = Some r" and "is_terminal (ar_state r)"
  shows "q' i = Some r"
proof -
  obtain r' where "q' i = Some r'" "job_trans\<^sup>*\<^sup>* r r'" using assms(1,2) unfolding job_steps_def by blast
  moreover from this(2) have "r' = r"
    by (induction rule: rtranclp_induct) (use assms(3) job_trans_terminal in auto)
  ultimately show ?thesis by simp
qed

lemma job_steps_same:
  assumes "job_steps q q'" and "q i = Some r"
  shows "\<exists>r'. q' i = Some r' \<and> same_job r r'"
proof -
  obtain r' where r': "q' i = Some r'" "job_trans\<^sup>*\<^sup>* r r'" using assms unfolding job_steps_def by blast
  from r'(2) have "same_job r r'"
    by (induction rule: rtranclp_induct) (auto simp: same_job_def dest!: job_trans_same_job)
  with r'(1) show ?thesis by blast
qed

lemma outcome_trans:
  "is_running (ar_state r) \<Longrightarrow> fail_outcome ck ts m r r' \<Longrightarrow> job_trans r r'"
  "is_running (ar_state r) \<Longrightarrow> retry_outcome ck ts lo hi r r' \<Longrightarrow> job_trans r r'"
  "is_running (ar_state r) \<Longrightarrow> done_outcome ck ts p u r r' \<Longrightarrow> job_trans r r'"
  by (auto simp: fail_outcome_def retry_outcome_def done_outcome_def intro: job_trans.intros)

lemma error_outcome_trans: "is_running (ar_state r) \<Longrightarrow> error_outcome ck ts wk err j r r' \<Longrightarrow> job_trans r r'"
  by (auto simp: error_outcome_eq budget_outcome_eq intro: outcome_trans split: if_splits)

lemma budget_outcome_trans: "is_running (ar_state r) \<Longrightarrow> budget_outcome ck ts wk j m r r' \<Longrightarrow> job_trans r r'"
  by (auto simp: budget_outcome_eq intro: outcome_trans split: if_splits)

lemma result_outcome_trans: "is_running (ar_state r) \<Longrightarrow> result_outcome ck ts res j r r' \<Longrightarrow> job_trans r r'"
  by (auto simp: result_outcome_def intro: outcome_trans split: option.splits)

lemma error_outcome_settles: "error_outcome ck ts wk err j r r' \<Longrightarrow> \<not> is_running (ar_state r')"
  by (auto simp: error_outcome_eq budget_outcome_eq fail_outcome_def retry_outcome_def arec_defs split: if_splits)

lemma result_outcome_settles: "result_outcome ck ts res j r r' \<Longrightarrow> \<not> is_running (ar_state r')"
  by (auto simp: result_outcome_def fail_outcome_def done_outcome_def arec_defs split: option.splits)

lemma batch_law_steps:
  assumes "batch_law R js q q'" and "all_running js q" and "\<And>j r r'. is_running (ar_state r) \<Longrightarrow> R j r r' \<Longrightarrow> job_trans r r'"
  shows "job_steps q q'"
proof (rule job_stepsI)
  fix i r assume r: "q i = Some r"
  show "\<exists>r'. q' i = Some r' \<and> job_trans r r'"
  proof (cases "i \<in> job_ID ` set js")
    case True
    then obtain j where j: "j \<in> set js" "i = job_ID j" by auto
    with assms(2) r have "is_running (ar_state r)" by (auto simp: all_running_def)
    moreover obtain r' where "q' i = Some r'" "R j r r'" using assms(1) j r by (auto simp: batch_law_def)
    ultimately show ?thesis using assms(3) by blast
  next
    case False
    then show ?thesis using assms(1) r by (auto simp: batch_law_def intro: job_trans.stay)
  qed
next
  show "dom q' \<subseteq> dom q"
  proof
    fix i assume "i \<in> dom q'"
    then show "i \<in> dom q"
      using assms(1) by (cases "i \<in> job_ID ` set js") (auto simp: batch_law_def dom_def)
  qed
qed

text \<open>The jobs \<open>Reserve\<close> handed out are running, distinct, and the ones it found.\<close>

lemma reserve_spec_running:
  assumes "reserve_spec lk t l n q js q'"
  shows "all_running js q'" and "distinct (map job_ID js)" and "length js \<le> n" and "job_steps q q'"
    and "j \<in> set js \<Longrightarrow> \<exists>r. q (job_ID j) = Some r \<and> eligible t r \<and> job_matches (job_ID j) r j"
    and "q' i = Some r \<Longrightarrow> is_running (ar_state r) \<Longrightarrow> i \<in> job_ID ` set js \<or> q i = Some r"
proof -
  have q': "q' = reserve_upd l (job_ID ` set js) q" using assms by (simp add: reserve_spec_def)
  show "all_running js q'"
    using assms unfolding all_running_def q' reserve_upd_def reserve_spec_def
    by (auto simp: lease_arec_def)
  show "distinct (map job_ID js)" "length js \<le> n" using assms by (simp_all add: reserve_spec_def)
  show "job_steps q q'"
  proof (rule job_stepsI)
    fix i r assume "q i = Some r"
    with reserve_spec_trans [OF assms] show "\<exists>r'. q' i = Some r' \<and> job_trans r r'" by blast
  next
    show "dom q' \<subseteq> dom q" by (auto simp: q' reserve_upd_def dom_def split: if_splits)
  qed
  show "j \<in> set js \<Longrightarrow> \<exists>r. q (job_ID j) = Some r \<and> eligible t r \<and> job_matches (job_ID j) r j"
    using assms unfolding reserve_spec_def by blast
  show "q' i = Some r \<Longrightarrow> is_running (ar_state r) \<Longrightarrow> i \<in> job_ID ` set js \<or> q i = Some r"
    by (auto simp: q' reserve_upd_def split: if_splits)
qed

definition wk_ready :: "('s \<Rightarrow> bool) \<Rightarrow> ('s \<Rightarrow> 'd aqueue) \<Rightarrow> (string \<Rightarrow> bool) \<Rightarrow> (pair \<Rightarrow> bool) \<Rightarrow> 's \<Rightarrow> bool" where
  "wk_ready invr absq ok_id ok_pair s \<longleftrightarrow>
     invr s \<and> (\<forall>i r. absq s i = Some r \<longrightarrow> ok_id i \<and> ok_pair (Pair (ar_base r) (ar_quote r)))"

lemma wk_ready_steps:
  assumes "wk_ready invr absq ok_id ok_pair s" and "job_steps (absq s) (absq s')" and "invr s'"
  shows "wk_ready invr absq ok_id ok_pair s'"
  unfolding wk_ready_def
proof (intro conjI allI impI assms(3))
  fix i r' assume r': "absq s' i = Some r'"
  then obtain r where "absq s i = Some r" using assms(2) unfolding job_steps_def by (metis domD domI)
  moreover from job_steps_same [OF assms(2) this] r' have "same_job r r'" by simp
  ultimately show "ok_id i" "ok_pair (Pair (ar_base r') (ar_quote r'))"
    using assms(1) by (auto simp: wk_ready_def same_job_def)
qed

section \<open>The worker over its three interfaces\<close>

locale worker_env =
  job_queue qops absq invar ts ok_id ok_job ok_reason quiet skipped readback +
  rates_provider pops +
  quote_repo rops absr rinvar rts ok_pair rquiet rreadback
  for qops :: "('s, 'd) queue_ops" and absq and invar and ts and ok_id and ok_job and ok_reason and quiet and skipped and readback
    and pops :: "('p, 'd) provider_ops"
    and rops :: "('r, 'd) repo_ops" and absr and rinvar and rts and ok_pair and rquiet and rreadback
begin

lemma fail_step:
  assumes "invar s" and "ok_id (job_ID j)" and "absq s (job_ID j) = Some r" and "is_running (ar_state r)"
    and "failJob qops j err s w = (s', w')"
  shows "same_oracles w w' \<and> step_law invar absq quiet (fail_outcome (clk w) ts (Error err)) (fail_outcome (clk w) ts (Error err))
      (ok_reason (Error err)) (job_ID j) s s'"
proof -
  obtain e s1 w1 where f: "Fail qops (job_ID j) (Error err) s w = (e, s1, w1)" by (metis prod_cases3)
  then have s': "s' = s1" "same_oracles w1 w'" using assms(5) by (auto simp: failJob_def split: option.splits)
  have R: "fail_outcome (clk w) ts (Error err) r (fail_arec (ts (Now w)) (Error err) r)"
    by (auto simp: fail_outcome_def Now_def)
  note law = fail_law [OF assms(1,2) f]
  note mv = upd_spec_moved [where R = "fail_outcome (clk w) ts (Error err)", OF law [THEN conjunct2, THEN conjunct2] assms(3,4) R]
  show ?thesis
    using law mv fail_quiet [OF _ assms(1,2) _ f] s' same_oracles_trans unfolding step_law_def by metis
qed

lemma reschedule_step:
  assumes "invar s" and "ok_id (job_ID j)" and "absq s (job_ID j) = Some r" and "is_running (ar_state r)"
    and "Reschedule qops (job_ID j) m d s w = (e, s', w')" and "lo \<le> d" and "d < hi"
  shows "same_oracles w w' \<and> step_law invar absq quiet (retry_outcome (clk w) ts lo hi) (retry_outcome (clk w) ts lo hi)
      (ok_reason m) (job_ID j) s s'"
proof -
  have R: "retry_outcome (clk w) ts lo hi r (resched_arec (ts (Now w + d)) r)"
    using assms(6,7) by (auto simp: retry_outcome_def Now_def)
  note law = reschedule_law [OF assms(1,2,5)]
  note mv = upd_spec_moved [where R = "retry_outcome (clk w) ts lo hi", OF law [THEN conjunct2, THEN conjunct2] assms(3,4) R]
  show ?thesis
    using law mv reschedule_quiet [OF _ assms(1,2) _ assms(5)] unfolding step_law_def by metis
qed

lemma budget_step:
  assumes "invar s" and "ok_id (job_ID j)" and "absq s (job_ID j) = Some r" and "is_running (ar_state r)"
    and "rescheduleOrFail qops wk j err s w = (s', w')"
  shows "same_oracles w w' \<and> step_law invar absq quiet (budget_outcome (clk w) ts wk j (Error err)) (budget_outcome (clk w) ts wk j (Error err))
      (ok_reason (Error err)) (job_ID j) s s'"
proof (cases "job_Attempts j < wk_maxAttempts wk")
  case True
  obtain d w1 where c: "Compute (job_Attempts j) w = (d, w1)" by force
  obtain e s2 w2 where rs: "Reschedule qops (job_ID j) (Error err) d s w1 = (e, s2, w2)" by (metis prod_cases3)
  have s': "s' = s2" "w' = w2" using assms(5) True c rs by (simp_all add: rescheduleOrFail_def)
  have d: "0 \<le> d" "d < backoff_window (job_Attempts j)" "same_oracles w w1"
    using Compute_range [of "job_Attempts j" w] Compute_oracles [of w "job_Attempts j"] c by simp_all
  from d(3) have "clk w1 = clk w" by (simp add: same_oracles_def)
  moreover from reschedule_step [OF assms(1-4) rs d(1,2)] have "same_oracles w1 w2" by simp
  ultimately show ?thesis
    using reschedule_step [OF assms(1-4) rs d(1,2)] same_oracles_trans [OF d(3)] True s'
    by (simp add: budget_outcome_eq step_law_def)
next
  case False
  then show ?thesis using fail_step [OF assms(1-4)] assms(5) by (simp add: rescheduleOrFail_def budget_outcome_eq)
qed

lemma error_step:
  assumes "invar s" and "ok_id (job_ID j)" and "absq s (job_ID j) = Some r" and "is_running (ar_state r)"
    and "handleBatchError qops wk j err s w = (s', w')"
  shows "same_oracles w w' \<and> step_law invar absq quiet (error_outcome (clk w) ts wk err j) (error_outcome (clk w) ts wk err j)
      (ok_reason (Error (classify err))) (job_ID j) s s'"
proof -
  consider (quota) "Code (classify err) = ''quota_exceeded''"
    | (trans) "Code (classify err) = ''transient''"
    | (perm) "Code (classify err) \<noteq> ''quota_exceeded''" "Code (classify err) \<noteq> ''transient''" by blast
  then show ?thesis
  proof cases
    case quota
    obtain e s1 w1 where rs: "Reschedule qops (job_ID j) (Error (classify err)) hour s (tick w) = (e, s1, w1)" by (metis prod_cases3)
    then have "s' = s1" "w' = w1" using assms(5) quota by (simp_all add: handleBatchError_def)
    with reschedule_step [OF assms(1-4) rs, of hour "hour + 1"] quota show ?thesis
      by (simp add: error_outcome_eq same_oracles_def)
  next
    case trans
    then show ?thesis
      using budget_step [OF assms(1-4)] assms(5) by (simp add: handleBatchError_def error_outcome_eq)
  next
    case perm
    then show ?thesis
      using fail_step [OF assms(1-4)] assms(5) by (simp add: handleBatchError_def error_outcome_eq)
  qed
qed

lemma failBatch_law:
  assumes "invar s" and "\<forall>j \<in> set js. ok_id (job_ID j)" and "all_running js (absq s)" and "distinct (map job_ID js)"
    and "failBatch qops wk err js s w = (s', w')"
  shows "invar s' \<and> same_oracles w w'
    \<and> batch_law (\<lambda>j r r'. r' = r \<or> error_outcome (clk w) ts wk err j r r') js (absq s) (absq s')
    \<and> (quiet s \<and> ok_reason (Error (classify err)) \<longrightarrow>
        quiet s' \<and> batch_law (error_outcome (clk w) ts wk err) js (absq s) (absq s'))"
  using assms
proof (induction js arbitrary: s w)
  case Nil
  then show ?case by simp
next
  case (Cons j js)
  obtain s1 w1 where one: "handleBatchError qops wk j err s w = (s1, w1)" by force
  then have rest: "failBatch qops wk err js s1 w1 = (s', w')" using Cons.prems(5) by simp
  obtain r where r: "absq s (job_ID j) = Some r" "is_running (ar_state r)" using Cons.prems(3) by (auto simp: all_running_def)
  have id: "ok_id (job_ID j)" "job_ID j \<notin> job_ID ` set js" "distinct (map job_ID js)" using Cons.prems(2,4) by auto
  note step = error_step [OF Cons.prems(1) id(1) r one]
  then have inv1: "invar s1" and o1: "same_oracles w w1" and ck: "clk w1 = clk w"
    and m1: "absq s1 = absq s \<or> moved (error_outcome (clk w) ts wk err j) (job_ID j) (absq s) (absq s1)"
    by (auto simp: step_law_def same_oracles_def)
  have run: "all_running js (absq s1)" by (rule all_running_other [OF Cons.prems(3) m1 id(2)])
  have ih: "invar s' \<and> same_oracles w1 w'
    \<and> batch_law (\<lambda>j r r'. r' = r \<or> error_outcome (clk w) ts wk err j r r') js (absq s1) (absq s')
    \<and> (quiet s1 \<and> ok_reason (Error (classify err)) \<longrightarrow>
        quiet s' \<and> batch_law (error_outcome (clk w) ts wk err) js (absq s1) (absq s'))"
    using Cons.IH [OF inv1 _ run id(3) rest] Cons.prems(2) ck by simp
  have "moved (\<lambda>r r'. r' = r \<or> error_outcome (clk w) ts wk err j r r') (job_ID j) (absq s) (absq s1)"
    using m1 r(1) by (auto intro: moved_mono moved_refl)
  from batch_law_Cons [where R = "\<lambda>j r r'. r' = r \<or> error_outcome (clk w) ts wk err j r r'", OF this] ih id(2)
  have "batch_law (\<lambda>j r r'. r' = r \<or> error_outcome (clk w) ts wk err j r r') (j # js) (absq s) (absq s')" by blast
  moreover have "quiet s' \<and> batch_law (error_outcome (clk w) ts wk err) (j # js) (absq s) (absq s')"
    if "quiet s \<and> ok_reason (Error (classify err))"
    using that step ih batch_law_Cons [where R = "error_outcome (clk w) ts wk err", OF _ _ id(2)] by (auto simp: step_law_def)
  ultimately show ?case using ih o1 same_oracles_trans by blast
qed

lemma complete_step:
  assumes "invar s" and "ok_id (job_ID j)" and "absq s (job_ID j) = Some r" and "is_running (ar_state r)"
    and "Complete qops (job_ID j) p u s w = (e, s', w')"
  shows "same_oracles w w' \<and> step_law invar absq quiet (done_outcome (clk w) ts p u) (done_outcome (clk w) ts p u)
      True (job_ID j) s s'"
proof -
  have R: "done_outcome (clk w) ts p u r (done_arec (ts (Now w)) p (ts u) r)"
    by (auto simp: done_outcome_def Now_def)
  note law = complete_law [OF assms(1,2,5)]
  note mv = upd_spec_moved [where R = "done_outcome (clk w) ts p u", OF law [THEN conjunct2, THEN conjunct2] assms(3,4) R]
  show ?thesis
    using law mv complete_quiet [OF _ assms(1,2,5)] unfolding step_law_def by metis
qed

lemma process_step:
  assumes inv: "invar s" and id: "ok_id (job_ID j)" and r: "absq s (job_ID j) = Some r" "is_running (ar_state r)"
    and rinv: "rinvar rp" and okp: "ok_pair (job_pair j)" and filed: "\<forall>p q. fr_Quotes res p = Some q \<longrightarrow> quo_Pair q = p"
    and pj: "processJob qops rops wk res j s rp w = (s', rp', w')"
  shows "same_oracles w w' \<and> rinvar rp' \<and> (rquiet rp \<longrightarrow> rquiet rp')
    \<and> step_law invar absq quiet
        (\<lambda>r r'. result_outcome (clk w) ts res j r r' \<or> (\<exists>m. budget_outcome (clk w) ts wk j m r r'))
        (result_outcome (clk w) ts res j) (rquiet rp \<and> ok_reason ''missing in upstream response'') (job_ID j) s s'
    \<and> (\<forall>p. quote_stored rts res (absr rp) p \<longrightarrow> quote_stored rts res (absr rp') p)
    \<and> (\<forall>r' t p u. absq s' (job_ID j) = Some r' \<and> ar_state r' = Done t p u \<longrightarrow> quote_stored rts res (absr rp') (job_pair j))"
proof (cases "fr_Quotes res (job_pair j)")
  case None
  obtain s1 w1 where f: "failJob qops j (ErrorsNew ''missing in upstream response'') s w = (s1, w1)" by force
  have eqs: "s' = s1" "rp' = rp" "w' = w1" using pj None f by (simp_all add: processJob_def)
  have out: "result_outcome (clk w) ts res j = fail_outcome (clk w) ts ''missing in upstream response''"
    using None by (simp add: fun_eq_iff result_outcome_def)
  have step: "same_oracles w w1 \<and> step_law invar absq quiet (fail_outcome (clk w) ts ''missing in upstream response'')
      (fail_outcome (clk w) ts ''missing in upstream response'') (ok_reason ''missing in upstream response'') (job_ID j) s s1"
    using fail_step [OF inv id r f] by simp
  have "ar_state r' \<noteq> Done t p u" if "absq s1 (job_ID j) = Some r'" for r' t p u
    using step r that by (auto simp: step_law_def moved_def fail_outcome_def fail_arec_def)
  with step rinv show ?thesis unfolding eqs out by (auto simp: step_law_def intro: moved_mono)
next
  case (Some q)
  have qp: "quo_Pair q = job_pair j" using filed Some by blast
  obtain e1 r1 w1 where up: "UpsertBatch rops [q] rp w = (e1, r1, w1)" by (metis prod_cases3)
  have ok1: "\<forall>x \<in> set [q]. ok_pair (quo_Pair x)" using okp qp by simp
  have law: "rinvar r1" "w1 = w" "upsert_spec rts [q] (absr rp) e1 (absr r1)"
    using upsert_law [OF rinv ok1 up] by auto
  have rq: "rquiet rp \<Longrightarrow> rquiet r1 \<and> e1 = None" by (rule upsert_quiet [OF _ rinv ok1 up])
  have keep: "quote_stored rts res (absr rp) p \<Longrightarrow> quote_stored rts res (absr r1) p" for p
    using quote_stored_keep [OF law(3)] Some qp by metis
  have out: "result_outcome (clk w) ts res j = done_outcome (clk w) ts (quo_Price q) (quo_FetchedAt q)"
    using Some by (simp add: fun_eq_iff result_outcome_def)
  show ?thesis
  proof (cases e1)
    case err: (Some x)
    obtain s2 w2 where b: "rescheduleOrFail qops wk j (Wrapf ''upsert quote'' x) s w = (s2, w2)" by force
    have eqs: "s' = s2" "rp' = r1" "w' = w2" using pj Some up err b law(2) by (simp_all add: processJob_def)
    note step = budget_step [OF inv id r b]
    have "ar_state r' \<noteq> Done t p u" if "absq s2 (job_ID j) = Some r'" for r' t p u
      using step r that
      by (auto simp: step_law_def moved_def budget_outcome_def fail_outcome_def retry_outcome_def fail_arec_def resched_arec_def split: if_splits)
    with step law(1) rq err keep show ?thesis unfolding eqs by (auto simp: step_law_def intro: moved_mono)
  next
    case None
    obtain e2 s2 w2 where c: "Complete qops (job_ID j) (quo_Price q) (quo_FetchedAt q) s w = (e2, s2, w2)" by (metis prod_cases3)
    have eqs: "s' = s2" "rp' = r1" "same_oracles w2 w'"
      using pj Some up None c law(2) by (auto simp: processJob_def Let_def split: option.splits if_splits)
    have "quote_stored rts res (absr r1) (job_pair j)"
      using law(3) None Some qp by (simp add: upsert_spec_def quote_stored_def)
    moreover note step = complete_step [OF inv id r c]
    moreover have "same_oracles w w'" using step eqs(3) same_oracles_trans by blast
    ultimately show ?thesis using law(1) rq keep unfolding eqs(1,2) out by (auto simp: step_law_def intro: moved_mono)
  qed
qed

lemma processBatch_law:
  assumes "invar s" and "\<forall>j \<in> set js. ok_id (job_ID j) \<and> ok_pair (job_pair j)" and "all_running js (absq s)"
    and "distinct (map job_ID js)" and "rinvar rp" and filed: "\<forall>p q. fr_Quotes res p = Some q \<longrightarrow> quo_Pair q = p"
    and "processBatch qops rops wk res js s rp w = (s', rp', w')"
  shows "invar s' \<and> same_oracles w w' \<and> rinvar rp'
    \<and> batch_law (\<lambda>j r r'. r' = r \<or> result_outcome (clk w) ts res j r r' \<or> (\<exists>m. budget_outcome (clk w) ts wk j m r r')) js (absq s) (absq s')
    \<and> (quiet s \<and> rquiet rp \<and> ok_reason ''missing in upstream response'' \<longrightarrow>
        quiet s' \<and> rquiet rp' \<and> batch_law (result_outcome (clk w) ts res) js (absq s) (absq s'))
    \<and> (\<forall>p. quote_stored rts res (absr rp) p \<longrightarrow> quote_stored rts res (absr rp') p)
    \<and> (\<forall>j \<in> set js. \<forall>r' t p u. absq s' (job_ID j) = Some r' \<and> ar_state r' = Done t p u \<longrightarrow> quote_stored rts res (absr rp') (job_pair j))"
  using assms(1-5,7)
proof (induction js arbitrary: s rp w)
  case Nil
  then show ?case by simp
next
  case (Cons j js)
  let ?R = "\<lambda>j r r'. r' = r \<or> result_outcome (clk w) ts res j r r' \<or> (\<exists>m. budget_outcome (clk w) ts wk j m r r')"
  obtain s1 rp1 w1 where one: "processJob qops rops wk res j s rp w = (s1, rp1, w1)" by (metis prod_cases3)
  then have rest: "processBatch qops rops wk res js s1 rp1 w1 = (s', rp', w')" using Cons.prems(6) by simp
  obtain r where r: "absq s (job_ID j) = Some r" "is_running (ar_state r)" using Cons.prems(3) by (auto simp: all_running_def)
  have id: "ok_id (job_ID j)" "ok_pair (job_pair j)" "job_ID j \<notin> job_ID ` set js" "distinct (map job_ID js)"
    using Cons.prems(2,4) by auto
  note step = process_step [OF Cons.prems(1) id(1) r Cons.prems(5) id(2) filed one]
  then have inv1: "invar s1" "rinvar rp1" and o1: "same_oracles w w1" and ck: "clk w1 = clk w"
    and m1: "absq s1 = absq s \<or> moved (\<lambda>r r'. result_outcome (clk w) ts res j r r' \<or> (\<exists>m. budget_outcome (clk w) ts wk j m r r'))
        (job_ID j) (absq s) (absq s1)"
    by (auto simp: step_law_def same_oracles_def)
  have run: "all_running js (absq s1)" by (rule all_running_other [OF Cons.prems(3) m1 id(3)])
  have "\<forall>j \<in> set js. ok_id (job_ID j) \<and> ok_pair (job_pair j)" using Cons.prems(2) by simp
  note ih = Cons.IH [OF inv1(1) this run id(4) inv1(2) rest, unfolded ck]
  have m2: "moved (?R j) (job_ID j) (absq s) (absq s1)"
    using m1 r(1) by (auto intro: moved_mono moved_refl)
  have law: "batch_law ?R (j # js) (absq s) (absq s')"
    by (rule batch_law_Cons [where R = ?R, OF m2 _ id(3)]) (use ih in blast)
  have "absq s' (job_ID j) = absq s1 (job_ID j)"
    using ih id(3) unfolding batch_law_def by blast
  then have stored: "\<forall>k \<in> set (j # js). \<forall>r' t p u. absq s' (job_ID k) = Some r' \<and> ar_state r' = Done t p u
      \<longrightarrow> quote_stored rts res (absr rp') (job_pair k)"
    using ih step by auto
  have exact: "quiet s' \<and> rquiet rp' \<and> batch_law (result_outcome (clk w) ts res) (j # js) (absq s) (absq s')"
    if "quiet s \<and> rquiet rp \<and> ok_reason ''missing in upstream response''"
    using that step ih batch_law_Cons [where R = "result_outcome (clk w) ts res", OF _ _ id(3)] unfolding step_law_def by blast
  show ?case
    using ih law stored exact step o1 same_oracles_trans by blast
qed

text \<open>What one batch does to the queue, for both ways the fetch can end.\<close>

lemma dispatchBatch_law:
  assumes "invar s" and "\<forall>j \<in> set js. ok_id (job_ID j) \<and> ok_pair (job_pair j)" and "all_running js (absq s)"
    and "distinct (map job_ID js)" and "rinvar rp" and fetch: "FetchPairs pops (map job_pair js) p w = (out, p1, w1)"
    and d: "dispatchBatch qops pops rops wk js s p rp w = (s', p', rp', w')"
  shows "invar s' \<and> same_oracles w w' \<and> rinvar rp' \<and> p' = p1
    \<and> (case out of
         Inl err \<Rightarrow> batch_law (\<lambda>j r r'. r' = r \<or> error_outcome (clk w) ts wk err j r r') js (absq s) (absq s') \<and> rp' = rp
           \<and> (quiet s \<and> ok_reason (Error (classify err)) \<longrightarrow>
               quiet s' \<and> batch_law (error_outcome (clk w) ts wk err) js (absq s) (absq s'))
       | Inr res \<Rightarrow>
           batch_law (\<lambda>j r r'. r' = r \<or> result_outcome (clk w) ts res j r r' \<or> (\<exists>m. budget_outcome (clk w) ts wk j m r r')) js (absq s) (absq s')
           \<and> (quiet s \<and> rquiet rp \<and> ok_reason ''missing in upstream response'' \<longrightarrow>
               quiet s' \<and> rquiet rp' \<and> batch_law (result_outcome (clk w) ts res) js (absq s) (absq s'))
           \<and> (\<forall>j \<in> set js. \<forall>r' t p u. absq s' (job_ID j) = Some r' \<and> ar_state r' = Done t p u \<longrightarrow>
               quote_stored rts res (absr rp') (job_pair j)))"
proof -
  have o1: "same_oracles w w1" by (rule fetch_oracles [OF fetch])
  then have ck: "clk w1 = clk w" by (simp add: same_oracles_def)
  show ?thesis
  proof (cases out)
    case (Inl err)
    obtain s2 w2 where f: "failBatch qops wk err js s w1 = (s2, w2)" by force
    have eqs: "s' = s2" "p' = p1" "rp' = rp" "w' = w2" using d fetch Inl f by (simp_all add: dispatchBatch_def)
    have "\<forall>j \<in> set js. ok_id (job_ID j)" using assms(2) by blast
    from failBatch_law [OF assms(1) this assms(3,4) f] o1 same_oracles_trans assms(5) show ?thesis
      unfolding eqs Inl ck sum.case by blast
  next
    case (Inr res)
    obtain s2 r2 w2 where b: "processBatch qops rops wk res js s rp w1 = (s2, r2, w2)" by (metis prod_cases3)
    have eqs: "s' = s2" "p' = p1" "rp' = r2" "w' = w2" using d fetch Inr b by (simp_all add: dispatchBatch_def)
    have filed: "\<forall>p q. fr_Quotes res p = Some q \<longrightarrow> quo_Pair q = p"
      using fetch_sound [OF fetch [unfolded Inr]] by (simp add: fetch_ok_def)
    from processBatch_law [OF assms(1-5) filed b] o1 same_oracles_trans show ?thesis
      unfolding eqs Inr ck sum.case by blast
  qed
qed

text \<open>A dispatched batch in terms of the jobs' lives: every job makes an allowed step, and with no storage
  failure ahead no job of the batch is left running.\<close>

lemma dispatch_steps:
  assumes inv: "invar s" and ok: "\<forall>j \<in> set js. ok_id (job_ID j) \<and> ok_pair (job_pair j)"
    and run: "all_running js (absq s)" and dist: "distinct (map job_ID js)" and rinv: "rinvar rp"
    and d: "dispatchBatch qops pops rops wk js s p rp w = (s', p', rp', w')"
  shows "job_steps (absq s) (absq s')"
    and "quiet s \<Longrightarrow> rquiet rp \<Longrightarrow> \<forall>m. ok_reason m \<Longrightarrow> quiet s' \<and> rquiet rp'
      \<and> (\<forall>i r'. absq s' i = Some r' \<and> is_running (ar_state r') \<longrightarrow> absq s i = Some r' \<and> i \<notin> job_ID ` set js)"
proof -
  obtain fo p1 w2 where fetch: "FetchPairs pops (map job_pair js) p w = (fo, p1, w2)" by (metis prod_cases3)
  note dl = dispatchBatch_law [OF inv ok run dist rinv fetch d]
  show "job_steps (absq s) (absq s')"
  proof (cases fo)
    case (Inl err)
    with dl have "batch_law (\<lambda>j r r'. r' = r \<or> error_outcome (clk w) ts wk err j r r') js (absq s) (absq s')" by simp
    then show ?thesis
      by (rule batch_law_steps [OF _ run]) (auto intro: job_trans.stay error_outcome_trans)
  next
    case (Inr rs)
    with dl have "batch_law (\<lambda>j r r'. r' = r \<or> result_outcome (clk w) ts rs j r r' \<or> (\<exists>m. budget_outcome (clk w) ts wk j m r r'))
        js (absq s) (absq s')" by simp
    then show ?thesis
      by (rule batch_law_steps [OF _ run]) (auto intro: job_trans.stay result_outcome_trans budget_outcome_trans)
  qed
  assume q: "quiet s" "rquiet rp" "\<forall>m. ok_reason m"
  obtain R where R: "batch_law R js (absq s) (absq s')" "\<And>j r r'. R j r r' \<Longrightarrow> \<not> is_running (ar_state r')" and q': "quiet s'" "rquiet rp'"
  proof (cases fo)
    case (Inl err)
    with dl q have "batch_law (error_outcome (clk w) ts wk err) js (absq s) (absq s')" "quiet s'" "rquiet rp'" by auto
    then show thesis using that error_outcome_settles by blast
  next
    case (Inr rs)
    with dl q have "batch_law (result_outcome (clk w) ts rs) js (absq s) (absq s')" "quiet s'" "rquiet rp'" by auto
    then show thesis using that result_outcome_settles by blast
  qed
  have "absq s i = Some r' \<and> i \<notin> job_ID ` set js" if i: "absq s' i = Some r'" "is_running (ar_state r')" for i r'
  proof -
    have "i \<notin> job_ID ` set js" using R i by (force simp: batch_law_def)
    then show ?thesis using R(1) i(1) by (simp add: batch_law_def)
  qed
  with q' show "quiet s' \<and> rquiet rp'
      \<and> (\<forall>i r'. absq s' i = Some r' \<and> is_running (ar_state r') \<longrightarrow> absq s i = Some r' \<and> i \<notin> job_ID ` set js)" by blast
qed

text \<open>One poll: no panic, every job moves along its life, and when no storage failure is ahead
  no job the poll touched is left running.\<close>

lemma reserved_dispatch:
  assumes rdy: "wk_ready invar absq ok_id ok_pair s" and rinv: "rinvar rp" and spec: "reserve_spec lk t l n (absq s) js (absq s1)"
    and inv: "invar s1" and d: "dispatchBatch qops pops rops wk js s1 p rp w = (s', p', rp', w')"
  shows "invar s' \<and> rinvar rp' \<and> same_oracles w w' \<and> job_steps (absq s) (absq s')
    \<and> (quiet s1 \<and> rquiet rp \<and> (\<forall>m. ok_reason m) \<longrightarrow>
        quiet s' \<and> rquiet rp' \<and> (\<forall>i r'. absq s' i = Some r' \<and> is_running (ar_state r') \<longrightarrow> absq s i = Some r'))"
proof -
  note run = reserve_spec_running [OF spec]
  have ok: "\<forall>j \<in> set js. ok_id (job_ID j) \<and> ok_pair (job_pair j)"
  proof
    fix j assume "j \<in> set js"
    from run(5) [OF this] rdy show "ok_id (job_ID j) \<and> ok_pair (job_pair j)"
      by (auto simp: wk_ready_def job_matches_def job_pair_def)
  qed
  obtain fo p1 w2 where fetch: "FetchPairs pops (map job_pair js) p w = (fo, p1, w2)" by (metis prod_cases3)
  have law: "invar s' \<and> rinvar rp' \<and> same_oracles w w'" using dispatchBatch_law [OF inv ok run(1,2) rinv fetch d] by simp
  note steps = dispatch_steps [OF inv ok run(1,2) rinv d]
  have "quiet s' \<and> rquiet rp' \<and> (\<forall>i r'. absq s' i = Some r' \<and> is_running (ar_state r') \<longrightarrow> absq s i = Some r')"
    if "quiet s1 \<and> rquiet rp \<and> (\<forall>m. ok_reason m)"
  proof (intro conjI allI impI)
    show "quiet s'" "rquiet rp'" using steps(2) that by simp_all
    fix i r' assume "absq s' i = Some r' \<and> is_running (ar_state r')"
    with steps(2) that have "absq s1 i = Some r'" "i \<notin> job_ID ` set js" "is_running (ar_state r')" by blast+
    with run(6) show "absq s i = Some r'" by metis
  qed
  with law job_steps_trans [OF run(4) steps(1)] show ?thesis by simp
qed

lemma poll_law:
  assumes rdy: "wk_ready invar absq ok_id ok_pair (st_queue st)" and rinv: "rinvar (st_repo st)" and n: "0 \<le> wk_batchSize wk"
  shows "\<exists>st' w'. worker_poll qops pops rops wk st w = Ok (st', w')
    \<and> invar (st_queue st') \<and> rinvar (st_repo st') \<and> same_oracles w w'
    \<and> job_steps (absq (st_queue st)) (absq (st_queue st'))
    \<and> (quiet (st_queue st) \<and> rquiet (st_repo st) \<and> (\<forall>m. ok_reason m) \<longrightarrow>
        quiet (st_queue st') \<and> rquiet (st_repo st')
        \<and> (\<forall>i r'. absq (st_queue st') i = Some r' \<and> is_running (ar_state r') \<longrightarrow> absq (st_queue st) i = Some r'))"
proof -
  let ?s = "st_queue st"
  have inv: "invar ?s" using rdy by (simp add: wk_ready_def)
  obtain out s1 w1 where res: "Reserve qops (wk_batchSize wk) (wk_leaseTime wk) ?s (tick w) = (out, s1, w1)" by (metis prod_cases3)
  note law = reserve_law [OF inv n res]
  note qlaw = reserve_quiet [OF _ inv n res]
  have o1: "same_oracles w w1" using law same_oracles_trans [of w "tick w" w1] by simp
  consider (err) e where "out = Ok (Inl e)" | (jobs) js where "out = Ok (Inr js)" using law by (cases out) (auto split: sum.splits)
  then show ?thesis
  proof cases
    case (err e)
    have "job_steps (absq ?s) (absq s1)" using law err reserve_spec_running(4) by auto
    with law qlaw err res rinv o1 show ?thesis by (fastforce simp: worker_poll_def)
  next
    case (jobs js)
    have spec: "reserve_spec (skipped ?s) (ts (Now (tick w))) (ts (Now (tick w) + wk_leaseTime wk)) (nat (wk_batchSize wk)) (absq ?s) js (absq s1)"
      and inv1: "invar s1" using law jobs by simp_all
    show ?thesis
    proof (cases "js = []")
      case True
      have "quiet ?s \<Longrightarrow> quiet s1" using qlaw by blast
      with True jobs res inv1 rinv o1 reserve_spec_running(4,6) [OF spec] show ?thesis by (fastforce simp: worker_poll_def)
    next
      case False
      let ?w1 = "tick (emit (Inc MetricWorkerIterationsTotal [''work'']) w1)"
      obtain s' p' rp' w' where d: "dispatchBatch qops pops rops wk js s1 (st_provider st) (st_repo st) ?w1 = (s', p', rp', w')"
        by (metis prod_cases4)
      have poll: "worker_poll qops pops rops wk st w =
          Ok (st\<lparr>st_lastIteration := wrap64 (Now w), st_queue := s', st_provider := p', st_repo := rp'\<rparr>, w')"
        using False jobs res d by (simp add: worker_poll_def)
      note rd = reserved_dispatch [OF rdy rinv spec inv1 d]
      have "same_oracles w w'" using o1 rd same_oracles_trans [of w ?w1 w'] by simp
      with poll rd qlaw show ?thesis by simp
    qed
  qed
qed

lemma clean_law:
  assumes "wk_ready invar absq ok_id ok_pair (st_queue st)" and "worker_clean qops st w = (st', w')"
  shows "invar (st_queue st') \<and> same_oracles w w' \<and> job_steps (absq (st_queue st)) (absq (st_queue st'))
    \<and> st_repo st' = st_repo st \<and> st_provider st' = st_provider st"
proof -
  let ?s = "st_queue st"
  have inv: "invar ?s" using assms(1) by (simp add: wk_ready_def)
  obtain out s1 w1 where rec: "RecoverExpired qops ?s (tick w) = (out, s1, w1)" by (metis prod_cases3)
  note law = recover_law [OF inv rec]
  have eqs: "st_queue st' = s1" "st_repo st' = st_repo st" "st_provider st' = st_provider st" "same_oracles w1 w'"
    using assms(2) rec by (auto simp: worker_clean_def split: sum.splits)
  have "job_steps (absq ?s) (absq s1)"
  proof (rule job_stepsI)
    fix i r assume "absq ?s i = Some r"
    with law recover_spec_trans show "\<exists>r'. absq s1 i = Some r' \<and> job_trans r r'" by blast
  next
    have "dom (recover_upd t q) = dom q" for t and q :: "'d aqueue" by (auto simp: recover_upd_def dom_def)
    moreover have "absq s1 = absq ?s \<or> absq s1 = recover_upd (ts (Now (tick w))) (absq ?s)"
      using law by (auto simp: recover_spec_def split: sum.splits)
    ultimately show "dom (absq s1) \<subseteq> dom (absq ?s)" by (metis order_refl)
  qed
  with law eqs same_oracles_trans [of w "tick w" w1] same_oracles_trans [of w w1 w'] show ?thesis by simp
qed

text \<open>The whole loop: whatever the ticks, whatever the stores and the upstream do, it does not
  panic, keeps the stores consistent and moves jobs only along their life.\<close>

lemma loop_law:
  assumes "wk_ready invar absq ok_id ok_pair (st_queue st)" and "rinvar (st_repo st)" and "0 \<le> wk_batchSize wk"
  shows "\<exists>st' w' e. worker_loop qops pops rops wk es st w = Ok (st', w', e)
    \<and> wk_ready invar absq ok_id ok_pair (st_queue st') \<and> rinvar (st_repo st')
    \<and> job_steps (absq (st_queue st)) (absq (st_queue st')) \<and> (e = (if CtxDone \<in> set es then Some Canceled else None))"
  using assms
proof (induction es arbitrary: st w)
  case Nil
  then show ?case by simp
next
  case (Cons ev es)
  show ?case
  proof (cases ev)
    case PollTick
    obtain st1 w1 where p: "worker_poll qops pops rops wk st w = Ok (st1, w1)" "invar (st_queue st1)" "rinvar (st_repo st1)"
        "job_steps (absq (st_queue st)) (absq (st_queue st1))"
      using poll_law [OF Cons.prems, of w] by blast
    have "wk_ready invar absq ok_id ok_pair (st_queue st1)" by (rule wk_ready_steps [OF Cons.prems(1) p(4,2)])
    from Cons.IH [OF this p(3) Cons.prems(3), of w1] show ?thesis
      using PollTick p(1) job_steps_trans [OF p(4)] by auto
  next
    case CleanTick
    obtain st1 w1 where c: "worker_clean qops st w = (st1, w1)" by force
    note law = clean_law [OF Cons.prems(1) c]
    then have "wk_ready invar absq ok_id ok_pair (st_queue st1)" by (intro wk_ready_steps [OF Cons.prems(1)]) auto
    moreover have "rinvar (st_repo st1)" using law Cons.prems(2) by simp
    ultimately show ?thesis
      using Cons.IH [of st1 w1] Cons.prems(3) CleanTick c law job_steps_trans [of "absq (st_queue st)" "absq (st_queue st1)"] by auto
  next
    case CtxDone
    then show ?thesis using Cons.prems by simp
  qed
qed

end

interpretation memw: worker_env "mem_ops ord" mem_abs mem_invar "\<lambda>t. t" "\<lambda>i. True" "\<lambda>j. job_Attempts j = 0"
  "\<lambda>m. True" "\<lambda>q. True" "\<lambda>q. {}" "\<lambda>p. p" "apilayer_ops env"
  memrepo_ops memrepo_abs memrepo_invar "\<lambda>t. t" "\<lambda>p. True" "\<lambda>s. True" "\<lambda>p. p" for ord env
  by unfold_locales

interpretation pgw: worker_env "pg_ops genv" pg_abs pg_invar "pe_ts genv" "\<lambda>i. pe_uuid genv i = Some i" "pg_ok_job genv"
  pg_ok_reason pg_quiet pg_skipped "pg_readback genv" "apilayer_ops env"
  "pgrepo_ops renv" pgrepo_abs pgrepo_invar "qe_ts renv" pgrepo_ok pgrepo_quiet "pgrepo_readback renv" for genv env renv
  by unfold_locales

section \<open>A finished job has its quote stored\<close>

lemma error_outcome_not_done: "error_outcome ck ts wk err j r r' \<Longrightarrow> ar_state r' \<noteq> Done t p u"
  by (auto simp: error_outcome_eq budget_outcome_eq fail_outcome_def retry_outcome_def arec_defs split: if_splits)

lemma result_outcome_done:
  assumes "r' = r \<or> result_outcome ck ts res j r r' \<or> (\<exists>m. budget_outcome ck ts wk j m r r')"
    and "is_running (ar_state r)" and "ar_state r' = Done t p u"
  shows "\<exists>q. fr_Quotes res (job_pair j) = Some q \<and> p = quo_Price q \<and> u = ts (quo_FetchedAt q)"
  using assms
  by (auto simp: result_outcome_def budget_outcome_eq fail_outcome_def retry_outcome_def done_outcome_def arec_defs split: if_splits option.splits)

context worker_env
begin

text \<open>The dispatch of one reserved batch: a job that is done afterwards has the price of its pair
  in the repository.\<close>

lemma dispatch_done_stored:
  assumes "invar s" and "\<forall>j \<in> set js. ok_id (job_ID j) \<and> ok_pair (job_pair j)" and run: "all_running js (absq s)"
    and "distinct (map job_ID js)" and "rinvar rp"
    and d: "dispatchBatch qops pops rops wk js s p rp w = (s', p', rp', w')"
    and j: "j \<in> set js" and fin: "absq s' (job_ID j) = Some r'" "ar_state r' = Done t x u"
  shows "\<exists>q. absr rp' (job_pair j) = Some q \<and> quo_Price q = x"
proof -
  obtain out p1 w1 where fetch: "FetchPairs pops (map job_pair js) p w = (out, p1, w1)" by (metis prod_cases3)
  note law = dispatchBatch_law [OF assms(1-5) fetch d]
  obtain r where r: "absq s (job_ID j) = Some r" "is_running (ar_state r)" using run j by (auto simp: all_running_def)
  show ?thesis
  proof (cases out)
    case (Inl err)
    with law j r fin have "r' = r \<or> error_outcome (clk w) ts wk err j r r'" by (auto simp: batch_law_def)
    with fin(2) r(2) error_outcome_not_done show ?thesis by fastforce
  next
    case (Inr res)
    with law j r fin have R: "r' = r \<or> result_outcome (clk w) ts res j r r' \<or> (\<exists>m. budget_outcome (clk w) ts wk j m r r')"
      and st: "quote_stored rts res (absr rp') (job_pair j)"
      by (auto simp: batch_law_def)
    from result_outcome_done [OF R r(2) fin(2)] st show ?thesis by (auto simp: quote_stored_def)
  qed
qed

lemma poll_done_stored:
  assumes rdy: "wk_ready invar absq ok_id ok_pair (st_queue st)" and rinv: "rinvar (st_repo st)" and n: "0 \<le> wk_batchSize wk"
    and poll: "worker_poll qops pops rops wk st w = Ok (st', w')"
    and old: "absq (st_queue st) i = Some r" "\<not> is_terminal (ar_state r)"
    and fin: "absq (st_queue st') i = Some r'" "ar_state r' = Done t x u"
  shows "\<exists>q. absr (st_repo st') (Pair (ar_base r) (ar_quote r)) = Some q \<and> quo_Price q = x"
proof -
  let ?s = "st_queue st"
  have inv: "invar ?s" using rdy by (simp add: wk_ready_def)
  obtain out s1 w1 where res: "Reserve qops (wk_batchSize wk) (wk_leaseTime wk) ?s (tick w) = (out, s1, w1)" by (metis prod_cases3)
  note law = reserve_law [OF inv n res]
  have fint: "is_terminal (ar_state r')" using fin(2) by simp
  have later: "\<not> is_terminal (ar_state x)" if "absq s1 i = Some x" for x
  proof -
    have "absq s1 = absq ?s \<or> (\<exists>l ids. absq s1 = reserve_upd l ids (absq ?s))"
      using law by (auto simp: reserve_spec_def split: res.splits sum.splits)
    with that old show ?thesis by (auto simp: reserve_upd_def lease_arec_def split: if_splits)
  qed
  have not1: "absq s1 i \<noteq> Some r'" using later fint by blast
  obtain js where out: "out = Ok (Inr js)" "js \<noteq> []"
    using poll res not1 fin(1) by (auto simp: worker_poll_def Let_def split: res.splits sum.splits if_splits)
  let ?w1 = "tick (emit (Inc MetricWorkerIterationsTotal [''work'']) w1)"
  obtain s' p' rp' w2 where d: "dispatchBatch qops pops rops wk js s1 (st_provider st) (st_repo st) ?w1 = (s', p', rp', w2)"
    by (metis prod_cases4)
  have st': "st_queue st' = s'" "st_repo st' = rp'"
    using poll res out d by (auto simp: worker_poll_def Let_def)
  have spec: "reserve_spec (skipped ?s) (ts (Now (tick w))) (ts (Now (tick w) + wk_leaseTime wk)) (nat (wk_batchSize wk)) (absq ?s) js (absq s1)"
    and inv1: "invar s1" using law out by simp_all
  note run = reserve_spec_running [OF spec]
  have ok: "\<forall>j \<in> set js. ok_id (job_ID j) \<and> ok_pair (job_pair j)"
    using run(5) rdy unfolding wk_ready_def job_matches_def job_pair_def by metis
  obtain fo p1 w3 where fetch: "FetchPairs pops (map job_pair js) (st_provider st) ?w1 = (fo, p1, w3)" by (metis prod_cases3)
  have "i \<in> job_ID ` set js"
  proof (rule ccontr)
    assume "i \<notin> job_ID ` set js"
    then have "absq s' i = absq s1 i"
      using dispatchBatch_law [OF inv1 ok run(1,2) rinv fetch d] by (cases fo) (simp_all add: batch_law_def)
    with not1 fin(1) st' show False by simp
  qed
  then obtain j where j: "j \<in> set js" "i = job_ID j" by auto
  with run(5) [OF j(1)] old(1) have "job_pair j = Pair (ar_base r) (ar_quote r)" by (auto simp: job_matches_def job_pair_def)
  with dispatch_done_stored [OF inv1 ok run(1,2) rinv d j(1)] fin j(2) st' show ?thesis by simp
qed

end

section \<open>Closed instances\<close>

text \<open>A worker over the sample job table and an empty quotes table.\<close>

definition sample_worker :: worker where
  "sample_worker = \<lparr>wk_pollInterval = second, wk_leaseTime = 60 * second, wk_maxAttempts = 5, wk_batchSize = 10, wk_cleanInterval = 60 * second\<rparr>"

definition sample_wk_state :: "(int pgdb, nat, int quote_db) wk_state" where
  "sample_wk_state = \<lparr>st_queue = sample_db, st_provider = 0, st_repo = sample_quotes, st_lastIteration = 0\<rparr>"

lemma sample_ready:
  "wk_ready pg_invar pg_abs (\<lambda>i. pe_uuid sample_env i = Some i) pgrepo_ok (st_queue sample_wk_state)" "pgrepo_invar (st_repo sample_wk_state)"
  using sample_db_invar
  by (auto simp: wk_ready_def sample_wk_state_def sample_db_abs sample_row_def pgrepo_ok_def pgrepo_invar_def sample_quotes_def split: if_splits)

section \<open>Properties\<close>

text \<open>C6: The worker over the Postgres stores never crashes and never corrupts them. A worker that \<open>New\<close> accepted
  (with a positive clean interval) runs through any sequence of poll ticks, clean ticks and cancellation, with
  any upstream behaviour and any storage failures, without a panic; it keeps both stores consistent, neither
  creates nor deletes jobs, moves each job only along legal transitions, and returns the cancellation
  error exactly when the context was cancelled.\<close>

theorem pg_worker_run_safe:
  assumes "worker_New opts = Ok wk" and "0 < wk_cleanInterval wk"
    and "wk_ready pg_invar pg_abs (\<lambda>i. pe_uuid genv i = Some i) pgrepo_ok (st_queue st)" and "pgrepo_invar (st_repo st)"
  shows "\<exists>st' w' e. worker_Run (pg_ops genv) (apilayer_ops env) (pgrepo_ops renv) wk es st w = Ok (st', w', e)
    \<and> wk_ready pg_invar pg_abs (\<lambda>i. pe_uuid genv i = Some i) pgrepo_ok (st_queue st') \<and> pgrepo_invar (st_repo st')
    \<and> job_steps (pg_abs (st_queue st)) (pg_abs (st_queue st')) \<and> (e = (if CtxDone \<in> set es then Some Canceled else None))"
proof -
  have wk: "0 < wk_pollInterval wk" "0 < wk_batchSize wk"
    using assms(1) by (auto simp: worker_New_def Let_def split: if_splits)
  from pgw.loop_law [OF assms(3,4), of wk env renv es w] wk assms(2) show ?thesis by (simp add: worker_Run_def)
qed

theorem pg_worker_run_safe_witness:
  "\<exists>st' w'. worker_Run (pg_ops sample_env) (apilayer_ops sample_al) (pgrepo_ops sample_renv) sample_worker [PollTick, CleanTick, PollTick, CtxDone] sample_wk_state sample_world
     = Ok (st', w', Some Canceled) \<and> job_steps (pg_abs sample_db) (pg_abs (st_queue st'))"
proof -
  have new: "worker_New [WithPollInterval second, WithBatchSize 10] = Ok sample_worker"
    by (simp add: worker_New_def sample_worker_def)
  have ci: "0 < wk_cleanInterval sample_worker" by (simp add: sample_worker_def)
  have q: "st_queue sample_wk_state = sample_db" by (simp add: sample_wk_state_def)
  from pg_worker_run_safe [OF new ci sample_ready, of sample_al sample_renv "[PollTick, CleanTick, PollTick, CtxDone]" sample_world]
  show ?thesis unfolding q by auto
qed

text \<open>C3: No job is reported done without its quote. Over the Postgres stores, whatever fails in between, if a job that was
  not finished is done after a poll, the quotes table holds a quote for exactly its pair, with the very price
  the job carries.\<close>

theorem pg_done_has_quote:
  assumes "wk_ready pg_invar pg_abs (\<lambda>i. pe_uuid genv i = Some i) pgrepo_ok (st_queue st)" and "pgrepo_invar (st_repo st)"
    and "0 \<le> wk_batchSize wk"
    and "worker_poll (pg_ops genv) (apilayer_ops env) (pgrepo_ops renv) wk st w = Ok (st', w')"
    and "pg_abs (st_queue st) i = Some r" and "\<not> is_terminal (ar_state r)"
    and "pg_abs (st_queue st') i = Some r'" and "ar_state r' = Done t x u"
  shows "\<exists>q. pgrepo_abs (st_repo st') (Pair (ar_base r) (ar_quote r)) = Some q \<and> quo_Price q = x"
  by (rule pgw.poll_done_stored [OF assms])

theorem pg_done_has_quote_witness:
  "case worker_poll (pg_ops sample_env) (apilayer_ops sample_al) (pgrepo_ops sample_renv) sample_worker sample_wk_state sample_world of
     Panic m \<Rightarrow> False
   | Ok (st', w') \<Rightarrow> \<exists>q. pgrepo_abs (st_repo st') (Pair ''EUR'' ''MXN'') = Some q \<and> quo_Price q = 20"
proof -
  let ?poll = "worker_poll (pg_ops sample_env) (apilayer_ops sample_al) (pgrepo_ops sample_renv) sample_worker sample_wk_state sample_world"
  have ev: "case ?poll of Panic m \<Rightarrow> False | Ok (st', w') \<Rightarrow> (case pg_abs (st_queue st') ''b'' of None \<Rightarrow> False
      | Some r \<Rightarrow> (case ar_state r of Done t x u \<Rightarrow> x = 20 | _ \<Rightarrow> False))"
    by code_simp
  then obtain st' w' r' where p: "?poll = Ok (st', w')" "pg_abs (st_queue st') ''b'' = Some r'"
      "case ar_state r' of Done t x u \<Rightarrow> x = 20 | _ \<Rightarrow> False"
    by (auto split: res.split_asm option.split_asm)
  from p(3) obtain t u where d: "ar_state r' = Done t 20 u" by (cases "ar_state r'") auto
  define r where "r = row_arec (sample_row ''b'' ''pending'' ''kb'')"
  have r: "pg_abs (st_queue sample_wk_state) ''b'' = Some r" "\<not> is_terminal (ar_state r)" "ar_base r = ''EUR''" "ar_quote r = ''MXN''"
    by (simp_all add: sample_wk_state_def sample_db_abs r_def row_state_def sample_row_def)
  have "0 \<le> wk_batchSize sample_worker" by (simp add: sample_worker_def)
  from pg_done_has_quote [OF sample_ready this p(1) r(1,2) p(2) d] p(1) r(3,4) show ?thesis by simp
qed

text \<open>C17: The exact outcome of a batch, over the in-memory stores. When the fetch fails, every job of the batch is
  settled by the class of the error and nothing else changes: quota exceeded, rescheduled in one hour;
  transient (or unknown), rescheduled within the jitter window while attempts are below the maximum,
  failed with the error text afterwards; permanent, failed at once. When it succeeds, a job whose pair came
  back is done with that price and time, every other job is failed as missing.\<close>

theorem mem_dispatch_outcomes:
  assumes "mem_invar s" and "memrepo_invar rp" and "distinct (map job_ID js)" and "all_running js (mem_abs s)"
    and "apilayer_FetchPairs env (map job_pair js) p w = (out, p1, w1)"
    and "dispatchBatch (mem_ops ord) (apilayer_ops env) memrepo_ops wk js s p rp w = (s', p', rp', w')"
  shows "mem_invar s' \<and> memrepo_invar rp' \<and> p' = p1
    \<and> (case out of
         Inl err \<Rightarrow> batch_law (error_outcome (clk w) (\<lambda>t. t) wk err) js (mem_abs s) (mem_abs s') \<and> rp' = rp
       | Inr res \<Rightarrow> batch_law (result_outcome (clk w) (\<lambda>t. t) res) js (mem_abs s) (mem_abs s'))"
proof -
  have f: "FetchPairs (apilayer_ops env) (map job_pair js) p w = (out, p1, w1)" using assms(5) by (simp add: op_defs)
  from memw.dispatchBatch_law [OF assms(1) _ assms(4,3,2) f assms(6)] assms(2) show ?thesis by (cases out) simp_all
qed

theorem mem_dispatch_outcomes_witness:
  "case dispatchBatch (mem_ops rev) (apilayer_ops sample_al) memrepo_ops sample_worker [sample_job ''a'' ''ka'' 0] sample_queue 0 memrepo_New sample_world of
     (s', p', rp', w') \<Rightarrow> \<exists>res. fst (apilayer_FetchPairs sample_al [Pair ''EUR'' ''MXN''] 0 sample_world) = Inr res
       \<and> batch_law (result_outcome (clk sample_world) (\<lambda>t. t) res) [sample_job ''a'' ''ka'' 0] (mem_abs sample_queue) (mem_abs s')"
proof -
  let ?js = "[sample_job ''a'' ''ka'' 0]"
  obtain s' p' rp' w' where d: "dispatchBatch (mem_ops rev) (apilayer_ops sample_al) memrepo_ops sample_worker ?js sample_queue 0 memrepo_New sample_world
      = (s', p', rp', w')" by (metis prod_cases4)
  obtain out p1 w1 where f: "apilayer_FetchPairs sample_al (map job_pair ?js) 0 sample_world = (out, p1, w1)" by (metis prod_cases3)
  have "\<not> isl (fst (apilayer_FetchPairs sample_al (map job_pair ?js) 0 sample_world))" by code_simp
  then obtain res where out: "out = Inr res" using f by (cases out) auto
  have r: "all_running ?js (mem_abs sample_queue)"
    by (simp add: all_running_def sample_queue_abs sample_job_def) (simp add: sample_defs mem_state_def)
  have i: "memrepo_invar memrepo_New" "distinct (map job_ID ?js)" by (simp_all add: memrepo_invar_def memrepo_New_def)
  have "map job_pair ?js = [Pair ''EUR'' ''MXN'']" by (simp add: job_pair_def sample_job_def)
  with mem_dispatch_outcomes [OF sample_queue_invar i r f d] f d out show ?thesis by simp
qed

text \<open>A poll over the in-memory stores finishes what it starts: it does not panic, and a job that is running after
  the poll was already running, unchanged, before it; the poll itself leaves no job behind in the running state.\<close>

lemma mem_poll_leaves_none_running:
  assumes "mem_invar (st_queue st)" and "memrepo_invar (st_repo st)" and "0 \<le> wk_batchSize wk"
  shows "\<exists>st' w'. worker_poll (mem_ops ord) (apilayer_ops env) memrepo_ops wk st w = Ok (st', w')
    \<and> mem_invar (st_queue st') \<and> job_steps (mem_abs (st_queue st)) (mem_abs (st_queue st'))
    \<and> (\<forall>i r'. mem_abs (st_queue st') i = Some r' \<and> is_running (ar_state r') \<longrightarrow> mem_abs (st_queue st) i = Some r')"
proof -
  have "wk_ready mem_invar mem_abs (\<lambda>i. True) (\<lambda>p. True) (st_queue st)" using assms(1) by (simp add: wk_ready_def)
  from memw.poll_law [OF this assms(2,3), of ord env w] show ?thesis by simp blast
qed

section \<open>A due job is served\<close>

lemma result_outcome_quoted:
  "result_outcome ck ts res j r r' \<Longrightarrow> fr_Quotes res (job_pair j) = Some q \<Longrightarrow> \<exists>t u. ar_state r' = Done t (quo_Price q) u"
  by (auto simp: result_outcome_def done_outcome_def done_arec_def)

lemma reserve_takes_all:
  assumes "reserve_spec lk t l n q js q'" and "finite (dom q)" and "card (dom q) \<le> n"
    and "q i = Some r" and "eligible t r" and "i \<notin> lk"
  shows "i \<in> job_ID ` set js"
proof (rule ccontr)
  assume no: "i \<notin> job_ID ` set js"
  then have len: "length js = n" and dist: "distinct (map job_ID js)" and sub: "job_ID ` set js \<subseteq> dom q"
    using assms(1,4-6) unfolding reserve_spec_def by blast+
  have "length js = card (job_ID ` set js)" using distinct_card [OF dist] by simp
  also have "\<dots> \<le> card (dom q - {i})" using no sub assms(2) by (intro card_mono) auto
  also have "\<dots> < card (dom q)" using assms(2,4) by (intro card_Diff1_less) auto
  finally show False using len assms(3) by simp
qed

context worker_env
begin

text \<open>A pending job that is due, that no other session holds, and whose pair the upstream quotes
  is done after one poll, provided the batch has room for it and no store fails.\<close>

lemma poll_serves:
  assumes rdy: "wk_ready invar absq ok_id ok_pair (st_queue st)" and rinv: "rinvar (st_repo st)"
    and room: "int (card (dom (absq (st_queue st)))) \<le> wk_batchSize wk"
    and calm: "quiet (st_queue st)" "rquiet (st_repo st)" "ok_reason ''missing in upstream response''"
    and due: "absq (st_queue st) i = Some r" "ar_state r = Pending" "ar_next r \<le> ts (Now (tick w))" "i \<notin> skipped (st_queue st)"
    and upstream: "\<And>ps w. Pair (ar_base r) (ar_quote r) \<in> set ps \<Longrightarrow>
      \<exists>res p' w'. FetchPairs pops ps (st_provider st) w = (Inr res, p', w') \<and> fr_Quotes res (Pair (ar_base r) (ar_quote r)) \<noteq> None"
  shows "\<exists>st' w' r' t x u q. worker_poll qops pops rops wk st w = Ok (st', w') \<and> absq (st_queue st') i = Some r'
    \<and> ar_state r' = Done t x u \<and> absr (st_repo st') (Pair (ar_base r) (ar_quote r)) = Some q \<and> quo_Price q = x"
proof -
  let ?s = "st_queue st" and ?p = "Pair (ar_base r) (ar_quote r)"
  have inv: "invar ?s" using rdy by (simp add: wk_ready_def)
  have n: "0 \<le> wk_batchSize wk" using room by simp
  obtain out s1 w1 where res: "Reserve qops (wk_batchSize wk) (wk_leaseTime wk) ?s (tick w) = (out, s1, w1)" by (metis prod_cases3)
  obtain js where out: "out = Ok (Inr js)" and q1: "quiet s1" using reserve_quiet [OF calm(1) inv n res] by blast
  have spec: "reserve_spec (skipped ?s) (ts (Now (tick w))) (ts (Now (tick w) + wk_leaseTime wk)) (nat (wk_batchSize wk)) (absq ?s) js (absq s1)"
    and inv1: "invar s1" using reserve_law [OF inv n res] out by simp_all
  note run = reserve_spec_running [OF spec]
  have "i \<in> job_ID ` set js"
    by (rule reserve_takes_all [OF spec finite_jobs [OF inv] _ due(1) _ due(4)]) (use room due(2,3) in \<open>auto simp: eligible_def\<close>)
  then obtain j where j: "j \<in> set js" "i = job_ID j" by auto
  have jp: "job_pair j = ?p" using run(5) [OF j(1)] due(1) j(2) by (auto simp: job_matches_def job_pair_def)
  let ?w1 = "tick (emit (Inc MetricWorkerIterationsTotal [''work'']) w1)"
  have "?p \<in> set (map job_pair js)" using j(1) jp by (metis image_eqI list.set_map)
  from upstream [OF this, of ?w1] obtain rs p1 w2 q
    where fetch: "FetchPairs pops (map job_pair js) (st_provider st) ?w1 = (Inr rs, p1, w2)" and q: "fr_Quotes rs ?p = Some q" by auto
  obtain s' p' rp' w' where d: "dispatchBatch qops pops rops wk js s1 (st_provider st) (st_repo st) ?w1 = (s', p', rp', w')"
    by (metis prod_cases4)
  have ok: "\<forall>j \<in> set js. ok_id (job_ID j) \<and> ok_pair (job_pair j)"
    using run(5) rdy unfolding wk_ready_def job_matches_def job_pair_def by metis
  have law: "batch_law (result_outcome (clk ?w1) ts rs) js (absq s1) (absq s')"
    using dispatchBatch_law [OF inv1 ok run(1,2) rinv fetch d] q1 calm by simp
  then obtain r1 r' where r': "absq s' i = Some r'" "result_outcome (clk ?w1) ts rs j r1 r'"
    using j unfolding batch_law_def by blast
  from result_outcome_quoted [OF r'(2)] jp q obtain t u where st: "ar_state r' = Done t (quo_Price q) u" by auto
  obtain q' where q': "absr rp' ?p = Some q'" "quo_Price q' = quo_Price q"
    using dispatch_done_stored [OF inv1 ok run(1,2) rinv d j(1) r'(1) [unfolded j(2)] st] jp by auto
  have "js \<noteq> []" using j(1) by auto
  then have "worker_poll qops pops rops wk st w =
      Ok (st\<lparr>st_lastIteration := wrap64 (Now w), st_queue := s', st_provider := p', st_repo := rp'\<rparr>, w')"
    using res out d by (simp add: worker_poll_def)
  with r'(1) st q' show ?thesis by auto
qed

end

lemma sample_al_bases:
  "\<exists>m' s' w'. fetch_bases sample_al ps bs m s w = (Inr m', s', w')
     \<and> (m (Pair ''EUR'' ''MXN'') \<noteq> None \<or> ''EUR'' \<in> set bs \<longrightarrow> m' (Pair ''EUR'' ''MXN'') \<noteq> None)"
proof (induction bs arbitrary: m s w)
  case (Cons b bs)
  have one: "\<exists>w1 m1. fetch_base sample_al ps b m s w = ((Inr m1, w1), Suc s)
      \<and> (m (Pair ''EUR'' ''MXN'') \<noteq> None \<or> b = ''EUR'' \<longrightarrow> m1 (Pair ''EUR'' ''MXN'') \<noteq> None)"
    by (simp add: fetch_base_def sample_al_def reorder_def Let_def)
  then obtain w1 m1 where m1: "fetch_base sample_al ps b m s w = ((Inr m1, w1), Suc s)"
      "m (Pair ''EUR'' ''MXN'') \<noteq> None \<or> b = ''EUR'' \<longrightarrow> m1 (Pair ''EUR'' ''MXN'') \<noteq> None" by blast
  from Cons.IH [of m1 "Suc s" w1] m1 show ?case by auto
qed simp

lemma sample_al_quotes:
  assumes "Pair ''EUR'' ''MXN'' \<in> set ps"
  shows "\<exists>res p' w'. FetchPairs (apilayer_ops sample_al) ps p w = (Inr res, p', w') \<and> fr_Quotes res (Pair ''EUR'' ''MXN'') \<noteq> None"
proof -
  have "''EUR'' \<in> set (sorted_bases sample_al ps)" using assms by (auto simp: image_iff intro: bexI [of _ "Pair ''EUR'' ''MXN''"])
  with sample_al_bases [of ps "sorted_bases sample_al ps" Map.empty p w] show ?thesis
    by (auto simp: op_defs apilayer_FetchPairs_def)
qed

text \<open>C5: A due job is served by the next poll when the upstream answers. Over the Postgres stores, with no storage failure ahead and
  room in the batch for all jobs of the table, a pending job that is due and that no other session holds locked is done
  after one poll, and the quotes table holds the price the job carries, provided that the upstream, in the state it is in
  when the poll begins, answers a fetch that asks for the pair successfully and with a quote for the pair. (When the fetch fails
  the job is not done: it is rescheduled or failed.)\<close>

theorem pg_due_job_served:
  assumes "wk_ready pg_invar pg_abs (\<lambda>i. pe_uuid genv i = Some i) pgrepo_ok (st_queue st)" and "pgrepo_invar (st_repo st)"
    and "int (card (dom (pg_abs (st_queue st)))) \<le> wk_batchSize wk"
    and "pg_quiet (st_queue st)" and "pgrepo_quiet (st_repo st)"
    and "pg_abs (st_queue st) i = Some r" and "ar_state r = Pending" and "ar_next r \<le> pe_ts genv (Now (tick w))" and "i \<notin> pg_skipped (st_queue st)"
    and "\<And>ps w. Pair (ar_base r) (ar_quote r) \<in> set ps \<Longrightarrow>
      \<exists>res p' w'. apilayer_FetchPairs env ps (st_provider st) w = (Inr res, p', w') \<and> fr_Quotes res (Pair (ar_base r) (ar_quote r)) \<noteq> None"
  shows "\<exists>st' w' r' t x u q. worker_poll (pg_ops genv) (apilayer_ops env) (pgrepo_ops renv) wk st w = Ok (st', w')
    \<and> pg_abs (st_queue st') i = Some r' \<and> ar_state r' = Done t x u
    \<and> pgrepo_abs (st_repo st') (Pair (ar_base r) (ar_quote r)) = Some q \<and> quo_Price q = x"
  by (rule pgw.poll_serves [OF assms(1-5) _ assms(6-9)]) (use assms(10) in \<open>simp_all add: pg_ok_reasonI op_defs\<close>)

theorem pg_due_job_served_witness:
  "\<exists>st' w' r' t x u. worker_poll (pg_ops sample_env) (apilayer_ops sample_al) (pgrepo_ops sample_renv) sample_worker sample_wk_state sample_world = Ok (st', w')
     \<and> pg_abs (st_queue st') ''b'' = Some r' \<and> ar_state r' = Done t x u"
proof -
  define r where "r = row_arec (sample_row ''b'' ''pending'' ''kb'')"
  have st: "st_queue sample_wk_state = sample_db" by (simp add: sample_wk_state_def)
  have r: "pg_abs (st_queue sample_wk_state) ''b'' = Some r" unfolding st by (simp add: sample_db_abs r_def)
  have rs: "ar_state r = Pending" "ar_next r \<le> pe_ts sample_env (Now (tick sample_world))" and rp: "ar_base r = ''EUR''" "ar_quote r = ''MXN''"
    by (simp_all add: r_def sample_row_def row_arec_def Now_def sample_world_def sample_env_def)
  have sk: "''b'' \<notin> pg_skipped (st_queue sample_wk_state)" unfolding st by (simp add: pg_skipped_def sample_db_def)
  have "dom (pg_abs sample_db) = {''a'', ''b'', ''c''}" by (auto simp: sample_db_abs)
  then have room: "int (card (dom (pg_abs (st_queue sample_wk_state)))) \<le> wk_batchSize sample_worker"
    by (simp add: sample_wk_state_def sample_worker_def)
  have quiet: "pg_quiet (st_queue sample_wk_state)" "pgrepo_quiet (st_repo sample_wk_state)"
    using sample_db_quiet by (simp_all add: sample_wk_state_def pgrepo_quiet_def sample_quotes_def)
  have up: "\<exists>res p' w'. apilayer_FetchPairs sample_al ps (st_provider sample_wk_state) w = (Inr res, p', w') \<and> fr_Quotes res (Pair (ar_base r) (ar_quote r)) \<noteq> None"
    if "Pair (ar_base r) (ar_quote r) \<in> set ps" for ps w
    using sample_al_quotes [of ps "st_provider sample_wk_state" w] that by (simp add: rp op_defs)
  from pg_due_job_served [OF sample_ready room quiet r rs sk up] show ?thesis by blast
qed

end
