(* ===== verification/Retry.thy ===== *)
theory Retry
  imports Worker
begin

text \<open>
  Retries come to an end. The worker of \<open>internal/worker/worker.go\<close> reschedules a job after a transient failure while its
  attempts are below the limit, and fails it then; here the polls that a job needs at most are counted. The lemmas are
  proved in the locale \<open>calm_worker\<close>, the worker over stores that answer and whose jobs nobody else holds, which
  both implementations of the queue provide.
\<close>

section \<open>A calm Postgres queue\<close>

definition pg_calm :: "'d pgdb \<Rightarrow> bool" where
  "pg_calm db \<longleftrightarrow> pg_quiet db \<and> (\<forall>n. db_locks db n = {})"

lemma stmt_locks:
  "finish x rows db = (out, db') \<Longrightarrow> db_locks db' = db_locks db"
  "refuse m db = (out1, db') \<Longrightarrow> db_locks db' = db_locks db"
  by (auto elim: finish_cases simp: refuse_def next_stmt_def)

lemma pg_update_locks: "pg_update P f db = (out, db') \<Longrightarrow> db_locks db' = db_locks db"
  by (auto simp: pg_update_def stmt_locks split: if_splits)

lemma pg_insert_locks: "pg_insert env now j db = (out, db') \<Longrightarrow> db_locks db' = db_locks db"
  by (auto simp: pg_insert_def Let_def stmt_locks split: option.splits if_splits)

lemma pg_update_running_locks: "pg_update_running env op i f db = (e, db') \<Longrightarrow> db_locks db' = db_locks db"
  by (auto simp: pg_update_running_def probeNotFoundOrNotReserved_def split: if_splits prod.splits sum.splits dest!: pg_update_locks stmt_locks)

lemma pg_ops_locks:
  "pg_Enqueue env j db w = (out, db', w') \<Longrightarrow> db_locks db' = db_locks db"
  "pg_Reserve env n l db w = (rout, db', w') \<Longrightarrow> db_locks db' = db_locks db"
  "pg_Complete env i p u db w = (e, db', w') \<Longrightarrow> db_locks db' = db_locks db"
  "pg_Reschedule env i m d db w = (e, db', w') \<Longrightarrow> db_locks db' = db_locks db"
  "pg_Fail env i m db w = (e, db', w') \<Longrightarrow> db_locks db' = db_locks db"
proof -
  show "pg_Enqueue env j db w = (out, db', w') \<Longrightarrow> db_locks db' = db_locks db"
    by (auto simp: pg_Enqueue_def Let_def split: if_splits prod.splits sum.splits bool.splits option.splits dest!: pg_insert_locks stmt_locks)
  show "pg_Reserve env n l db w = (rout, db', w') \<Longrightarrow> db_locks db' = db_locks db"
    by (auto simp: pg_Reserve_def Let_def next_stmt_def split: if_splits prod.splits sum.splits dest!: stmt_locks)
  show "pg_Complete env i p u db w = (e, db', w') \<Longrightarrow> db_locks db' = db_locks db"
    "pg_Reschedule env i m d db w = (e, db', w') \<Longrightarrow> db_locks db' = db_locks db"
    "pg_Fail env i m db w = (e, db', w') \<Longrightarrow> db_locks db' = db_locks db"
    by (auto simp: pg_Complete_def pg_Reschedule_def pg_Fail_def Let_def split: prod.splits dest!: pg_update_running_locks)
qed

interpretation pgc: job_queue "pg_ops env" pg_abs pg_invar "pe_ts env" "\<lambda>i. pe_uuid env i = Some i" "pg_ok_job env"
  pg_ok_reason pg_calm pg_skipped "pg_readback env" for env
proof (unfold_locales, goal_cases)
  case (5 s j w out s' w')
  then show ?case using pg.enqueue_quiet [of s j env w out s' w'] pg_ops_locks(1) [of env j s w out s' w'] by (auto simp: pg_calm_def op_defs)
next
  case (7 s n l w rout s' w')
  then show ?case using pg.reserve_quiet [of s n env l w rout s' w'] pg_ops_locks(2) [of env n l s w rout s' w'] by (auto simp: pg_calm_def op_defs)
next
  case (9 s i p u w e s' w')
  then show ?case using pg.complete_quiet [of s env i p u w e s' w'] pg_ops_locks(3) [of env i p u s w e s' w'] by (auto simp: pg_calm_def op_defs)
next
  case (11 s i m d w e s' w')
  then show ?case using pg.reschedule_quiet [of s env i m d w e s' w'] pg_ops_locks(4) [of env i m d s w e s' w'] by (auto simp: pg_calm_def op_defs)
next
  case (13 s i m w e s' w')
  then show ?case using pg.fail_quiet [of s env i m w e s' w'] pg_ops_locks(5) [of env i m s w e s' w'] by (auto simp: pg_calm_def op_defs)
qed (fact pg.finite_jobs pg.dedup_unique pg.enqueue_frame pg.enqueue_law pg.reserve_law pg.complete_law pg.reschedule_law pg.fail_law
  pg.get_law pg.recover_law)+

section \<open>The worker over calm stores\<close>

text \<open>What a poll that takes the job makes of it, when the upstream does not answer that the quota is spent: the job is
  finished, or it is pending again with one attempt more, the limit was not reached, and the delay is that of the backoff.\<close>

definition retried :: "(nat \<Rightarrow> time) \<Rightarrow> (time \<Rightarrow> time) \<Rightarrow> worker \<Rightarrow> 'd arec \<Rightarrow> 'd arec \<Rightarrow> bool" where
  "retried ck ts wk r r' \<longleftrightarrow> is_terminal (ar_state r')
     \<or> ar_state r' = Pending \<and> ar_attempts r' = ar_attempts r + 1 \<and> ar_attempts r < wk_maxAttempts wk
       \<and> (\<exists>n d. d < maxBackoff \<and> ar_next r' = ts (ck n + d))"

text \<open>One poll per world.\<close>

fun poll_rounds ::
    "('s, 'd) queue_ops \<Rightarrow> ('p, 'd) provider_ops \<Rightarrow> ('r, 'd) repo_ops \<Rightarrow> worker \<Rightarrow> world list \<Rightarrow> ('s, 'p, 'r) wk_state
      \<Rightarrow> ('s, 'p, 'r) wk_state res" where
  "poll_rounds qops pops rops wk [] st = Ok st"
| "poll_rounds qops pops rops wk (w # ws) st =
     (case worker_poll qops pops rops wk st w of
        Panic m \<Rightarrow> Panic m
      | Ok (st1, w1) \<Rightarrow> poll_rounds qops pops rops wk ws st1)"

text \<open>Every clock reading of a poll lies at least the longest backoff after all readings of the poll before.\<close>

fun spaced :: "world list \<Rightarrow> bool" where
  "spaced (w # w' # ws) \<longleftrightarrow> (\<forall>m n. clk w m + maxBackoff \<le> clk w' n) \<and> spaced (w' # ws)"
| "spaced _ \<longleftrightarrow> True"

lemma error_outcome_retried:
  assumes "error_outcome ck ts wk err j r r'" and "Code (classify err) \<noteq> ''quota_exceeded''" and "job_Attempts j = ar_attempts r"
  shows "retried ck ts wk r r'"
  using assms backoff_window_le [of "ar_attempts r"]
  by (auto simp: error_outcome_eq budget_outcome_eq fail_outcome_def retry_outcome_def retried_def arec_defs split: if_splits)
    (use less_le_trans in blast)

lemma result_outcome_retried: "result_outcome ck ts res j r r' \<Longrightarrow> retried ck ts wk r r'"
  by (auto simp: result_outcome_def fail_outcome_def done_outcome_def retried_def arec_defs split: option.splits)

text \<open>The worker's state before a poll: well-formed stores without failures ahead, and a batch with room for all jobs.\<close>

definition calm_state where
  "calm_state invr absq ok_id ok_pair rinvr quiet rquiet wk st \<longleftrightarrow>
     wk_ready invr absq ok_id ok_pair (st_queue st) \<and> rinvr (st_repo st) \<and> quiet (st_queue st) \<and> rquiet (st_repo st)
     \<and> int (card (dom (absq (st_queue st)))) \<le> wk_batchSize wk"

text \<open>The upstream never answers that the quota is spent.\<close>

definition within_quota :: "('p, 'd) provider_ops \<Rightarrow> bool" where
  "within_quota pops \<longleftrightarrow>
     (\<forall>ps p w err p' w'. FetchPairs pops ps p w = (Inl err, p', w') \<longrightarrow> Code (classify err) \<noteq> ''quota_exceeded'')"

text \<open>The texts of its errors can be stored.\<close>

definition storable_errors :: "(string \<Rightarrow> bool) \<Rightarrow> ('p, 'd) provider_ops \<Rightarrow> bool" where
  "storable_errors ok_reason pops \<longleftrightarrow>
     (\<forall>ps p w err p' w'. FetchPairs pops ps p w = (Inl err, p', w') \<longrightarrow> ok_reason (Error (classify err)))"

locale calm_worker = worker_env +
  assumes unlocked: "quiet s \<Longrightarrow> skipped s = {}"
    and missing_reason: "ok_reason ''missing in upstream response''"
begin

lemma dispatch_retries:
  assumes inv: "invar s" and ok: "\<forall>j \<in> set js. ok_id (job_ID j) \<and> ok_pair (job_pair j)" and run: "all_running js (absq s)"
    and dist: "distinct (map job_ID js)" and rinv: "rinvar rp" and quiet: "quiet s" "rquiet rp"
    and upstream: "within_quota pops" "storable_errors ok_reason pops"
    and d: "dispatchBatch qops pops rops wk js s p rp w = (s', p', rp', w')"
    and j: "j \<in> set js" "absq s (job_ID j) = Some r" "job_Attempts j = ar_attempts r"
  shows "invar s' \<and> rinvar rp' \<and> quiet s' \<and> rquiet rp' \<and> same_oracles w w'
    \<and> (\<exists>r'. absq s' (job_ID j) = Some r' \<and> retried (clk w) ts wk r r')"
proof -
  obtain fo p1 w2 where fetch: "FetchPairs pops (map job_pair js) p w = (fo, p1, w2)" by (metis prod_cases3)
  note dl = dispatchBatch_law [OF inv ok run dist rinv fetch d]
  show ?thesis
  proof (cases fo)
    case (Inl err)
    have up: "ok_reason (Error (classify err))" "Code (classify err) \<noteq> ''quota_exceeded''"
      using upstream fetch Inl unfolding within_quota_def storable_errors_def by blast+
    with dl Inl quiet have law: "batch_law (error_outcome (clk w) ts wk err) js (absq s) (absq s')" "quiet s'" "rp' = rp" by auto
    then obtain r' where "absq s' (job_ID j) = Some r'" "error_outcome (clk w) ts wk err j r r'" using j unfolding batch_law_def by fastforce
    with error_outcome_retried up j(3) dl law(2,3) quiet rinv show ?thesis by blast
  next
    case (Inr rs)
    with dl quiet missing_reason have law: "batch_law (result_outcome (clk w) ts rs) js (absq s) (absq s')" "quiet s'" "rquiet rp'" by auto
    then obtain r' where "absq s' (job_ID j) = Some r'" "result_outcome (clk w) ts rs j r r'" using j unfolding batch_law_def by fastforce
    with result_outcome_retried dl law(2,3) show ?thesis by blast
  qed
qed

lemma poll_retries:
  assumes calm: "calm_state invar absq ok_id ok_pair rinvar quiet rquiet wk st"
    and due: "absq (st_queue st) i = Some r" "ar_state r = Pending" "ar_next r \<le> ts (Now (tick w))"
    and upstream: "within_quota pops" "storable_errors ok_reason pops"
  shows "\<exists>st' w' r'. worker_poll qops pops rops wk st w = Ok (st', w') \<and> calm_state invar absq ok_id ok_pair rinvar quiet rquiet wk st'
    \<and> absq (st_queue st') i = Some r' \<and> retried (clk w) ts wk r r'"
proof -
  let ?s = "st_queue st"
  have rdy: "wk_ready invar absq ok_id ok_pair ?s" and inv: "invar ?s" and rinv: "rinvar (st_repo st)" and q: "quiet ?s" "rquiet (st_repo st)"
    and room: "int (card (dom (absq ?s))) \<le> wk_batchSize wk" and n: "0 \<le> wk_batchSize wk"
    using calm by (auto simp: calm_state_def wk_ready_def)
  obtain out s1 w1 where res: "Reserve qops (wk_batchSize wk) (wk_leaseTime wk) ?s (tick w) = (out, s1, w1)" by (metis prod_cases3)
  obtain js where out: "out = Ok (Inr js)" and q1: "quiet s1" using reserve_quiet [OF q(1) inv n res] by blast
  have spec: "reserve_spec (skipped ?s) (ts (Now (tick w))) (ts (Now (tick w) + wk_leaseTime wk)) (nat (wk_batchSize wk)) (absq ?s) js (absq s1)"
    and inv1: "invar s1" and ck: "clk w1 = clk w" using reserve_law [OF inv n res] out by (simp_all add: same_oracles_def)
  note run = reserve_spec_running [OF spec]
  have "i \<in> job_ID ` set js"
    by (rule reserve_takes_all [OF spec finite_jobs [OF inv] _ due(1)]) (use room due(2,3) unlocked [OF q(1)] in \<open>auto simp: eligible_def\<close>)
  then obtain j where j: "j \<in> set js" "i = job_ID j" by auto
  have att: "job_Attempts j = ar_attempts r" using run(5) [OF j(1)] due(1) j(2) by (auto simp: job_matches_def)
  obtain r1 where r1: "absq s1 (job_ID j) = Some r1" "ar_attempts r1 = ar_attempts r"
    using spec due(1) j by (auto simp: reserve_spec_def reserve_upd_def lease_arec_def)
  let ?w1 = "tick (emit (Inc MetricWorkerIterationsTotal [''work'']) w1)"
  obtain s' p' rp' w' where d: "dispatchBatch qops pops rops wk js s1 (st_provider st) (st_repo st) ?w1 = (s', p', rp', w')"
    by (metis prod_cases4)
  have ok: "\<forall>j \<in> set js. ok_id (job_ID j) \<and> ok_pair (job_pair j)"
    using run(5) rdy unfolding wk_ready_def job_matches_def job_pair_def by metis
  from att r1(2) have "job_Attempts j = ar_attempts r1" by simp
  from dispatch_retries [OF inv1 ok run(1,2) rinv q1 q(2) upstream d j(1) r1(1) this]
  obtain r' where law: "invar s'" "rinvar rp'" "quiet s'" "rquiet rp'" "absq s' (job_ID j) = Some r'" "retried (clk w) ts wk r1 r'"
    using ck by auto
  note steps = job_steps_trans [OF run(4) dispatch_steps(1) [OF inv1 ok run(1,2) rinv d]]
  have "js \<noteq> []" using j(1) by auto
  then have poll: "worker_poll qops pops rops wk st w =
      Ok (st\<lparr>st_lastIteration := wrap64 (Now w), st_queue := s', st_provider := p', st_repo := rp'\<rparr>, w')"
    using res out d by (simp add: worker_poll_def)
  have "dom (absq s') = dom (absq ?s)" using steps by (simp add: job_steps_def)
  then have "calm_state invar absq ok_id ok_pair rinvar quiet rquiet wk
      (st\<lparr>st_lastIteration := wrap64 (Now w), st_queue := s', st_provider := p', st_repo := rp'\<rparr>)"
    using wk_ready_steps [OF rdy steps law(1)] law(2-4) room by (simp add: calm_state_def)
  moreover have "retried (clk w) ts wk r r'" using law(6) r1(2) by (simp add: retried_def)
  ultimately show ?thesis using poll law(5) j(2) by auto
qed

text \<open>A finished job stays finished over further rounds.\<close>

lemma rounds_keep_terminal:
  assumes "wk_ready invar absq ok_id ok_pair (st_queue st)" and "rinvar (st_repo st)" and "0 \<le> wk_batchSize wk"
    and "absq (st_queue st) i = Some r" and "is_terminal (ar_state r)"
  shows "\<exists>st'. poll_rounds qops pops rops wk ws st = Ok st' \<and> absq (st_queue st') i = Some r"
  using assms
proof (induction ws arbitrary: st)
  case (Cons w ws)
  obtain st1 w1 where p: "worker_poll qops pops rops wk st w = Ok (st1, w1)" "invar (st_queue st1)" "rinvar (st_repo st1)"
      "job_steps (absq (st_queue st)) (absq (st_queue st1))"
    using poll_law [OF Cons.prems(1-3), of w] by blast
  have "absq (st_queue st1) i = Some r" by (rule job_steps_terminal [OF p(4) Cons.prems(4,5)])
  with Cons.IH [OF wk_ready_steps [OF Cons.prems(1) p(4,2)] p(3) Cons.prems(3)] Cons.prems(5) p(1) show ?case by simp
qed simp

lemma rounds_terminate:
  assumes mono: "\<And>t t'. t \<le> t' \<Longrightarrow> ts t \<le> ts t'"
    and upstream: "within_quota pops" "storable_errors ok_reason pops"
    and "calm_state invar absq ok_id ok_pair rinvar quiet rquiet wk st"
    and "absq (st_queue st) i = Some r" and "ar_state r = Pending" and "spaced ws"
    and "ws \<noteq> []" and "ar_next r \<le> ts (Now (tick (hd ws)))" and "wk_maxAttempts wk - ar_attempts r < int (length ws)"
  shows "\<exists>st' r'. poll_rounds qops pops rops wk ws st = Ok st' \<and> absq (st_queue st') i = Some r' \<and> is_terminal (ar_state r')"
  using assms(4-)
proof (induction ws arbitrary: st r)
  case (Cons w ws)
  obtain st1 w1 r1 where p: "worker_poll qops pops rops wk st w = Ok (st1, w1)" "calm_state invar absq ok_id ok_pair rinvar quiet rquiet wk st1"
      "absq (st_queue st1) i = Some r1" "retried (clk w) ts wk r r1"
    using poll_retries [OF Cons.prems(1-3) _ upstream, of w] Cons.prems(6) by auto
  show ?case
  proof (cases "is_terminal (ar_state r1)")
    case True
    have "wk_ready invar absq ok_id ok_pair (st_queue st1)" "rinvar (st_repo st1)" "0 \<le> wk_batchSize wk"
      using p(2) by (auto simp: calm_state_def)
    from rounds_keep_terminal [OF this p(3) True, of ws] True p(1) show ?thesis by auto
  next
    case False
    then obtain n d where r1: "ar_state r1 = Pending" "ar_attempts r1 = ar_attempts r + 1" "ar_attempts r < wk_maxAttempts wk"
        "d < maxBackoff" "ar_next r1 = ts (clk w n + d)"
      using p(4) by (auto simp: retried_def)
    then obtain w' ws' where ws: "ws = w' # ws'" using Cons.prems(7) by (cases ws) auto
    have sp: "clk w n + maxBackoff \<le> clk w' m" "spaced ws" for m using Cons.prems(4) ws by auto
    have "clk w n + d \<le> Now (tick w')" using sp(1) [of "reads (tick w')"] r1(4) by (simp add: Now_def)
    then have "ar_next r1 \<le> ts (Now (tick (hd ws)))" using mono r1(5) ws by simp
    moreover have "wk_maxAttempts wk - ar_attempts r1 < int (length ws)" using Cons.prems(7) r1(2) by simp
    ultimately obtain st' r' where "poll_rounds qops pops rops wk ws st1 = Ok st'" "absq (st_queue st') i = Some r'" "is_terminal (ar_state r')"
      using Cons.IH [OF p(2,3) r1(1) sp(2)] ws by auto
    with p(1) show ?thesis by simp
  qed
qed simp

end

interpretation memcw: calm_worker "mem_ops ord" mem_abs mem_invar "\<lambda>t. t" "\<lambda>i. True" "\<lambda>j. job_Attempts j = 0"
  "\<lambda>m. True" "\<lambda>q. True" "\<lambda>q. {}" "\<lambda>p. p" "apilayer_ops env"
  memrepo_ops memrepo_abs memrepo_invar "\<lambda>t. t" "\<lambda>p. True" "\<lambda>s. True" "\<lambda>p. p" for ord env
  by unfold_locales simp_all

interpretation pgcw: calm_worker "pg_ops genv" pg_abs pg_invar "pe_ts genv" "\<lambda>i. pe_uuid genv i = Some i" "pg_ok_job genv"
  pg_ok_reason pg_calm pg_skipped "pg_readback genv" "apilayer_ops env"
  "pgrepo_ops renv" pgrepo_abs pgrepo_invar "qe_ts renv" pgrepo_ok pgrepo_quiet "pgrepo_readback renv" for genv env renv
  by unfold_locales (simp_all add: pg_calm_def pg_skipped_def pg_ok_reasonI)

section \<open>Properties\<close>

text \<open>C13: Retries end, under two conditions on the upstream: it does not report a spent quota (which reschedules without looking at the
  limit), and the texts of its errors have at most 4096 characters (a longer one cannot be stored, and the job stays
  running). Then, over Postgres stores that answer and with no other session in the way, a pending job that is due is done or
  failed after at most as many polls as attempts are left plus one, whatever mixture of successes, transient and permanent
  failures with such texts the upstream answers, if the polls lie at least the longest backoff apart; none of the polls panics,
  and later polls do not change the result. Storing a time must not reverse an order, and the batch must have room for all
  jobs of the table.\<close>

theorem pg_retries_end:
  assumes "\<And>t t'. t \<le> t' \<Longrightarrow> pe_ts genv t \<le> pe_ts genv t'" and "within_quota (apilayer_ops env)"
    and "\<And>ps p w err p' w'. apilayer_FetchPairs env ps p w = (Inl err, p', w') \<Longrightarrow> char_length (Error (classify err)) \<le> 4096"
    and "wk_ready pg_invar pg_abs (\<lambda>i. pe_uuid genv i = Some i) pgrepo_ok (st_queue st)" and "pgrepo_invar (st_repo st)"
    and "pg_calm (st_queue st)" and "pgrepo_quiet (st_repo st)" and "int (card (dom (pg_abs (st_queue st)))) \<le> wk_batchSize wk"
    and "pg_abs (st_queue st) i = Some r" and "ar_state r = Pending" and "ar_next r \<le> pe_ts genv (Now (tick (hd ws)))"
    and "spaced ws" and "wk_maxAttempts wk - ar_attempts r < int (length ws)" and "ws \<noteq> []"
  shows "\<exists>st' r'. poll_rounds (pg_ops genv) (apilayer_ops env) (pgrepo_ops renv) wk ws st = Ok st'
    \<and> pg_abs (st_queue st') i = Some r' \<and> is_terminal (ar_state r')"
proof -
  have "calm_state pg_invar pg_abs (\<lambda>i. pe_uuid genv i = Some i) pgrepo_ok pgrepo_invar pg_calm pgrepo_quiet wk st"
    using assms(4-8) by (simp add: calm_state_def)
  moreover have "storable_errors pg_ok_reason (apilayer_ops env)" using assms(3) by (simp add: storable_errors_def pg_ok_reason_def op_defs)
  ultimately show ?thesis using pgcw.rounds_terminate [OF assms(1,2) _ _ assms(9,10,12,14,11,13)] by blast
qed

text \<open>An upstream that refuses every connection, and polls a minute apart.\<close>

definition sample_down :: "(nat, int) apilayer_env" where
  "sample_down = sample_al\<lparr>al_Do := \<lambda>u n. (Inl (IOError ''refused''), n)\<rparr>"

definition sample_poll :: "int \<Rightarrow> world" where
  "sample_poll k = sample_world\<lparr>clk := \<lambda>n. (100 + 60 * k) * second\<rparr>"

lemma sample_down_error:
  assumes "apilayer_FetchPairs sample_down ps p w = (Inl err, p', w')"
  shows "char_length (Error (classify err)) \<le> 4096" and "Code (classify err) \<noteq> ''quota_exceeded''"
proof -
  let ?e = "ProviderError ''transient'' 0 0 ''http request failed'' (Some (IOError ''refused''))"
  have down: "fetch_bases sample_down ps bs m s w = (Inl err, s', w') \<Longrightarrow> err = ?e" for ps bs m s w err s' w'
    by (cases bs) (auto simp: fetch_base_def sample_down_def sample_al_def provider_failure_def Let_def)
  have "fetch_bases sample_down ps (sorted_bases sample_down ps) Map.empty p w = (Inl err, p', w')"
    using assms by (auto simp: apilayer_FetchPairs_def split: prod.splits sum.splits)
  from down [OF this] have "err = ?e" .
  moreover have "char_length (Error (classify ?e)) \<le> 4096 \<and> Code (classify ?e) \<noteq> ''quota_exceeded''" by code_simp
  ultimately show "char_length (Error (classify err)) \<le> 4096" and "Code (classify err) \<noteq> ''quota_exceeded''" by simp_all
qed

theorem pg_retries_end_witness:
  "\<exists>st' r'. poll_rounds (pg_ops sample_env) (apilayer_ops sample_down) (pgrepo_ops sample_renv) sample_worker
      (map sample_poll [0, 1, 2, 3, 4]) sample_wk_state = Ok st'
    \<and> pg_abs (st_queue st') ''b'' = Some r' \<and> is_terminal (ar_state r')"
proof -
  define r where "r = row_arec (sample_row ''b'' ''pending'' ''kb'')"
  have st: "st_queue sample_wk_state = sample_db" by (simp add: sample_wk_state_def)
  have r: "pg_abs (st_queue sample_wk_state) ''b'' = Some r" unfolding st by (simp add: sample_db_abs r_def)
  have rs: "ar_state r = Pending" "ar_next r \<le> pe_ts sample_env (Now (tick (hd (map sample_poll [0, 1, 2, 3, 4]))))"
      "wk_maxAttempts sample_worker - ar_attempts r < int (length (map sample_poll [0, 1, 2, 3, 4]))"
    by (simp_all add: r_def sample_row_def row_arec_def Now_def sample_poll_def sample_env_def sample_worker_def)
  have "dom (pg_abs sample_db) = {''a'', ''b'', ''c''}" by (auto simp: sample_db_abs)
  then have room: "int (card (dom (pg_abs (st_queue sample_wk_state)))) \<le> wk_batchSize sample_worker"
    by (simp add: sample_wk_state_def sample_worker_def)
  have calm: "pg_calm (st_queue sample_wk_state)" "pgrepo_quiet (st_repo sample_wk_state)"
    using sample_db_quiet by (simp_all add: pg_calm_def sample_wk_state_def sample_db_def pgrepo_quiet_def sample_quotes_def)
  have sp: "spaced (map sample_poll [0, 1, 2, 3, 4])" "map sample_poll [0, 1, 2, 3, 4] \<noteq> []"
    by (simp_all add: sample_poll_def maxBackoff_def)
  have mono: "pe_ts sample_env t \<le> pe_ts sample_env t'" if "t \<le> t'" for t t' using zdiv_mono1 [OF that, of 1000] by simp
  have quota: "within_quota (apilayer_ops sample_down)" using sample_down_error(2) by (auto simp: within_quota_def op_defs)
  from pg_retries_end [OF mono quota sample_down_error(1) sample_ready calm room r rs(1,2) sp(1) rs(3) sp(2)] show ?thesis .
qed

end
