(* ===== verification/Scheduler.thy ===== *)
theory Scheduler
  imports Memqueue Pgqueue Backoff
begin

text \<open>
  The producer side: \<open>internal/scheduler/scheduler.go\<close>, which enqueues one job per configured
  pair and window, and \<open>expandWhitelist\<close> of \<open>cmd/server/whitelist.go\<close>, which computes the
  pairs. The id generator is a function on a state \<open>'g\<close>. The lemmas are proved in the
  context of \<open>job_queue\<close> and so hold for both queues.
\<close>

section \<open>The pairs\<close>

definition expandWhitelist :: "string list \<Rightarrow> pair list" where
  "expandWhitelist currs = concat (map (\<lambda>base. map (Pair base) (filter (\<lambda>quote. quote \<noteq> base) currs)) currs)"

section \<open>Construction\<close>

record scheduler =
  sch_interval :: duration
  sch_bucketSize :: duration
  sch_pairs :: "pair list"

datatype sch_option = WithInterval duration | WithBucketSize duration | WithPairs "pair list"

fun apply_sch_option :: "sch_option \<Rightarrow> scheduler \<Rightarrow> scheduler" where
  "apply_sch_option (WithInterval d) c = c\<lparr>sch_interval := d\<rparr>"
| "apply_sch_option (WithBucketSize d) c = c\<lparr>sch_bucketSize := d\<rparr>"
| "apply_sch_option (WithPairs ps) c = c\<lparr>sch_pairs := ps\<rparr>"

definition scheduler_New :: "sch_option list \<Rightarrow> scheduler" where
  "scheduler_New opts = fold apply_sch_option opts \<lparr>sch_interval = 0, sch_bucketSize = 0, sch_pairs = []\<rparr>"

section \<open>A tick\<close>

record ('s, 'g) sch_state =
  ss_queue :: 's
  ss_idgen :: 'g
  ss_lastTick :: time

definition sched_job :: "string \<Rightarrow> pair \<Rightarrow> string \<Rightarrow> time \<Rightarrow> job" where
  "sched_job jid p key now = \<lparr>job_ID = jid, job_Base = Base p, job_Quote = Quote p, job_DedupKey = key, job_Attempts = 0,
     job_NextRunAt = now, job_Source = ''scheduler'', job_CreatedAt = zero_time\<rparr>"

fun tick_pairs ::
    "('s, 'd) queue_ops \<Rightarrow> ('g \<Rightarrow> string \<times> 'g) \<Rightarrow> duration \<Rightarrow> time \<Rightarrow> pair list \<Rightarrow> 's \<Rightarrow> 'g \<Rightarrow> world
      \<Rightarrow> error option res \<times> 's \<times> 'g \<times> world" where
  "tick_pairs qops newid bucket now [] s g w = (Ok None, s, g, w)"
| "tick_pairs qops newid bucket now (p # ps) s g w =
     (case newid g of (jid, g1) \<Rightarrow>
        case DedupKey (Base p) (Quote p) now bucket of
          Panic m \<Rightarrow> (Panic m, s, g1, w)
        | Ok key \<Rightarrow>
            (case Enqueue qops (sched_job jid p key now) s w of
               (Inl err, s1, w1) \<Rightarrow> (Ok (Some err), s1, g1, w1)
             | (Inr r, s1, w1) \<Rightarrow> tick_pairs qops newid bucket now ps s1 g1 w1))"

definition scheduler_Tick ::
    "('s, 'd) queue_ops \<Rightarrow> ('g \<Rightarrow> string \<times> 'g) \<Rightarrow> scheduler \<Rightarrow> ('s, 'g) sch_state \<Rightarrow> world
      \<Rightarrow> error option res \<times> ('s, 'g) sch_state \<times> world" where
  "scheduler_Tick qops newid c st w =
     (let now = Now w
      in case tick_pairs qops newid (sch_bucketSize c) now (sch_pairs c) (ss_queue st) (ss_idgen st) (tick w) of
           (Ok None, s, g, w1) \<Rightarrow>
             (Ok None, st\<lparr>ss_queue := s, ss_idgen := g, ss_lastTick := now\<rparr>, emit (Inc MetricSchedulerTicksTotal []) w1)
         | (out, s, g, w1) \<Rightarrow> (out, st\<lparr>ss_queue := s, ss_idgen := g\<rparr>, w1))"

datatype sch_event = TickerFired | SchedCtxDone

fun scheduler_loop ::
    "('s, 'd) queue_ops \<Rightarrow> ('g \<Rightarrow> string \<times> 'g) \<Rightarrow> scheduler \<Rightarrow> sch_event list \<Rightarrow> ('s, 'g) sch_state \<Rightarrow> world
      \<Rightarrow> error option res \<times> ('s, 'g) sch_state \<times> world" where
  "scheduler_loop qops newid c [] st w = (Ok None, st, w)"
| "scheduler_loop qops newid c (SchedCtxDone # es) st w = (Ok (Some Canceled), st, w)"
| "scheduler_loop qops newid c (TickerFired # es) st w =
     (case scheduler_Tick qops newid c st w of
        (Panic m, st1, w1) \<Rightarrow> (Panic m, st1, w1)
      | (Ok e, st1, w1) \<Rightarrow> scheduler_loop qops newid c es st1 w1)"

text \<open>\<open>Run\<close>: the bootstrap tick decides whether the loop starts at all.\<close>

definition scheduler_Run ::
    "('s, 'd) queue_ops \<Rightarrow> ('g \<Rightarrow> string \<times> 'g) \<Rightarrow> scheduler \<Rightarrow> sch_event list \<Rightarrow> ('s, 'g) sch_state \<Rightarrow> world
      \<Rightarrow> error option res \<times> ('s, 'g) sch_state \<times> world" where
  "scheduler_Run qops newid c es st w =
     (case scheduler_Tick qops newid c st w of
        (Panic m, st1, w1) \<Rightarrow> (Panic m, st1, w1)
      | (Ok (Some e), st1, w1) \<Rightarrow> (Ok (Some e), st1, w1)
      | (Ok None, st1, w1) \<Rightarrow>
          if sch_interval c \<le> 0 then (Panic ''non-positive interval for NewTicker'', st1, w1)
          else scheduler_loop qops newid c es st1 w1)"

definition LastTick :: "('s, 'g) sch_state \<Rightarrow> time" where
  "LastTick st = ss_lastTick st"

section \<open>The pairs are all the ordered pairs\<close>

lemma set_expandWhitelist: "set (expandWhitelist cs) = {Pair b q | b q. b \<in> set cs \<and> q \<in> set cs \<and> b \<noteq> q}"
  by (auto simp: expandWhitelist_def)

lemma length_filter_neq: "distinct cs \<Longrightarrow> b \<in> set cs \<Longrightarrow> length (filter (\<lambda>q. q \<noteq> b) cs) = length cs - 1"
proof (induction cs)
  case (Cons c cs)
  show ?case
  proof (cases "c = b")
    case True
    with Cons.prems have "filter (\<lambda>q. q \<noteq> b) cs = cs" by (auto simp: filter_id_conv)
    with True show ?thesis by simp
  next
    case False
    with Cons show ?thesis by (cases cs) auto
  qed
qed simp

lemma length_expandWhitelist: "distinct cs \<Longrightarrow> length (expandWhitelist cs) = length cs * (length cs - 1)"
proof -
  assume d: "distinct cs"
  have "length (expandWhitelist cs) = sum_list (map (\<lambda>base. length (filter (\<lambda>q. q \<noteq> base) cs)) cs)"
    by (simp add: expandWhitelist_def length_concat o_def)
  also have "map (\<lambda>base. length (filter (\<lambda>q. q \<noteq> base) cs)) cs = map (\<lambda>base. length cs - 1) cs"
    using length_filter_neq [OF d] by simp
  also have "sum_list \<dots> = length cs * (length cs - 1)" by (simp add: sum_list_triv)
  finally show ?thesis .
qed

lemma distinct_expandWhitelist: "distinct cs \<Longrightarrow> distinct (expandWhitelist cs)"
proof -
  assume "distinct cs"
  have "distinct (concat (map (\<lambda>base. map (Pair base) (filter (\<lambda>quote. quote \<noteq> base) cs)) bs))" if "distinct bs" for bs
    using that \<open>distinct cs\<close> by (induction bs) (auto simp: distinct_map inj_on_def)
  with \<open>distinct cs\<close> show ?thesis by (simp add: expandWhitelist_def)
qed

section \<open>One job per pair and window\<close>

text \<open>The ids the generator is about to give: distinct, storable and new to the queue.\<close>

fun fresh_ids :: "('g \<Rightarrow> string \<times> 'g) \<Rightarrow> (string \<Rightarrow> bool) \<Rightarrow> string set \<Rightarrow> nat \<Rightarrow> 'g \<Rightarrow> bool" where
  "fresh_ids newid ok used 0 g \<longleftrightarrow> True"
| "fresh_ids newid ok used (Suc n) g \<longleftrightarrow>
     fst (newid g) \<notin> used \<and> ok (fst (newid g)) \<and> fresh_ids newid ok (insert (fst (newid g)) used) n (snd (newid g))"

lemma fresh_ids_mono: "fresh_ids newid ok used n g \<Longrightarrow> used' \<subseteq> used \<Longrightarrow> fresh_ids newid ok used' n g"
proof (induction n arbitrary: used used' g)
  case (Suc n)
  have "insert (fst (newid g)) used' \<subseteq> insert (fst (newid g)) used" using Suc.prems(2) by blast
  with Suc.IH Suc.prems show ?case by auto
qed simp

lemma fresh_ids_less: "fresh_ids newid ok used m g \<Longrightarrow> n \<le> m \<Longrightarrow> fresh_ids newid ok used n g"
proof (induction m arbitrary: n used g)
  case (Suc m)
  then show ?case by (cases n) auto
qed simp

text \<open>A pair the columns can hold.\<close>

definition pgpair :: "pair \<Rightarrow> bool" where
  "pgpair p \<longleftrightarrow> length (Base p) = 3 \<and> length (Quote p) = 3 \<and> Base p \<noteq> Quote p"

definition keyed :: "'d aqueue \<Rightarrow> string \<Rightarrow> bool" where
  "keyed q key \<longleftrightarrow> (\<exists>i r. q i = Some r \<and> ar_dedup r = key)"

definition kept :: "'d aqueue \<Rightarrow> 'd aqueue \<Rightarrow> bool" where
  "kept q q' \<longleftrightarrow> (\<forall>i r. q i = Some r \<longrightarrow> q' i = Some r)"

lemma kept_trans: "kept q q' \<Longrightarrow> kept q' q'' \<Longrightarrow> kept q q''"
  by (simp add: kept_def)

lemma keyed_kept: "keyed q key \<Longrightarrow> kept q q' \<Longrightarrow> keyed q' key"
  unfolding keyed_def kept_def by blast

lemma DedupKey_nonempty: "DedupKey b q t d = Ok k \<Longrightarrow> k \<noteq> []"
  using sha256Hex_shape [of "dedup_text b q (bucket_of t d)"] by (auto simp: DedupKey_def split: if_splits)

context job_queue
begin

lemma enqueue_scheduled:
  assumes "invar s" and "jid \<notin> dom (absq s)" and "ok_job (sched_job jid p key now)" and "quiet s" and "key \<noteq> []"
    and "Enqueue ops (sched_job jid p key now) s w = (out, s', w')"
  shows "invar s' \<and> quiet s' \<and> same_oracles w w' \<and> kept (absq s) (absq s') \<and> dom (absq s') \<subseteq> insert jid (dom (absq s))
    \<and> keyed (absq s') key \<and> (keyed (absq s) key \<longrightarrow> absq s' = absq s) \<and> (\<exists>i b. out = Inr (i, b))"
proof -
  let ?j = "sched_job jid p key now"
  have j: "job_ID ?j = jid" "job_DedupKey ?j = key" "job_Source ?j = ''scheduler''" by (simp_all add: sched_job_def)
  have fresh: "job_ID ?j \<notin> dom (absq s)" using assms(2) j by simp
  note frame = enqueue_frame [OF assms(1) fresh assms(6)]
  note spec = enqueue_law [OF assms(1) fresh assms(3,6)]
  note qt = enqueue_quiet [OF assms(4,1) fresh assms(3,6)]
  have src: "valid_source (job_Source ?j)" by (simp add: j valid_source_def)
  obtain i b where out: "out = Inr (i, b)"
    using spec qt src by (cases out) (auto simp: enqueue_spec_def)
  show ?thesis
  proof (cases b)
    case True
    then have q': "absq s' = (absq s)(jid \<mapsto> new_arec (ts (Now w)) (ts (job_NextRunAt ?j)) ?j)"
      and new: "\<forall>i r. absq s i = Some r \<longrightarrow> ar_dedup r \<noteq> key"
      using spec out j assms(5) by (auto simp: enqueue_spec_def)
    have "keyed (absq s') key" unfolding keyed_def q' by (rule exI [of _ jid]) (simp add: new_arec_def j)
    moreover have "\<not> keyed (absq s) key" using new by (auto simp: keyed_def)
    moreover have "dom (absq s') \<subseteq> insert jid (dom (absq s))" by (auto simp: q')
    ultimately show ?thesis using frame qt out by (simp add: kept_def)
  next
    case False
    then have "absq s' = absq s" "keyed (absq s) key"
      using spec out j by (auto simp: enqueue_spec_def keyed_def)
    then show ?thesis using frame qt out by (auto simp: kept_def)
  qed
qed

lemma tick_pairs_law:
  assumes "invar s" and "quiet s" and "second \<le> bucket" and "fresh_ids newid ok (dom (absq s)) (length ps + k) g"
    and "\<And>jid p key. ok jid \<Longrightarrow> p \<in> set ps \<Longrightarrow> ok_job (sched_job jid p key now)"
    and "tick_pairs ops newid bucket now ps s g w = (out, s', g', w')"
  shows "out = Ok None \<and> invar s' \<and> quiet s' \<and> same_oracles w w' \<and> kept (absq s) (absq s') \<and> fresh_ids newid ok (dom (absq s')) k g'
    \<and> (\<forall>p \<in> set ps. \<exists>key. DedupKey (Base p) (Quote p) now bucket = Ok key \<and> keyed (absq s') key)
    \<and> ((\<forall>p \<in> set ps. \<forall>key. DedupKey (Base p) (Quote p) now bucket = Ok key \<longrightarrow> keyed (absq s) key) \<longrightarrow> absq s' = absq s)"
  using assms
proof (induction ps arbitrary: s g w)
  case Nil
  then show ?case by (simp add: kept_def)
next
  case (Cons p ps)
  obtain jid g1 where g: "newid g = (jid, g1)" by force
  have nz: "bucket_secs bucket \<noteq> 0" using Cons.prems(3) by (simp add: bucket_secs_zero)
  then obtain key where key: "DedupKey (Base p) (Quote p) now bucket = Ok key" by (auto simp: DedupKey_def)
  obtain o1 s1 w1 where enq: "Enqueue ops (sched_job jid p key now) s w = (o1, s1, w1)" by (metis prod_cases3)
  have fr: "jid \<notin> dom (absq s)" "ok jid" "fresh_ids newid ok (insert jid (dom (absq s))) (length ps + k) g1"
    using Cons.prems(4) g by simp_all
  have okj: "ok_job (sched_job jid p key now)" using Cons.prems(5) [OF fr(2), of p key] by simp
  note law = enqueue_scheduled [OF Cons.prems(1) fr(1) okj Cons.prems(2) DedupKey_nonempty [OF key] enq]
  then have rest: "tick_pairs ops newid bucket now ps s1 g1 w1 = (out, s', g', w')"
    using Cons.prems(6) g key enq by auto
  have fr1: "fresh_ids newid ok (dom (absq s1)) (length ps + k) g1"
    using fresh_ids_mono [OF fr(3)] law by blast
  have ih: "out = Ok None \<and> invar s' \<and> quiet s' \<and> same_oracles w1 w' \<and> kept (absq s1) (absq s') \<and> fresh_ids newid ok (dom (absq s')) k g'
    \<and> (\<forall>p \<in> set ps. \<exists>key. DedupKey (Base p) (Quote p) now bucket = Ok key \<and> keyed (absq s') key)
    \<and> ((\<forall>p \<in> set ps. \<forall>key. DedupKey (Base p) (Quote p) now bucket = Ok key \<longrightarrow> keyed (absq s1) key) \<longrightarrow> absq s' = absq s1)"
    by (rule Cons.IH) (use law fr1 Cons.prems(3,5) rest in auto)
  have "keyed (absq s') key" using law ih keyed_kept by blast
  moreover have "kept (absq s) (absq s')" using law ih kept_trans by blast
  moreover have "same_oracles w w'" using law ih same_oracles_trans by blast
  moreover have "absq s' = absq s"
    if "\<forall>x \<in> set (p # ps). \<forall>key. DedupKey (Base x) (Quote x) now bucket = Ok key \<longrightarrow> keyed (absq s) key"
    using that law ih key by simp
  ultimately show ?case using ih key by auto
qed

end

section \<open>Properties\<close>

lemma ok_sched_job:
  "pe_uuid env jid = Some jid \<Longrightarrow> pgpair p \<Longrightarrow> pg_ok_job env (sched_job jid p key now)"
  by (simp add: pg_ok_job_def sched_job_def pgpair_def)

lemma pg_tick_outcome:
  assumes "pg_invar (ss_queue st)" and "pg_quiet (ss_queue st)" and "second \<le> sch_bucketSize c" and "\<forall>p \<in> set (sch_pairs c). pgpair p"
    and "fresh_ids newid (\<lambda>i. pe_uuid env i = Some i) (dom (pg_abs (ss_queue st))) (length (sch_pairs c)) (ss_idgen st)"
    and "scheduler_Tick (pg_ops env) newid c st w = (out, st', w')"
  shows "out = Ok None \<and> same_oracles w w'"
proof -
  obtain o1 s1 g1 w1 where t: "tick_pairs (pg_ops env) newid (sch_bucketSize c) (Now w) (sch_pairs c) (ss_queue st) (ss_idgen st) (tick w) = (o1, s1, g1, w1)"
    by (metis prod_cases4)
  have okj: "pg_ok_job env (sched_job jid p key t)" if "pe_uuid env jid = Some jid" "p \<in> set (sch_pairs c)" for jid p key t
    using that assms(4) ok_sched_job by blast
  have "o1 = Ok None \<and> same_oracles (tick w) w1"
    using pg.tick_pairs_law [OF assms(1-3), where k = 0 and ok = "\<lambda>i. pe_uuid env i = Some i", OF _ okj t] assms(5) by simp
  then show ?thesis using assms(6) t same_oracles_trans [of w "tick w" w1] by (auto simp: scheduler_Tick_def Let_def)
qed

text \<open>C25: A scheduler tick over Postgres leaves exactly one job per configured pair and window. With no storage failure
  ahead, a window of at least a second, storable pairs and fresh ids, a tick succeeds, is recorded, keeps every
  existing job untouched, and afterwards each pair has a job under the key of the current window.\<close>

theorem pg_tick_covers_pairs:
  assumes "pg_invar (ss_queue st)" and "pg_quiet (ss_queue st)" and "second \<le> sch_bucketSize c" and "\<forall>p \<in> set (sch_pairs c). pgpair p"
    and "fresh_ids newid (\<lambda>i. pe_uuid env i = Some i) (dom (pg_abs (ss_queue st))) (length (sch_pairs c)) (ss_idgen st)"
    and "scheduler_Tick (pg_ops env) newid c st w = (out, st', w')"
  shows "out = Ok None \<and> pg_invar (ss_queue st') \<and> LastTick st' = Now w \<and> kept (pg_abs (ss_queue st)) (pg_abs (ss_queue st'))
    \<and> (\<forall>p \<in> set (sch_pairs c). \<exists>key. DedupKey (Base p) (Quote p) (Now w) (sch_bucketSize c) = Ok key
         \<and> (\<exists>!i. \<exists>r. pg_abs (ss_queue st') i = Some r \<and> ar_dedup r = key))"
proof -
  obtain o1 s1 g1 w1 where t: "tick_pairs (pg_ops env) newid (sch_bucketSize c) (Now w) (sch_pairs c) (ss_queue st) (ss_idgen st) (tick w) = (o1, s1, g1, w1)"
    by (metis prod_cases4)
  have okj: "pg_ok_job env (sched_job jid p key t)" if "pe_uuid env jid = Some jid" "p \<in> set (sch_pairs c)" for jid p key t
    using that assms(4) ok_sched_job by blast
  have law: "o1 = Ok None \<and> pg_invar s1 \<and> kept (pg_abs (ss_queue st)) (pg_abs s1)
      \<and> (\<forall>p \<in> set (sch_pairs c). \<exists>key. DedupKey (Base p) (Quote p) (Now w) (sch_bucketSize c) = Ok key \<and> keyed (pg_abs s1) key)"
    using pg.tick_pairs_law [OF assms(1-3), where k = 0 and ok = "\<lambda>i. pe_uuid env i = Some i", OF _ okj t] assms(5) by simp
  have st': "out = Ok None" "st' = st\<lparr>ss_queue := s1, ss_idgen := g1, ss_lastTick := Now w\<rparr>"
    using assms(6) t law by (auto simp: scheduler_Tick_def Let_def)
  have one: "\<exists>!i. \<exists>r. pg_abs s1 i = Some r \<and> ar_dedup r = key"
    if "keyed (pg_abs s1) key" "DedupKey b q t d = Ok key" for key b q t d
    using that DedupKey_nonempty [OF that(2)] pg.dedup_unique [of s1] law unfolding keyed_def by metis
  have "\<forall>p \<in> set (sch_pairs c). \<exists>key. DedupKey (Base p) (Quote p) (Now w) (sch_bucketSize c) = Ok key
      \<and> (\<exists>!i. \<exists>r. pg_abs s1 i = Some r \<and> ar_dedup r = key)"
  proof
    fix p assume "p \<in> set (sch_pairs c)"
    with law obtain key where key: "DedupKey (Base p) (Quote p) (Now w) (sch_bucketSize c) = Ok key" "keyed (pg_abs s1) key" by blast
    from key(1) one [OF key(2,1)] show "\<exists>key. DedupKey (Base p) (Quote p) (Now w) (sch_bucketSize c) = Ok key
      \<and> (\<exists>!i. \<exists>r. pg_abs s1 i = Some r \<and> ar_dedup r = key)" by (intro exI conjI)
  qed
  with law st' show ?thesis by (simp add: LastTick_def)
qed

text \<open>C26: Ticks within one window are idempotent on Postgres. For a consistent database with no storage failure ahead of
  either tick, a window of at least a second, pairs the table accepts (two different codes of length three) and
  generated ids that are fresh and canonical for both ticks: if the key's window at the second tick is the one of the first,
  the second of two consecutive ticks succeeds and changes no job at all.\<close>

theorem pg_tick_idempotent:
  assumes "pg_invar (ss_queue st)" and "pg_quiet (ss_queue st)" and "second \<le> sch_bucketSize c" and "\<forall>p \<in> set (sch_pairs c). pgpair p"
    and "fresh_ids newid (\<lambda>i. pe_uuid env i = Some i) (dom (pg_abs (ss_queue st))) (2 * length (sch_pairs c)) (ss_idgen st)"
    and "scheduler_Tick (pg_ops env) newid c st w = (out1, st1, w1)" and "scheduler_Tick (pg_ops env) newid c st1 w1 = (out2, st2, w2)"
    and "bucket_of (Now w1) (sch_bucketSize c) = bucket_of (Now w) (sch_bucketSize c)"
  shows "out2 = Ok None \<and> pg_abs (ss_queue st2) = pg_abs (ss_queue st1)"
proof -
  let ?ok = "\<lambda>i. pe_uuid env i = Some i" and ?ps = "sch_pairs c" and ?d = "sch_bucketSize c"
  obtain o1 s1 g1 x1 where t1: "tick_pairs (pg_ops env) newid ?d (Now w) ?ps (ss_queue st) (ss_idgen st) (tick w) = (o1, s1, g1, x1)"
    by (metis prod_cases4)
  have okj: "pg_ok_job env (sched_job jid p key t)" if "pe_uuid env jid = Some jid" "p \<in> set ?ps" for jid p key t
    using that assms(4) ok_sched_job by blast
  have l1: "o1 = Ok None \<and> pg_invar s1 \<and> pg_quiet s1 \<and> fresh_ids newid ?ok (dom (pg_abs s1)) (length ?ps) g1
      \<and> (\<forall>p \<in> set ?ps. \<exists>key. DedupKey (Base p) (Quote p) (Now w) ?d = Ok key \<and> keyed (pg_abs s1) key)"
    using pg.tick_pairs_law [OF assms(1-3), where k = "length ?ps" and ok = ?ok, OF _ okj t1] assms(5) by (simp add: mult_2)
  have st1: "ss_queue st1 = s1" "ss_idgen st1 = g1" using assms(6) t1 l1 by (auto simp: scheduler_Tick_def Let_def)
  obtain o2 s2 g2 x2 where t2: "tick_pairs (pg_ops env) newid ?d (Now w1) ?ps s1 g1 (tick w1) = (o2, s2, g2, x2)"
    by (metis prod_cases4)
  have same: "DedupKey b q (Now w1) ?d = DedupKey b q (Now w) ?d" for b q
    using assms(8) by (simp add: DedupKey_def)
  have "\<forall>p \<in> set ?ps. \<forall>key. DedupKey (Base p) (Quote p) (Now w1) ?d = Ok key \<longrightarrow> keyed (pg_abs s1) key"
    unfolding same using l1 by fastforce
  then have "o2 = Ok None \<and> pg_abs s2 = pg_abs s1"
    using pg.tick_pairs_law [OF _ _ assms(3), where k = 0 and ok = "\<lambda>i. pe_uuid env i = Some i", OF _ _ _ okj t2] l1 by simp
  then show ?thesis using assms(7) t2 st1 by (auto simp: scheduler_Tick_def Let_def)
qed

text \<open>The closed instances: two pairs, a window of ten seconds, sequential ids.\<close>

definition sample_sched :: scheduler where
  "sample_sched = scheduler_New [WithInterval (5 * second), WithBucketSize (10 * second), WithPairs [Pair ''EUR'' ''USD'', Pair ''USD'' ''EUR'']]"

definition sample_sch_state :: "(int pgdb, seq_gen) sch_state" where
  "sample_sch_state = \<lparr>ss_queue = sample_db, ss_idgen = NewSeq, ss_lastTick = zero_time\<rparr>"

lemma sample_sched_sel:
  "sch_bucketSize sample_sched = 10 * second" "sch_pairs sample_sched = [Pair ''EUR'' ''USD'', Pair ''USD'' ''EUR'']"
  by (simp_all add: sample_sched_def scheduler_New_def)

lemma sample_sched_len: "length (sch_pairs sample_sched) = 2" "2 * length (sch_pairs sample_sched) = 4"
  by (simp_all add: sample_sched_sel)

lemma sample_sched_fresh:
  "n \<le> 4 \<Longrightarrow> fresh_ids SeqNewID (\<lambda>i. pe_uuid sample_env i = Some i) (dom (pg_abs sample_db)) n NewSeq"
proof -
  assume n: "n \<le> 4"
  have dom: "dom (pg_abs sample_db) = {''a'', ''b'', ''c''}" by (auto simp: sample_db_abs)
  have "fresh_ids SeqNewID (\<lambda>i. True) {''a'', ''b'', ''c''} 4 NewSeq" by code_simp
  then have "fresh_ids SeqNewID (\<lambda>i. True) {''a'', ''b'', ''c''} n NewSeq" using n by (rule fresh_ids_less)
  then show ?thesis unfolding dom by simp
qed

theorem pg_tick_covers_pairs_witness:
  "\<exists>st' w'. scheduler_Tick (pg_ops sample_env) SeqNewID sample_sched sample_sch_state sample_world = (Ok None, st', w')
     \<and> LastTick st' = 100 * second \<and> kept (pg_abs sample_db) (pg_abs (ss_queue st'))"
proof -
  obtain out st' w' where t: "scheduler_Tick (pg_ops sample_env) SeqNewID sample_sched sample_sch_state sample_world = (out, st', w')" by (metis prod_cases3)
  have h: "pg_invar (ss_queue sample_sch_state)" "pg_quiet (ss_queue sample_sch_state)" "second \<le> sch_bucketSize sample_sched"
      "\<forall>p \<in> set (sch_pairs sample_sched). pgpair p"
      "fresh_ids SeqNewID (\<lambda>i. pe_uuid sample_env i = Some i) (dom (pg_abs (ss_queue sample_sch_state))) (length (sch_pairs sample_sched)) (ss_idgen sample_sch_state)"
    using sample_db_invar sample_db_quiet sample_sched_fresh [of 2]
    unfolding sample_sched_len by (simp_all add: sample_sch_state_def sample_sched_sel pgpair_def del: fresh_ids.simps)
  from pg_tick_covers_pairs [OF h t] t show ?thesis by (simp add: Now_def sample_world_def sample_sch_state_def)
qed

theorem pg_tick_idempotent_witness:
  "\<exists>st1 w1 st2 w2. scheduler_Tick (pg_ops sample_env) SeqNewID sample_sched sample_sch_state (sample_world\<lparr>clk := \<lambda>n. 105 * second\<rparr>) = (Ok None, st1, w1)
     \<and> scheduler_Tick (pg_ops sample_env) SeqNewID sample_sched st1 w1 = (Ok None, st2, w2)
     \<and> pg_abs (ss_queue st2) = pg_abs (ss_queue st1)"
proof -
  let ?w = "sample_world\<lparr>clk := \<lambda>n. 105 * second\<rparr>"
  obtain out1 st1 w1 where t1: "scheduler_Tick (pg_ops sample_env) SeqNewID sample_sched sample_sch_state ?w = (out1, st1, w1)" by (metis prod_cases3)
  obtain out2 st2 w2 where t2: "scheduler_Tick (pg_ops sample_env) SeqNewID sample_sched st1 w1 = (out2, st2, w2)" by (metis prod_cases3)
  have h: "pg_invar (ss_queue sample_sch_state)" "pg_quiet (ss_queue sample_sch_state)" "second \<le> sch_bucketSize sample_sched"
      "\<forall>p \<in> set (sch_pairs sample_sched). pgpair p"
      "fresh_ids SeqNewID (\<lambda>i. pe_uuid sample_env i = Some i) (dom (pg_abs (ss_queue sample_sch_state))) (length (sch_pairs sample_sched)) (ss_idgen sample_sch_state)"
      "fresh_ids SeqNewID (\<lambda>i. pe_uuid sample_env i = Some i) (dom (pg_abs (ss_queue sample_sch_state))) (2 * length (sch_pairs sample_sched)) (ss_idgen sample_sch_state)"
    using sample_db_invar sample_db_quiet sample_sched_fresh [of 2] sample_sched_fresh [of 4]
    unfolding sample_sched_len by (simp_all add: sample_sch_state_def sample_sched_sel pgpair_def del: fresh_ids.simps)
  note first = pg_tick_outcome [OF h(1-5) t1]
  then have "bucket_of (Now w1) (sch_bucketSize sample_sched) = bucket_of (Now ?w) (sch_bucketSize sample_sched)"
    by (simp add: Now_def same_oracles_def)
  from pg_tick_idempotent [OF h(1-4,6) t1 t2 this] first t1 t2 show ?thesis by blast
qed

end
