(* ===== verification/Collectors.thy ===== *)
theory Collectors
  imports Obs Jsnum
begin

text \<open>
  The metrics of the service: what \<open>init\<close> of \<open>internal/obs/metrics.go\<close> declares and registers, the collectors of
  \<open>pgxpool_collector.go\<close> and \<open>scheduler_gauge.go\<close>, the two registrations of \<open>cmd/server/main.go\<close> and the page of
  \<open>metrics_http.go\<close>. The registry of the Prometheus client is an argument (\<open>prom_client\<close>) with its documented behaviour as a
  hypothesis (\<open>registry_law\<close>); the descriptors of the runtime collectors are arguments too (\<open>runtime_law\<close>). The lemmas show
  that no registration of a start-up panics and which names a scrape shows.
\<close>

section \<open>Declarations\<close>

datatype metric_kind = CounterKind | GaugeKind | HistogramKind

text \<open>A metric of the package: its options, its label names and the series \<open>init\<close> creates
  (\<open>WithLabelValues\<close>). No buckets stands for the default of the client.\<close>

record metric_desc =
  md_name :: string
  md_kind :: metric_kind
  md_labels :: "string list"
  md_buckets :: "rat list"
  md_series :: "string list list"

definition HTTPRequestsTotal :: metric_desc where
  "HTTPRequestsTotal = \<lparr>md_name = MetricHTTPRequestsTotal, md_kind = CounterKind, md_labels = [''method'', ''path'', ''status''],
     md_buckets = [], md_series = []\<rparr>"

definition HTTPRequestDurationSeconds :: metric_desc where
  "HTTPRequestDurationSeconds = \<lparr>md_name = MetricHTTPRequestDurationSeconds, md_kind = HistogramKind,
     md_labels = [''method'', ''path''], md_buckets = [], md_series = []\<rparr>"

definition HTTPInFlightRequests :: metric_desc where
  "HTTPInFlightRequests = \<lparr>md_name = MetricHTTPInFlightRequests, md_kind = GaugeKind, md_labels = [], md_buckets = [],
     md_series = []\<rparr>"

definition QuoteJobsPendingCount :: metric_desc where
  "QuoteJobsPendingCount = \<lparr>md_name = MetricQuoteJobsPendingCount, md_kind = GaugeKind, md_labels = [], md_buckets = [],
     md_series = []\<rparr>"

definition QuoteJobsTotal :: metric_desc where
  "QuoteJobsTotal = \<lparr>md_name = MetricQuoteJobsTotal, md_kind = CounterKind, md_labels = [''status''], md_buckets = [],
     md_series = [[''done''], [''failed'']]\<rparr>"

definition QuoteJobsAttempts :: metric_desc where
  "QuoteJobsAttempts = \<lparr>md_name = MetricQuoteJobsAttempts, md_kind = HistogramKind, md_labels = [],
     md_buckets = [1, 2, 3, 4, 5, 10], md_series = []\<rparr>"

definition WorkerIterationsTotal :: metric_desc where
  "WorkerIterationsTotal = \<lparr>md_name = MetricWorkerIterationsTotal, md_kind = CounterKind, md_labels = [''outcome''],
     md_buckets = [], md_series = [[''idle''], [''ok''], [''work''], [''error'']]\<rparr>"

definition SchedulerTicksTotal :: metric_desc where
  "SchedulerTicksTotal = \<lparr>md_name = MetricSchedulerTicksTotal, md_kind = CounterKind, md_labels = [], md_buckets = [],
     md_series = []\<rparr>"

definition CoalescingCollapsedTotal :: metric_desc where
  "CoalescingCollapsedTotal = \<lparr>md_name = MetricCoalescingCollapsedTotal, md_kind = CounterKind, md_labels = [],
     md_buckets = [], md_series = []\<rparr>"

definition RatesProviderRequestsTotal :: metric_desc where
  "RatesProviderRequestsTotal = \<lparr>md_name = MetricRatesProviderRequestsTotal, md_kind = CounterKind,
     md_labels = [''provider'', ''outcome''], md_buckets = [],
     md_series = [[''apilayer'', ''ok''], [''apilayer'', ''transient''], [''apilayer'', ''quota_exceeded''],
                  [''apilayer'', ''permanent'']]\<rparr>"

definition RatesProviderRequestDurationSeconds :: metric_desc where
  "RatesProviderRequestDurationSeconds = \<lparr>md_name = MetricRatesProviderRequestDurationSeconds, md_kind = HistogramKind,
     md_labels = [''provider''], md_buckets = [], md_series = [[''apilayer'']]\<rparr>"

definition RatesProviderResponseAnomaliesTotal :: metric_desc where
  "RatesProviderResponseAnomaliesTotal = \<lparr>md_name = MetricRatesProviderResponseAnomaliesTotal, md_kind = CounterKind,
     md_labels = [''provider'', ''kind''], md_buckets = [], md_series = [[''apilayer'', ''malformed_quote_key'']]\<rparr>"

definition QuoteJobsCompletionSeconds :: metric_desc where
  "QuoteJobsCompletionSeconds = \<lparr>md_name = MetricQuoteJobsCompletionSeconds, md_kind = HistogramKind,
     md_labels = [''source''], md_buckets = [1 / 20, 1 / 10, 1 / 4, 1 / 2, 1, 2, 5, 10, 30],
     md_series = [[''scheduler''], [''refresh'']]\<rparr>"

lemmas metric_vars = HTTPRequestsTotal_def HTTPRequestDurationSeconds_def HTTPInFlightRequests_def QuoteJobsPendingCount_def
  QuoteJobsTotal_def QuoteJobsAttempts_def WorkerIterationsTotal_def SchedulerTicksTotal_def CoalescingCollapsedTotal_def
  RatesProviderRequestsTotal_def RatesProviderRequestDurationSeconds_def RatesProviderResponseAnomaliesTotal_def
  QuoteJobsCompletionSeconds_def

definition AllMetricNames :: "string list" where
  "AllMetricNames = [MetricHTTPInFlightRequests, MetricQuoteJobsPendingCount, MetricQuoteJobsTotal, MetricQuoteJobsAttempts,
     MetricWorkerIterationsTotal, MetricSchedulerTicksTotal, MetricCoalescingCollapsedTotal, MetricRatesProviderRequestsTotal,
     MetricRatesProviderRequestDurationSeconds, MetricRatesProviderResponseAnomaliesTotal, MetricQuoteJobsCompletionSeconds]"

section \<open>Collectors and registration\<close>

type_synonym desc = "string \<times> string list"

definition desc_of :: "metric_desc \<Rightarrow> desc" where
  "desc_of d = (md_name d, md_labels d)"

datatype collector =
    Metric metric_desc
  | DescOnly desc
  | PoolCollector
  | LastTickGauge
  | Runtime "desc list"

text \<open>The descriptors \<open>NewPgxpoolCollector\<close> builds, in the order \<open>Describe\<close> sends them.\<close>

definition pool_descs :: "desc list" where
  "pool_descs = map (\<lambda>n. (n, [])) [MetricDBPoolTotalConns, MetricDBPoolIdleConns, MetricDBPoolAcquiredConns,
     MetricDBPoolMaxConns, MetricDBPoolAcquiresTotal, MetricDBPoolAcquireWaitSecondsTotal, MetricDBPoolEmptyAcquiresTotal,
     MetricDBPoolCancelledAcquiresTotal, MetricDBPoolNewConnsTotal]"

fun Describe :: "collector \<Rightarrow> desc list" where
  "Describe (Metric d) = [desc_of d]"
| "Describe (DescOnly d) = [d]"
| "Describe PoolCollector = pool_descs"
| "Describe LastTickGauge = [(MetricSchedulerLastTickSecondsAgo, [])]"
| "Describe (Runtime ds) = ds"

text \<open>The families a collector puts on the page after the updates \<open>tr\<close>: none for a bare descriptor, and none for a vector that
  has no series, which is one that \<open>init\<close> did not fill and nothing has updated yet. Which of their families the runtime
  collectors have to show on a platform is left to \<open>rt\<close>.\<close>

fun updated_name :: "metric \<Rightarrow> string" where
  "updated_name (Inc n l) = n"
| "updated_name (Observe n l v) = n"
| "updated_name (GaugeAdd n v) = n"

definition has_series :: "metric list \<Rightarrow> metric_desc \<Rightarrow> bool" where
  "has_series tr d \<longleftrightarrow> md_labels d = [] \<or> md_series d \<noteq> [] \<or> md_name d \<in> updated_name ` set tr"

fun families :: "(string \<Rightarrow> bool) \<Rightarrow> metric list \<Rightarrow> collector \<Rightarrow> string list" where
  "families rt tr (Metric d) = (if has_series tr d then [md_name d] else [])"
| "families rt tr (DescOnly d) = []"
| "families rt tr (Runtime ds) = filter rt (map fst ds)"
| "families rt tr c = map fst (Describe c)"

record 'r prom_client =
  pc_NewRegistry :: 'r
  pc_Register :: "desc list \<Rightarrow> 'r \<Rightarrow> 'r option"

fun MustRegister :: "'r prom_client \<Rightarrow> collector list \<Rightarrow> 'r \<Rightarrow> 'r res" where
  "MustRegister pc [] r = Ok r"
| "MustRegister pc (c # cs) r =
     (case pc_Register pc (Describe c) r of
        None \<Rightarrow> Panic ''duplicate metrics collector registration attempted''
      | Some r1 \<Rightarrow> MustRegister pc cs r1)"

definition http_collectors :: "collector list" where
  "http_collectors = [Metric HTTPRequestsTotal]"

definition service_collectors :: "collector list" where
  "service_collectors = map Metric [HTTPRequestDurationSeconds, HTTPInFlightRequests, QuoteJobsPendingCount, QuoteJobsTotal,
     QuoteJobsAttempts, WorkerIterationsTotal, SchedulerTicksTotal, CoalescingCollapsedTotal, RatesProviderRequestsTotal,
     RatesProviderRequestDurationSeconds, RatesProviderResponseAnomaliesTotal, QuoteJobsCompletionSeconds]"

text \<open>\<open>init\<close>: the default registry and the one of \<open>http_requests_total\<close>.\<close>

definition obs_init :: "'r prom_client \<Rightarrow> desc list \<Rightarrow> desc list \<Rightarrow> ('r \<times> 'r) res" where
  "obs_init pc go_descs process_descs =
     (case MustRegister pc http_collectors (pc_NewRegistry pc) of
        Panic m \<Rightarrow> Panic m
      | Ok httpRegistry \<Rightarrow>
          (case MustRegister pc [DescOnly (MetricHTTPRequestsTotal, [''method'', ''path'', ''status''])] (pc_NewRegistry pc) of
             Panic m \<Rightarrow> Panic m
           | Ok d1 \<Rightarrow>
               (case MustRegister pc service_collectors d1 of
                  Panic m \<Rightarrow> Panic m
                | Ok d2 \<Rightarrow> res_map (\<lambda>d3. (d3, httpRegistry)) (MustRegister pc [Runtime go_descs, Runtime process_descs] d2))))"

text \<open>What \<open>run\<close> adds to the default registry: the pool collector, and once the scheduler is
  built the gauge of its last tick.\<close>

definition main_registers :: "'r prom_client \<Rightarrow> 'r \<Rightarrow> 'r res" where
  "main_registers pc r =
     (case MustRegister pc [PoolCollector] r of
        Panic m \<Rightarrow> Panic m
      | Ok r1 \<Rightarrow> MustRegister pc [LastTickGauge] r1)"

text \<open>\<open>MetricsHandler\<close> gathers both registries: the collectors each holds once the process is up.\<close>

definition default_collectors :: "desc list \<Rightarrow> desc list \<Rightarrow> collector list" where
  "default_collectors go_descs process_descs =
     DescOnly (MetricHTTPRequestsTotal, [''method'', ''path'', ''status'']) # service_collectors
       @ [Runtime go_descs, Runtime process_descs, PoolCollector, LastTickGauge]"

definition gathered :: "(string \<Rightarrow> bool) \<Rightarrow> metric list \<Rightarrow> desc list \<Rightarrow> desc list \<Rightarrow> string list" where
  "gathered rt tr go_descs process_descs = concat (map (families rt tr) (default_collectors go_descs process_descs @ http_collectors))"

section \<open>The pool collector\<close>

record pool_stats =
  ps_TotalConns :: int
  ps_IdleConns :: int
  ps_AcquiredConns :: int
  ps_MaxConns :: int
  ps_AcquireCount :: int
  ps_AcquireWaitDuration :: duration
  ps_EmptyAcquireCount :: int
  ps_CanceledAcquireCount :: int
  ps_NewConnsCount :: int

text \<open>\<open>Duration.Seconds\<close> in doubles, and the samples of one scrape of the pool: name, kind and value.\<close>

definition Seconds :: "duration \<Rightarrow> js_num" where
  "Seconds d =
     (let sec = go_quot d second; nsec = d - sec * second
      in js_add (js_round (of_int sec)) (js_round (of_int nsec / 10 ^ 9)))"

definition pool_Collect :: "pool_stats \<Rightarrow> (string \<times> metric_kind \<times> js_num) list" where
  "pool_Collect s =
     [(MetricDBPoolTotalConns, GaugeKind, js_round (of_int (ps_TotalConns s))),
      (MetricDBPoolIdleConns, GaugeKind, js_round (of_int (ps_IdleConns s))),
      (MetricDBPoolAcquiredConns, GaugeKind, js_round (of_int (ps_AcquiredConns s))),
      (MetricDBPoolMaxConns, GaugeKind, js_round (of_int (ps_MaxConns s))),
      (MetricDBPoolAcquiresTotal, CounterKind, js_round (of_int (ps_AcquireCount s))),
      (MetricDBPoolAcquireWaitSecondsTotal, CounterKind, Seconds (ps_AcquireWaitDuration s)),
      (MetricDBPoolEmptyAcquiresTotal, CounterKind, js_round (of_int (ps_EmptyAcquireCount s))),
      (MetricDBPoolCancelledAcquiresTotal, CounterKind, js_round (of_int (ps_CanceledAcquireCount s))),
      (MetricDBPoolNewConnsTotal, CounterKind, js_round (of_int (ps_NewConnsCount s)))]"

section \<open>Registration succeeds\<close>

text \<open>A metric name as the client accepts it.\<close>

definition name_start :: "char \<Rightarrow> bool" where
  "name_start c \<longleftrightarrow> (let n = (of_char c :: nat) in 65 \<le> n \<and> n \<le> 90 \<or> 97 \<le> n \<and> n \<le> 122 \<or> c = CHR ''_'' \<or> c = CHR '':'')"

definition valid_metric_name :: "string \<Rightarrow> bool" where
  "valid_metric_name s \<longleftrightarrow> s \<noteq> [] \<and> name_start (hd s) \<and> list_all (\<lambda>c. name_start c \<or> is_digit c) s"

text \<open>The documented behaviour of the registry: a new one is empty, and a collector whose
  descriptors are valid and name nothing twice, in themselves or in the registry, is registered.\<close>

definition registry_law :: "'r prom_client \<Rightarrow> ('r \<Rightarrow> string set) \<Rightarrow> bool" where
  "registry_law pc names \<longleftrightarrow> names (pc_NewRegistry pc) = {}
     \<and> (\<forall>ds r. distinct (map fst ds) \<and> list_all valid_metric_name (map fst ds) \<and> fst ` set ds \<inter> names r = {} \<longrightarrow>
          (\<exists>r'. pc_Register pc ds r = Some r' \<and> names r' = names r \<union> fst ` set ds))"

text \<open>The runtime collectors of the client keep to the prefixes \<open>go_\<close> and \<open>process_\<close>.\<close>

definition runtime_law :: "desc list \<Rightarrow> desc list \<Rightarrow> bool" where
  "runtime_law go_descs process_descs \<longleftrightarrow>
     distinct (map fst (go_descs @ process_descs)) \<and> list_all valid_metric_name (map fst (go_descs @ process_descs))
     \<and> list_all (\<lambda>d. startsWith (fst d) ''go_'' \<or> startsWith (fst d) ''process_'') (go_descs @ process_descs)"

definition described :: "collector list \<Rightarrow> string list" where
  "described cs = concat (map (\<lambda>c. map fst (Describe c)) cs)"

lemma described_simps [simp]:
  "described [] = []" "described (c # cs) = map fst (Describe c) @ described cs" "described (cs @ cs') = described cs @ described cs'"
  by (simp_all add: described_def)

lemma MustRegister_fresh:
  assumes "registry_law pc names" and "distinct (described cs)" and "list_all valid_metric_name (described cs)"
    and "set (described cs) \<inter> names r = {}"
  shows "\<exists>r'. MustRegister pc cs r = Ok r' \<and> names r' = names r \<union> set (described cs)"
  using assms(2-)
proof (induction cs arbitrary: r)
  case (Cons c cs)
  then have "distinct (map fst (Describe c))" "list_all valid_metric_name (map fst (Describe c))"
      "fst ` set (Describe c) \<inter> names r = {}" by auto
  with assms(1) obtain r1 where r1: "pc_Register pc (Describe c) r = Some r1" "names r1 = names r \<union> fst ` set (Describe c)"
    unfolding registry_law_def by blast
  have "set (described cs) \<inter> names r1 = {}" using Cons.prems(1,3) unfolding r1(2) by (simp; blast)
  then have "\<exists>r'. MustRegister pc cs r1 = Ok r' \<and> names r' = names r1 \<union> set (described cs)"
    using Cons.prems(1,2) by (intro Cons.IH) simp_all
  with r1 show ?case by auto
qed simp

lemmas all_names = described_def service_collectors_def http_collectors_def desc_of_def metric_vars pool_descs_def metric_names pool_metric_names

definition own_collectors :: "collector list" where
  "own_collectors = DescOnly (MetricHTTPRequestsTotal, []) # service_collectors @ [PoolCollector, LastTickGauge]"

lemma own_names_valid:
  "list_all valid_metric_name (described own_collectors)"
  by (simp add: own_collectors_def all_names valid_metric_name_def name_start_def)

lemma own_names_distinct:
  "distinct (described own_collectors)"
  by (simp add: own_collectors_def all_names)

lemma own_names_prefix:
  "n \<in> set (described own_collectors) \<Longrightarrow>
     \<not> startsWith n ''go_'' \<and> \<not> startsWith n ''process_''"
  by (auto simp: own_collectors_def all_names startsWith_def)

lemma runtime_prefix: "runtime_law g p \<Longrightarrow> n \<in> fst ` set (g @ p) \<Longrightarrow> startsWith n ''go_'' \<or> startsWith n ''process_''"
  unfolding runtime_law_def list_all_iff by blast

lemma runtime_apart:
  "runtime_law g p \<Longrightarrow> set (map fst (g @ p)) \<inter>
     set (described own_collectors) = {}"
  using own_names_prefix runtime_prefix unfolding set_map by blast

lemma quota_used_prefix: "\<not> startsWith MetricRatesProviderQuotaUsed ''go_''" "\<not> startsWith MetricRatesProviderQuotaUsed ''process_''"
  by (simp_all add: metric_names startsWith_def)

lemma quota_used_absent: "MetricRatesProviderQuotaUsed \<notin> set (described own_collectors)"
  by (simp add: own_collectors_def all_names)

text \<open>What the page shows are described names, each once: \<open>http_requests_total\<close> is described in the default registry and collected
  from the other. Only the two vectors that \<open>init\<close> leaves empty can be missing of the package's own.\<close>

definition late_names :: "string set" where
  "late_names = {MetricHTTPRequestsTotal, MetricHTTPRequestDurationSeconds}"

definition on_page :: "(string \<Rightarrow> bool) \<Rightarrow> metric list \<Rightarrow> string list \<Rightarrow> string \<Rightarrow> bool" where
  "on_page rt tr runtime n \<longleftrightarrow> (n \<in> set runtime \<longrightarrow> rt n) \<and> (n \<in> late_names \<longrightarrow> n \<in> updated_name ` set tr)"

lemma has_series_simps [simp]:
  "has_series tr HTTPRequestsTotal \<longleftrightarrow> MetricHTTPRequestsTotal \<in> updated_name ` set tr"
  "has_series tr HTTPRequestDurationSeconds \<longleftrightarrow> MetricHTTPRequestDurationSeconds \<in> updated_name ` set tr"
  "has_series tr HTTPInFlightRequests" "has_series tr QuoteJobsPendingCount" "has_series tr QuoteJobsTotal" "has_series tr QuoteJobsAttempts"
  "has_series tr WorkerIterationsTotal" "has_series tr SchedulerTicksTotal" "has_series tr CoalescingCollapsedTotal"
  "has_series tr RatesProviderRequestsTotal" "has_series tr RatesProviderRequestDurationSeconds"
  "has_series tr RatesProviderResponseAnomaliesTotal" "has_series tr QuoteJobsCompletionSeconds"
  by (simp_all add: has_series_def metric_vars)

text \<open>The families of the package's own collectors.\<close>

definition own_page :: "metric list \<Rightarrow> string list" where
  "own_page tr = concat (map (families (\<lambda>n. False) tr) (service_collectors @ [PoolCollector, LastTickGauge] @ http_collectors))"

lemma gathered_split: "mset (gathered rt tr g p) = mset (own_page tr @ filter rt (map fst (g @ p)))"
  by (simp add: gathered_def own_page_def default_collectors_def service_collectors_def http_collectors_def)

lemma md_name_simps [simp]:
  "md_name HTTPRequestsTotal = MetricHTTPRequestsTotal" "md_name HTTPRequestDurationSeconds = MetricHTTPRequestDurationSeconds"
  "md_name HTTPInFlightRequests = MetricHTTPInFlightRequests" "md_name QuoteJobsPendingCount = MetricQuoteJobsPendingCount"
  "md_name QuoteJobsTotal = MetricQuoteJobsTotal" "md_name QuoteJobsAttempts = MetricQuoteJobsAttempts"
  "md_name WorkerIterationsTotal = MetricWorkerIterationsTotal" "md_name SchedulerTicksTotal = MetricSchedulerTicksTotal"
  "md_name CoalescingCollapsedTotal = MetricCoalescingCollapsedTotal" "md_name RatesProviderRequestsTotal = MetricRatesProviderRequestsTotal"
  "md_name RatesProviderRequestDurationSeconds = MetricRatesProviderRequestDurationSeconds"
  "md_name RatesProviderResponseAnomaliesTotal = MetricRatesProviderResponseAnomaliesTotal"
  "md_name QuoteJobsCompletionSeconds = MetricQuoteJobsCompletionSeconds"
  by (simp_all add: metric_vars)

text \<open>The names that are on every page.\<close>

definition always_names :: "string list" where
  "always_names = [MetricHTTPInFlightRequests, MetricQuoteJobsPendingCount, MetricQuoteJobsTotal, MetricQuoteJobsAttempts,
     MetricWorkerIterationsTotal, MetricSchedulerTicksTotal, MetricCoalescingCollapsedTotal, MetricRatesProviderRequestsTotal,
     MetricRatesProviderRequestDurationSeconds, MetricRatesProviderResponseAnomaliesTotal, MetricQuoteJobsCompletionSeconds]
     @ map fst pool_descs @ [MetricSchedulerLastTickSecondsAgo]"

lemma own_page_eq:
  "own_page tr = (if MetricHTTPRequestDurationSeconds \<in> updated_name ` set tr then [MetricHTTPRequestDurationSeconds] else [])
     @ always_names @ (if MetricHTTPRequestsTotal \<in> updated_name ` set tr then [MetricHTTPRequestsTotal] else [])"
  by (simp add: own_page_def service_collectors_def http_collectors_def always_names_def)

lemma own_described_eq: "described own_collectors = MetricHTTPRequestsTotal # MetricHTTPRequestDurationSeconds # always_names"
  by (simp add: own_collectors_def service_collectors_def desc_of_def always_names_def described_def)

lemma own_page_names:
  "mset (own_page tr) = mset (filter (\<lambda>n. n \<in> late_names \<longrightarrow> n \<in> updated_name ` set tr) (described own_collectors))"
proof -
  have "n \<notin> late_names" if "n \<in> set always_names" for n
    using that own_names_distinct by (auto simp: own_described_eq late_names_def)
  then have "filter (\<lambda>n. n \<in> late_names \<longrightarrow> n \<in> updated_name ` set tr) always_names = always_names"
    by (simp add: filter_id_conv)
  moreover have "MetricHTTPRequestsTotal \<in> late_names" "MetricHTTPRequestDurationSeconds \<in> late_names" by (simp_all add: late_names_def)
  ultimately show ?thesis by (simp add: own_page_eq own_described_eq)
qed

lemma gathered_described:
  assumes "runtime_law g p"
  shows "mset (gathered rt tr g p) = mset (filter (on_page rt tr (map fst (g @ p))) (described own_collectors @ map fst (g @ p)))"
proof -
  let ?run = "map fst (g @ p)"
  have "late_names \<subseteq> set (described own_collectors)" by (simp add: late_names_def own_collectors_def all_names)
  then have apart: "n \<notin> late_names" if "n \<in> set ?run" for n using runtime_apart [OF assms] that by blast
  have "filter (on_page rt tr ?run) ?run = filter rt ?run"
    using apart by (intro filter_cong refl) (simp add: on_page_def del: map_append)
  moreover have "filter (on_page rt tr ?run) (described own_collectors)
      = filter (\<lambda>n. n \<in> late_names \<longrightarrow> n \<in> updated_name ` set tr) (described own_collectors)"
    using runtime_apart [OF assms] by (intro filter_cong refl) (auto simp: on_page_def)
  ultimately show ?thesis unfolding gathered_split filter_append by (simp only: mset_append own_page_names)
qed

lemma MustRegister_append:
  "MustRegister pc (cs @ cs') r = (case MustRegister pc cs r of Panic m \<Rightarrow> Panic m | Ok r1 \<Rightarrow> MustRegister pc cs' r1)"
  by (induction cs arbitrary: r) (auto split: option.splits)

text \<open>The default registry sees one long registration.\<close>

lemma startup_as_one:
  assumes "MustRegister pc (default_collectors g p) (pc_NewRegistry pc) = Ok d'"
    and "MustRegister pc http_collectors (pc_NewRegistry pc) = Ok h"
  shows "\<exists>d. obs_init pc g p = Ok (d, h) \<and> main_registers pc d = Ok d'"
proof -
  let ?c = "[DescOnly (MetricHTTPRequestsTotal, [''method'', ''path'', ''status''])]"
  have "default_collectors g p = ?c @ service_collectors @ [Runtime g, Runtime p] @ [PoolCollector] @ [LastTickGauge]"
    by (simp add: default_collectors_def)
  from assms(1) [unfolded this MustRegister_append] assms(2) show ?thesis
    by (auto simp: obs_init_def main_registers_def split: res.splits simp del: MustRegister.simps)
qed

lemma default_split: "mset (described (default_collectors g p)) = mset (described own_collectors @ map fst (g @ p))"
  by (simp add: default_collectors_def own_collectors_def)

lemma default_described_ok:
  assumes "runtime_law g p"
  shows "distinct (described (default_collectors g p))" and "list_all valid_metric_name (described (default_collectors g p))"
proof -
  have dist: "distinct (described (default_collectors g p)) = distinct (described own_collectors @ map fst (g @ p))"
    and set: "set (described (default_collectors g p)) = set (described own_collectors @ map fst (g @ p))"
    using default_split [of g p] by (rule mset_eq_imp_distinct_iff, rule mset_eq_setD)
  have "distinct (map fst (g @ p))" using assms by (simp only: runtime_law_def)
  then show "distinct (described (default_collectors g p))"
    unfolding dist distinct_append using own_names_distinct runtime_apart [OF assms] by blast
  have "list_all valid_metric_name (described own_collectors @ map fst (g @ p))"
    using own_names_valid assms by (simp only: list_all_append runtime_law_def)
  then show "list_all valid_metric_name (described (default_collectors g p))"
    using set by (simp only: list_all_iff)
qed

text \<open>Both registrations of \<open>run\<close> in their order, on the registry that \<open>init\<close> leaves.\<close>

lemma startup_registry:
  assumes "registry_law pc names" and "runtime_law go_descs process_descs"
  shows "\<exists>d h d'. obs_init pc go_descs process_descs = Ok (d, h) \<and> main_registers pc d = Ok d'
    \<and> names d' = set (described (default_collectors go_descs process_descs)) \<and> names h = {MetricHTTPRequestsTotal}"
proof -
  note ok = default_described_ok [OF assms(2)]
  have new: "names (pc_NewRegistry pc) = {}" using assms(1) by (simp add: registry_law_def)
  obtain d' where d': "MustRegister pc (default_collectors go_descs process_descs) (pc_NewRegistry pc) = Ok d'"
      "names d' = set (described (default_collectors go_descs process_descs))"
    using MustRegister_fresh [OF assms(1) ok, of "pc_NewRegistry pc"] new by auto
  have http: "described http_collectors = [MetricHTTPRequestsTotal]"
    by (simp add: http_collectors_def desc_of_def HTTPRequestsTotal_def)
  then obtain h where h: "MustRegister pc http_collectors (pc_NewRegistry pc) = Ok h" "names h = {MetricHTTPRequestsTotal}"
    using MustRegister_fresh [OF assms(1), of http_collectors "pc_NewRegistry pc"] new own_names_valid by (auto simp: own_collectors_def)
  from startup_as_one [OF d'(1) h(1)] d'(2) h(2) show ?thesis by blast
qed

lemma run_registers:
  assumes "registry_law pc names" and "runtime_law go_descs process_descs" and "obs_init pc go_descs process_descs = Ok (d, h)"
  shows "\<exists>d1 d2. MustRegister pc [PoolCollector] d = Ok d1 \<and> MustRegister pc [LastTickGauge] d1 = Ok d2"
  using startup_registry [OF assms(1,2)] assms(3) by (auto simp: main_registers_def split: res.splits simp del: MustRegister.simps)


text \<open>The client over a set of names.\<close>

definition set_client :: "string set prom_client" where
  "set_client = \<lparr>pc_NewRegistry = {},
     pc_Register = (\<lambda>ds r. if distinct (map fst ds) \<and> fst ` set ds \<inter> r = {} then Some (r \<union> fst ` set ds) else None)\<rparr>"

lemma set_client_laws:
  "registry_law set_client (\<lambda>r. r)" "runtime_law [(''go_goroutines'', [])] [(''process_open_fds'', [])]"
  by (simp_all add: registry_law_def set_client_def runtime_law_def startsWith_def valid_metric_name_def name_start_def)


end
