(* ===== verification/Config.thy ===== *)
theory Config
  imports Worker Scheduler Collectors
begin

text \<open>
  Start-up: \<open>cmd/server/config.go\<close> (reading and checking the environment), the startup probe
  \<open>internal/startup/probe.go\<close>, and from \<open>cmd/server/main.go\<close> the wiring of the
  components. The environment is a function from names to values, empty when unset.
  Arithmetic on durations wraps at 64 bits, as in the source.
\<close>

section \<open>Configuration\<close>

record config =
  cf_HTTPAddr :: string
  cf_DBDSN :: string
  cf_ProviderAPIKey :: string
  cf_ProviderBaseURL :: string
  cf_WhitelistCurrencies :: "string list"
  cf_SchedulerTickInterval :: duration
  cf_CoalescingWindow :: duration
  cf_Env :: string
  cf_RefreshMaxLatency :: duration
  cf_WorkerCount :: int
  cf_PollInterval :: duration
  cf_BatchSize :: int
  cf_LogLevel :: string
  cf_DBPoolMaxConns :: int

type_synonym env = "string \<Rightarrow> string"

definition upstreamP99 :: duration where "upstreamP99 = 500 * millisecond"
definition dbP99 :: duration where "dbP99 = 100 * millisecond"
definition slaMargin :: duration where "slaMargin = 400 * millisecond"
definition minSLAFloor :: duration where "minSLAFloor = upstreamP99 + dbP99 + slaMargin"

definition defaultWhitelist :: "string list" where "defaultWhitelist = [''USD'', ''EUR'', ''MXN'']"

definition envOr :: "env \<Rightarrow> string \<Rightarrow> string \<Rightarrow> string" where
  "envOr getenv key def = (if getenv key \<noteq> [] then getenv key else def)"

definition env_int :: "env \<Rightarrow> string \<Rightarrow> int \<Rightarrow> error \<Rightarrow> error + int" where
  "env_int getenv key def err =
     (if getenv key \<noteq> [] then (case Atoi (getenv key) of None \<Rightarrow> Inl err | Some n \<Rightarrow> Inr n) else Inr def)"

definition log_level :: "env \<Rightarrow> error + string" where
  "log_level getenv =
     (let v = ToLower (getenv ''LOG_LEVEL'')
      in if v = [] \<or> v = ''info'' then Inr ''info''
         else if v = ''debug'' then Inr ''debug''
         else if v = ''warn'' then Inr ''warn''
         else if v = ''error'' then Inr ''error''
         else Inl (ErrorsNew ''LOG_LEVEL must be one of: debug, info, warn, error''))"

definition sla_error :: "int \<Rightarrow> error" where
  "sla_error ms = ErrorsNew (''REFRESH_MAX_LATENCY_MS='' @ show_int ms @ '' is below the minimum achievable SLA of ''
     @ show_int (go_quot minSLAFloor millisecond) @ ''ms (upstream_p99=500ms + db_p99=100ms + margin=400ms)'')"

definition batch_size :: "nat \<Rightarrow> int \<Rightarrow> int" where
  "batch_size currencies workers =
     (let pairs = int currencies * (int currencies - 1);
          b = go_quot (wrap64 (wrap64 (pairs + workers) - 1)) workers
      in if b < 1 then 1 else b)"

definition atoi_error :: "string \<Rightarrow> error" where
  "atoi_error v = ErrorsNew (''strconv.Atoi: parsing '' @ [CHR 0x22] @ v @ [CHR 0x22]
     @ (if v \<noteq> [] \<and> list_all is_digit v then '': value out of range'' else '': invalid syntax''))"

definition Load :: "env \<Rightarrow> error + config" where
  "Load getenv =
     (if getenv ''DB_DSN'' = [] then Inl (ErrorsNew ''DB_DSN environment variable is required'')
      else if getenv ''PROVIDER_API_KEY'' = [] then Inl (ErrorsNew ''PROVIDER_API_KEY environment variable is required'')
      else
        let whitelist = (if getenv ''WHITELIST_CURRENCIES'' \<noteq> [] then split_on (CHR '','') (getenv ''WHITELIST_CURRENCIES'')
                         else defaultWhitelist)
        in if length whitelist < 2 then Inl (ErrorsNew ''WHITELIST_CURRENCIES must contain at least 2 currencies'')
        else case env_int getenv ''SCHEDULER_TICK_SECONDS'' 30 (ErrorsNew ''SCHEDULER_TICK_SECONDS must be an integer'') of
          Inl e \<Rightarrow> Inl e
        | Inr tickSeconds \<Rightarrow>
        if tickSeconds \<le> 0 then Inl (ErrorsNew ''SCHEDULER_TICK_SECONDS must be > 0'')
        else case env_int getenv ''COALESCING_WINDOW_SECONDS'' 30 (ErrorsNew ''COALESCING_WINDOW_SECONDS must be an integer'') of
          Inl e \<Rightarrow> Inl e
        | Inr coalescingSeconds \<Rightarrow>
        if coalescingSeconds \<le> 0 then Inl (ErrorsNew ''COALESCING_WINDOW_SECONDS must be > 0'')
        else case env_int getenv ''REFRESH_MAX_LATENCY_MS'' 2000 (ErrorsNew ''REFRESH_MAX_LATENCY_MS must be an integer'') of
          Inl e \<Rightarrow> Inl e
        | Inr refreshMS \<Rightarrow>
        let refreshMaxLatency = wrap64 (refreshMS * millisecond)
        in if refreshMaxLatency < minSLAFloor then Inl (sla_error refreshMS)
        else case env_int getenv ''WORKER_COUNT'' 1 (ErrorsNew ''WORKER_COUNT must be an integer'') of
          Inl e \<Rightarrow> Inl e
        | Inr workerCount \<Rightarrow>
        if workerCount < 1 then Inl (ErrorsNew ''WORKER_COUNT must be >= 1'')
        else case log_level getenv of
          Inl e \<Rightarrow> Inl e
        | Inr logLevel \<Rightarrow>
        case env_int getenv ''DB_POOL_MAX_CONNS'' 25 (Wrapf ''DB_POOL_MAX_CONNS'' (atoi_error (getenv ''DB_POOL_MAX_CONNS''))) of
          Inl e \<Rightarrow> Inl e
        | Inr dbPoolMaxConns \<Rightarrow>
        if dbPoolMaxConns < 1 then Inl (ErrorsNew ''DB_POOL_MAX_CONNS must be >= 1'')
        else Inr \<lparr>cf_HTTPAddr = envOr getenv ''HTTP_ADDR'' '':8080'', cf_DBDSN = getenv ''DB_DSN'',
               cf_ProviderAPIKey = getenv ''PROVIDER_API_KEY'',
               cf_ProviderBaseURL = envOr getenv ''PROVIDER_BASE_URL'' ''https://api.currencylayer.com'',
               cf_WhitelistCurrencies = whitelist,
               cf_SchedulerTickInterval = wrap64 (tickSeconds * second),
               cf_CoalescingWindow = wrap64 (coalescingSeconds * second),
               cf_Env = envOr getenv ''APP_ENV'' ''development'',
               cf_RefreshMaxLatency = refreshMaxLatency, cf_WorkerCount = workerCount,
               cf_PollInterval = refreshMaxLatency - upstreamP99 - dbP99 - slaMargin,
               cf_BatchSize = batch_size (length whitelist) workerCount,
               cf_LogLevel = logLevel, cf_DBPoolMaxConns = dbPoolMaxConns\<rparr>)"

section \<open>The startup probe\<close>

definition probePair :: pair where "probePair = Pair ''USD'' ''EUR''"

definition Probe :: "('p, 'd) provider_ops \<Rightarrow> 'p \<Rightarrow> world \<Rightarrow> error option \<times> 'p \<times> world" where
  "Probe pops p w =
     (case FetchPairs pops [probePair] p w of
        (Inl err, p1, w1) \<Rightarrow> (Some (Wrapf ''startup probe: provider returned error'' err), p1, w1)
      | (Inr res, p1, w1) \<Rightarrow>
          if fr_Quotes res probePair \<noteq> None then (None, p1, w1)
          else (Some (ErrorsNew ''startup probe: provider did not return USD/EUR (silent drop)''), p1, w1))"

section \<open>Wiring\<close>

text \<open>What the packages outside the repository answer while the process starts: the embedded
  specification, the connection string, the pool (given its size) and the first ping.\<close>

record boot_env =
  bt_GetSpec :: "error option"
  bt_ParseConfig :: "error option"
  bt_NewPool :: "int \<Rightarrow> error option"
  bt_Ping :: "error option"

record wiring =
  wi_config :: config
  wi_worker :: worker
  wi_scheduler :: scheduler
  wi_workerThreshold :: duration
  wi_schedThreshold :: duration
  wi_validate :: bool

text \<open>The conversion \<open>int32(cfg.DBPoolMaxConns)\<close> keeps the low 32 bits.\<close>

definition wrap32 :: "int \<Rightarrow> int" where
  "wrap32 x = (x + 2 ^ 31) mod 2 ^ 32 - 2 ^ 31"

text \<open>\<open>run\<close> up to the point where the worker and the scheduler are built and the second registration is made; \<open>reg\<close> is the
  default registry that \<open>init\<close> left behind. A panic of \<open>worker.New\<close> or of \<open>MustRegister\<close> is a panic of \<open>run\<close>. The worker
  goroutine is started between the two last steps, the scheduler goroutine after the last; both recover their own panics, so
  a panicking first poll or bootstrap tick is an event of theory \<open>Lifecycle\<close>.\<close>

definition server_boot ::
    "env \<Rightarrow> boot_env \<Rightarrow> 'r prom_client \<Rightarrow> 'r \<Rightarrow> ('p, 'd) provider_ops \<Rightarrow> 'p \<Rightarrow> world \<Rightarrow> (error + wiring) res" where
  "server_boot getenv bt pc reg pops p w =
     (case Load getenv of
        Inl e \<Rightarrow> Ok (Inl e)
      | Inr cfg \<Rightarrow>
          (case (if cf_Env cfg \<noteq> ''production'' then bt_GetSpec bt else None) of
             Some e \<Rightarrow> Ok (Inl (Wrapf ''load embedded openapi spec'' e))
           | None \<Rightarrow>
          (case bt_ParseConfig bt of
             Some e \<Rightarrow> Ok (Inl (Wrapf ''pgxpool.ParseConfig'' e))
           | None \<Rightarrow>
          (case bt_NewPool bt (wrap32 (cf_DBPoolMaxConns cfg)) of
             Some e \<Rightarrow> Ok (Inl (Wrapf ''pgxpool.NewWithConfig'' e))
           | None \<Rightarrow>
          (case bt_Ping bt of
             Some e \<Rightarrow> Ok (Inl (Wrapf ''postgres ping'' e))
           | None \<Rightarrow>
          (case MustRegister pc [PoolCollector] reg of
             Panic m \<Rightarrow> Panic m
           | Ok reg1 \<Rightarrow>
          (case Probe pops p w of
             (Some e, _) \<Rightarrow> Ok (Inl (Wrapf ''startup probe'' e))
           | (None, _) \<Rightarrow>
          (case worker_New [WithPollInterval (cf_PollInterval cfg), WithBatchSize (cf_BatchSize cfg)] of
             Panic m \<Rightarrow> Panic m
           | Ok wk \<Rightarrow>
          (case MustRegister pc [LastTickGauge] reg1 of
             Panic m \<Rightarrow> Panic m
           | Ok reg2 \<Rightarrow>
               Ok (Inr \<lparr>wi_config = cfg, wi_worker = wk,
                 wi_scheduler = scheduler_New [WithInterval (cf_SchedulerTickInterval cfg),
                   WithBucketSize (cf_CoalescingWindow cfg), WithPairs (expandWhitelist (cf_WhitelistCurrencies cfg))],
                 wi_workerThreshold = wrap64 (6 * cf_PollInterval cfg),
                 wi_schedThreshold = wrap64 (6 * cf_SchedulerTickInterval cfg),
                 wi_validate = (cf_Env cfg \<noteq> ''production'')\<rparr>))))))))))"

section \<open>What a loaded configuration satisfies\<close>

lemmas sla_consts = upstreamP99_def dbP99_def slaMargin_def minSLAFloor_def

lemma env_int_Inr: "env_int getenv key def err = Inr n \<Longrightarrow> int64_ok n \<or> n = def"
  by (auto simp: env_int_def Atoi_def Let_def split: if_splits option.splits)

lemma Load_Inr:
  assumes "Load getenv = Inr cfg"
  obtains wl tick coal ms wc lv pool where "2 \<le> length wl" "0 < tick" "0 < coal" "1 \<le> wc" "1 \<le> pool"
    "int64_ok tick" "int64_ok coal" "int64_ok ms" "int64_ok wc"
    "wl = (if getenv ''WHITELIST_CURRENCIES'' \<noteq> [] then split_on (CHR '','') (getenv ''WHITELIST_CURRENCIES'') else defaultWhitelist)"
    "minSLAFloor \<le> wrap64 (ms * millisecond)" "log_level getenv = Inr lv"
    "cf_WhitelistCurrencies cfg = wl" "cf_SchedulerTickInterval cfg = wrap64 (tick * second)"
    "cf_CoalescingWindow cfg = wrap64 (coal * second)" "cf_RefreshMaxLatency cfg = wrap64 (ms * millisecond)"
    "cf_PollInterval cfg = wrap64 (ms * millisecond) - upstreamP99 - dbP99 - slaMargin"
    "cf_WorkerCount cfg = wc" "cf_BatchSize cfg = batch_size (length wl) wc" "cf_LogLevel cfg = lv" "cf_DBPoolMaxConns cfg = pool"
proof -
  define wl where "wl = (if getenv ''WHITELIST_CURRENCIES'' \<noteq> [] then split_on (CHR '','') (getenv ''WHITELIST_CURRENCIES'') else defaultWhitelist)"
  note L = assms [unfolded Load_def Let_def, folded wl_def]
  from L have d: "getenv ''DB_DSN'' \<noteq> []" "getenv ''PROVIDER_API_KEY'' \<noteq> []" "2 \<le> length wl" by (auto split: if_splits)
  note L1 = L [unfolded if_not_P [OF d(1)] if_not_P [OF d(2)]]
  from L1 d obtain tick where tick: "env_int getenv ''SCHEDULER_TICK_SECONDS'' 30 (ErrorsNew ''SCHEDULER_TICK_SECONDS must be an integer'') = Inr tick"
      "0 < tick" by (auto split: if_splits sum.splits)
  from L1 d tick obtain coal where coal: "env_int getenv ''COALESCING_WINDOW_SECONDS'' 30 (ErrorsNew ''COALESCING_WINDOW_SECONDS must be an integer'') = Inr coal"
      "0 < coal" by (auto split: if_splits sum.splits)
  from L1 d tick coal obtain ms where ms: "env_int getenv ''REFRESH_MAX_LATENCY_MS'' 2000 (ErrorsNew ''REFRESH_MAX_LATENCY_MS must be an integer'') = Inr ms"
      "minSLAFloor \<le> wrap64 (ms * millisecond)" by (auto split: if_splits sum.splits)
  from L1 d tick coal ms obtain wc where wc: "env_int getenv ''WORKER_COUNT'' 1 (ErrorsNew ''WORKER_COUNT must be an integer'') = Inr wc"
      "1 \<le> wc" by (auto split: if_splits sum.splits)
  from L1 d tick coal ms wc obtain lv where lv: "log_level getenv = Inr lv" by (auto split: if_splits sum.splits)
  from L1 d tick coal ms wc lv obtain pool where pool:
      "env_int getenv ''DB_POOL_MAX_CONNS'' 25 (Wrapf ''DB_POOL_MAX_CONNS'' (atoi_error (getenv ''DB_POOL_MAX_CONNS''))) = Inr pool"
      "1 \<le> pool" by (auto split: if_splits sum.splits)
  have ranges: "int64_ok tick" "int64_ok coal" "int64_ok ms" "int64_ok wc"
    using env_int_Inr [OF tick(1)] env_int_Inr [OF coal(1)] env_int_Inr [OF ms(1)] env_int_Inr [OF wc(1)] by (auto simp: int64_ok_def)
  show thesis
    by (rule that [OF d(3) tick(2) coal(2) wc(2) pool(2) ranges wl_def ms(2) lv])
      (use L1 d tick coal ms wc lv pool in auto)
qed

lemma log_level_values: "log_level getenv = Inr lv \<Longrightarrow> lv \<in> {''debug'', ''info'', ''warn'', ''error''}"
  by (auto simp: log_level_def Let_def split: if_splits)

text \<open>The batch size is the number of pairs divided by the workers, rounded up, unless the sum
  leaves the machine range.\<close>

lemma batch_size_ceil:
  assumes "1 \<le> wc" and "2 \<le> n" and "int n * (int n - 1) + wc < 2 ^ 63"
  shows "batch_size n wc = (int n * (int n - 1) + wc - 1) div wc"
proof -
  let ?p = "int n * (int n - 1)"
  have p: "2 \<le> ?p" using assms(2) mult_mono [of 2 "int n" 1 "int n - 1"] by simp
  then have w: "wrap64 (?p + wc) = ?p + wc" "wrap64 (?p + wc - 1) = ?p + wc - 1"
    using assms by (auto intro!: wrap64_id simp: int64_ok_def)
  have q: "go_quot (?p + wc - 1) wc = (?p + wc - 1) div wc" using p assms(1) by (intro go_quot_nonneg) auto
  have "1 \<le> (?p + wc - 1) div wc" using p assms(1) pos_imp_zdiv_pos_iff [of wc "?p + wc - 1"] by simp
  then show ?thesis by (simp add: batch_size_def w q)
qed

lemma batch_size_pos: "1 \<le> batch_size n wc"
  by (simp add: batch_size_def Let_def)

lemma worker_New_wired:
  "worker_New [WithPollInterval d, WithBatchSize n] =
     (if d \<le> 0 then Panic ''worker.New: WithPollInterval option is required''
      else if n \<le> 0 then Panic ''worker.New: WithBatchSize option is required''
      else Ok \<lparr>wk_pollInterval = d, wk_leaseTime = 60 * second, wk_maxAttempts = 5, wk_batchSize = n, wk_cleanInterval = 60 * second\<rparr>)"
  by (simp add: worker_New_def Let_def)

section \<open>Properties\<close>

lemma Load_budget:
  assumes "Load getenv = Inr cfg"
  shows "cf_PollInterval cfg = cf_RefreshMaxLatency cfg - upstreamP99 - dbP99 - slaMargin" and "minSLAFloor \<le> cf_RefreshMaxLatency cfg"
    and "1 \<le> cf_BatchSize cfg"
  using assms by (rule Load_Inr; use batch_size_pos in simp)+

text \<open>C35: What an accepted configuration guarantees. Whenever \<open>Load\<close> succeeds there are at least two currencies, at least one
  worker, one database connection and one job per batch; the log level is one of the four; the latency promise is at
  least the floor of one second; and the poll interval is exactly what is left of it after the upstream, database and
  safety budgets, hence never negative.\<close>

theorem Load_guarantees:
  assumes "Load getenv = Inr cfg"
  shows "2 \<le> length (cf_WhitelistCurrencies cfg) \<and> 1 \<le> cf_WorkerCount cfg \<and> 1 \<le> cf_DBPoolMaxConns cfg \<and> 1 \<le> cf_BatchSize cfg
    \<and> cf_LogLevel cfg \<in> {''debug'', ''info'', ''warn'', ''error''}
    \<and> second \<le> cf_RefreshMaxLatency cfg \<and> 0 \<le> cf_PollInterval cfg
    \<and> cf_PollInterval cfg + upstreamP99 + dbP99 + slaMargin = cf_RefreshMaxLatency cfg"
  using assms
proof (rule Load_Inr)
  fix wl tick coal ms wc lv pool
  assume a: "2 \<le> length wl" "1 \<le> wc" "1 \<le> pool" "minSLAFloor \<le> wrap64 (ms * millisecond)" "log_level getenv = Inr lv"
    "cf_WhitelistCurrencies cfg = wl" "cf_RefreshMaxLatency cfg = wrap64 (ms * millisecond)"
    "cf_PollInterval cfg = wrap64 (ms * millisecond) - upstreamP99 - dbP99 - slaMargin"
    "cf_WorkerCount cfg = wc" "cf_BatchSize cfg = batch_size (length wl) wc" "cf_LogLevel cfg = lv" "cf_DBPoolMaxConns cfg = pool"
  then show ?thesis using log_level_values [OF a(5)] batch_size_pos [of "length wl" wc] by (simp add: sla_consts)
qed

text \<open>A minimal environment, and one more variable in it.\<close>

definition sample_getenv :: "string \<Rightarrow> string \<Rightarrow> env" where
  "sample_getenv key val = (\<lambda>k. if k = key then val else if k = ''DB_DSN'' then ''postgres://db'' else if k = ''PROVIDER_API_KEY'' then ''secret'' else [])"

theorem Load_guarantees_witness:
  "\<exists>cfg. Load (sample_getenv ''WORKER_COUNT'' ''4'') = Inr cfg \<and> 1 \<le> cf_BatchSize cfg \<and> 0 \<le> cf_PollInterval cfg"
proof -
  have "\<not> isl (Load (sample_getenv ''WORKER_COUNT'' ''4''))" by code_simp
  then obtain cfg where c: "Load (sample_getenv ''WORKER_COUNT'' ''4'') = Inr cfg" by (cases "Load (sample_getenv ''WORKER_COUNT'' ''4'')") auto
  from Load_guarantees [OF c] c show ?thesis by blast
qed

text \<open>The batch size covers the pairs. While the sum stays in the machine range, the workers' batches together hold every
  ordered pair of the whitelist, and one job less per batch would not.\<close>

lemma batch_size_covers:
  assumes "1 \<le> wc" and "2 \<le> n" and "int n * (int n - 1) + wc < 2 ^ 63"
  shows "int n * (int n - 1) \<le> batch_size n wc * wc \<and> (batch_size n wc - 1) * wc < int n * (int n - 1)"
proof -
  let ?p = "int n * (int n - 1)"
  have b: "batch_size n wc = (?p + wc - 1) div wc" by (rule batch_size_ceil [OF assms])
  define d r where "d = (?p + wc - 1) div wc" and "r = (?p + wc - 1) mod wc"
  have "d * wc + r = ?p + wc - 1" by (simp add: d_def r_def)
  moreover have "0 \<le> r" "r < wc" using assms(1) by (simp_all add: r_def)
  ultimately show ?thesis unfolding b d_def [symmetric] by (simp add: left_diff_distrib)
qed

text \<open>Start-up either reports an error or yields a server that can run. If it yields one, the configuration was accepted,
  the startup probe saw a USD/EUR quote, the worker has a positive poll interval and batch size, and the scheduler
  produces exactly the ordered pairs of distinct whitelisted currencies.\<close>

lemma boot_wires_components:
  assumes "server_boot getenv bt pc reg pops p w = Ok (Inr wi)"
  shows "Load getenv = Inr (wi_config wi) \<and> fst (Probe pops p w) = None
    \<and> 0 < wk_pollInterval (wi_worker wi) \<and> 1 \<le> wk_batchSize (wi_worker wi) \<and> 0 < wk_cleanInterval (wi_worker wi)
    \<and> set (sch_pairs (wi_scheduler wi)) = {Pair b q | b q. b \<in> set (cf_WhitelistCurrencies (wi_config wi))
         \<and> q \<in> set (cf_WhitelistCurrencies (wi_config wi)) \<and> b \<noteq> q}"
proof -
  obtain cfg where cfg: "Load getenv = Inr cfg" using assms by (auto simp: server_boot_def split: sum.splits)
  obtain e p1 w1 where pr: "Probe pops p w = (e, p1, w1)" by (metis prod_cases3)
  have e: "e = None" "wi_config wi = cfg" and wk: "worker_New [WithPollInterval (cf_PollInterval cfg), WithBatchSize (cf_BatchSize cfg)] = Ok (wi_worker wi)"
    and sch: "wi_scheduler wi = scheduler_New [WithInterval (cf_SchedulerTickInterval cfg),
                   WithBucketSize (cf_CoalescingWindow cfg), WithPairs (expandWhitelist (cf_WhitelistCurrencies cfg))]"
    using assms cfg pr by (auto simp: server_boot_def simp del: MustRegister.simps split: option.splits res.splits)
  from wk have "0 < wk_pollInterval (wi_worker wi) \<and> 1 \<le> wk_batchSize (wi_worker wi) \<and> 0 < wk_cleanInterval (wi_worker wi)"
    unfolding worker_New_wired by (cases "wi_worker wi") (auto split: if_splits)
  then show ?thesis using cfg pr e by (simp add: sch scheduler_New_def set_expandWhitelist)
qed

text \<open>The registry of a start-up, and a provider that passes the probe.\<close>

definition boot_provider :: "int fake_provider" where
  "boot_provider = \<lparr>fk_Quotes = [Pair ''USD'' ''EUR'' \<mapsto> \<lparr>quo_Pair = Pair ''USD'' ''EUR'', quo_Price = 1, quo_FetchedAt = 0\<rparr>],
     fk_BatchError = None, fk_Calls = 0, fk_LastPairs = []\<rparr>"

definition quiet_boot :: boot_env where
  "quiet_boot = \<lparr>bt_GetSpec = None, bt_ParseConfig = None, bt_NewPool = (\<lambda>n. if n < 1 then Some (ErrorsNew ''MaxSize must be >= 1'') else None),
     bt_Ping = None\<rparr>"

lemma quiet_boot_sel: "bt_GetSpec quiet_boot = None" "bt_ParseConfig quiet_boot = None" "bt_Ping quiet_boot = None"
  by (simp_all add: quiet_boot_def)

lemma boot_provider_probe: "fst (Probe fake_ops boot_provider sample_world) = None"
  by (simp add: Probe_def probePair_def op_defs fake_FetchPairs_def boot_provider_def)

lemma set_client_init: "\<exists>reg h. obs_init set_client [(''go_goroutines'', [])] [(''process_open_fds'', [])] = Ok (reg, h)"
  using startup_registry [OF set_client_laws] by blast

lemma boot_wires_components_witness:
  "\<exists>reg wi. server_boot (sample_getenv ''WORKER_COUNT'' ''4'') quiet_boot set_client reg fake_ops boot_provider sample_world = Ok (Inr wi)
     \<and> 0 < wk_pollInterval (wi_worker wi)"
proof -
  obtain reg h where reg: "obs_init set_client [(''go_goroutines'', [])] [(''process_open_fds'', [])] = Ok (reg, h)" using set_client_init by blast
  obtain reg1 reg2 where mr: "MustRegister set_client [PoolCollector] reg = Ok reg1" "MustRegister set_client [LastTickGauge] reg1 = Ok reg2"
    using run_registers [OF set_client_laws reg] by blast
  have "case Load (sample_getenv ''WORKER_COUNT'' ''4'') of Inl e \<Rightarrow> False | Inr cfg \<Rightarrow> 0 < cf_PollInterval cfg \<and> cf_DBPoolMaxConns cfg = 25"
    by code_simp
  then obtain cfg where c: "Load (sample_getenv ''WORKER_COUNT'' ''4'') = Inr cfg" "0 < cf_PollInterval cfg" "cf_DBPoolMaxConns cfg = 25"
    by (auto split: sum.split_asm)
  have "\<not> cf_PollInterval cfg \<le> 0" "\<not> cf_BatchSize cfg \<le> 0" using c(2) Load_budget(3) [OF c(1)] by simp_all
  then obtain wk where wk: "worker_New [WithPollInterval (cf_PollInterval cfg), WithBatchSize (cf_BatchSize cfg)] = Ok wk"
    by (simp add: worker_New_wired)
  obtain x where pr: "Probe fake_ops boot_provider sample_world = (None, x)" using boot_provider_probe by (metis prod.collapse)
  have np: "bt_NewPool quiet_boot (wrap32 (cf_DBPoolMaxConns cfg)) = None" by (simp add: c(3) wrap32_def quiet_boot_def)
  have "\<exists>wi. server_boot (sample_getenv ''WORKER_COUNT'' ''4'') quiet_boot set_client reg fake_ops boot_provider sample_world = Ok (Inr wi)"
    unfolding server_boot_def c(1) sum.case quiet_boot_sel if_cancel option.case np mr res.case pr prod.case wk by blast
  then obtain wi where wi: "server_boot (sample_getenv ''WORKER_COUNT'' ''4'') quiet_boot set_client reg fake_ops boot_provider sample_world = Ok (Inr wi)" ..
  from boot_wires_components [OF wi] wi show ?thesis by blast
qed

text \<open>C34: The smallest latency promise the configuration accepts makes the server crash at start-up. Take the registry that \<open>init\<close>
  leaves, with a Prometheus client that keeps its documented promise. Then \<open>run\<close>, from reading the configuration to the
  second \<open>MustRegister\<close>, panics exactly when the configuration is accepted, its latency promise equals the floor and
  everything outside answers well: \<open>worker.New\<close> refuses a poll interval of zero. Neither registration panics, on any path.
  (What the worker or the scheduler goroutine panics with later, its own deferred recover turns into a shutdown.)\<close>

theorem boot_panics_iff_floor:
  assumes "registry_law pc names" and "runtime_law go_descs process_descs" and "obs_init pc go_descs process_descs = Ok (reg, h)"
  shows "(\<exists>m. server_boot getenv bt pc reg pops p w = Panic m) \<longleftrightarrow>
     (\<exists>cfg. Load getenv = Inr cfg \<and> cf_RefreshMaxLatency cfg = minSLAFloor \<and> (cf_Env cfg = ''production'' \<or> bt_GetSpec bt = None)
        \<and> bt_ParseConfig bt = None \<and> bt_NewPool bt (wrap32 (cf_DBPoolMaxConns cfg)) = None \<and> bt_Ping bt = None
        \<and> fst (Probe pops p w) = None)"
proof (cases "Load getenv")
  case (Inl e)
  then show ?thesis by (simp add: server_boot_def)
next
  case (Inr cfg)
  have poll: "cf_PollInterval cfg \<le> 0 \<longleftrightarrow> cf_RefreshMaxLatency cfg = minSLAFloor" and b: "\<not> cf_BatchSize cfg \<le> 0"
    using Load_budget [OF Inr] by (auto simp: sla_consts)
  obtain e p1 w1 where pr: "Probe pops p w = (e, p1, w1)" by (metis prod_cases3)
  obtain reg1 reg2 where "MustRegister pc [PoolCollector] reg = Ok reg1" "MustRegister pc [LastTickGauge] reg1 = Ok reg2"
    using run_registers [OF assms] by blast
  then show ?thesis
    using Inr pr poll b by (auto simp: server_boot_def worker_New_wired simp del: MustRegister.simps split: option.splits)
qed

theorem boot_panics_iff_floor_witness:
  "\<exists>reg h m. obs_init set_client [(''go_goroutines'', [])] [(''process_open_fds'', [])] = Ok (reg, h)
     \<and> server_boot (sample_getenv ''REFRESH_MAX_LATENCY_MS'' ''1000'') quiet_boot set_client reg fake_ops boot_provider sample_world = Panic m"
proof -
  obtain reg h where reg: "obs_init set_client [(''go_goroutines'', [])] [(''process_open_fds'', [])] = Ok (reg, h)" using set_client_init by blast
  have "case Load (sample_getenv ''REFRESH_MAX_LATENCY_MS'' ''1000'') of Inl e \<Rightarrow> False
      | Inr cfg \<Rightarrow> cf_RefreshMaxLatency cfg = minSLAFloor \<and> cf_DBPoolMaxConns cfg = 25" by code_simp
  then obtain cfg where c: "Load (sample_getenv ''REFRESH_MAX_LATENCY_MS'' ''1000'') = Inr cfg" "cf_RefreshMaxLatency cfg = minSLAFloor"
      "cf_DBPoolMaxConns cfg = 25" by (auto split: sum.split_asm)
  have "bt_NewPool quiet_boot (wrap32 (cf_DBPoolMaxConns cfg)) = None" by (simp add: c(3) wrap32_def quiet_boot_def)
  with boot_panics_iff_floor [OF set_client_laws reg, of "sample_getenv ''REFRESH_MAX_LATENCY_MS'' ''1000''" quiet_boot fake_ops boot_provider sample_world]
    c(1,2) boot_provider_probe reg show ?thesis by (auto simp: quiet_boot_def)
qed

text \<open>The size of the pool is truncated. \<open>Load\<close> accepts \<open>DB_POOL_MAX_CONNS = 4294967296\<close>, and the pool is asked for zero connections.\<close>

lemma Load_pool_truncated:
  "\<exists>cfg. Load (sample_getenv ''DB_POOL_MAX_CONNS'' ''4294967296'') = Inr cfg \<and> wrap32 (cf_DBPoolMaxConns cfg) = 0"
proof -
  have "Atoi ''4294967296'' = Some 4294967296"
    by (simp add: Atoi_def digits_val_def digit_val_def is_digit_def int64_ok_def)
  then obtain cfg where "Load (sample_getenv ''DB_POOL_MAX_CONNS'' ''4294967296'') = Inr cfg" "cf_DBPoolMaxConns cfg = 4294967296"
    by (simp add: Load_def env_int_def sample_getenv_def log_level_def ToLower_def defaultWhitelist_def wrap64_def sla_consts)
  then show ?thesis by (simp add: wrap32_def)
qed

text \<open>Large windows overflow silently. The configuration accepts \<open>COALESCING_WINDOW_SECONDS = 18446744074\<close>, whose nanoseconds wrap
  around to less than a second, and with it every refresh and every scheduler tick panics in \<open>DedupKey\<close>.\<close>

lemma Load_window_overflow:
  "\<exists>cfg. Load (sample_getenv ''COALESCING_WINDOW_SECONDS'' ''18446744074'') = Inr cfg
     \<and> (\<forall>b q t. DedupKey b q t (cf_CoalescingWindow cfg) = Panic ''runtime error: integer divide by zero'')"
proof -
  let ?L = "Load (sample_getenv ''COALESCING_WINDOW_SECONDS'' ''18446744074'')"
  have "Atoi ''18446744074'' = Some 18446744074"
    by (simp add: Atoi_def digits_val_def digit_val_def is_digit_def int64_ok_def)
  then obtain cfg where "?L = Inr cfg" "cf_CoalescingWindow cfg = wrap64 (18446744074 * second)"
    by (simp add: Load_def env_int_def sample_getenv_def log_level_def ToLower_def defaultWhitelist_def wrap64_def sla_consts)
  moreover have "0 \<le> wrap64 (18446744074 * second)" "wrap64 (18446744074 * second) < second" by (simp_all add: wrap64_def)
  ultimately have "?L = Inr cfg" "0 \<le> cf_CoalescingWindow cfg" "cf_CoalescingWindow cfg < second" by simp_all
  then show ?thesis by (auto simp: DedupKey_def bucket_secs_zero)
qed

end
