(* ===== verification/Lifecycle.thy ===== *)
theory Lifecycle
  imports Config
begin

text \<open>
  The running process, \<open>cmd/server/main.go\<close> from the start of the goroutines on: the main goroutine with its \<open>select\<close>,
  \<open>gracefulShutdown\<close> and the deferred \<open>pool.Close\<close>, the goroutines of the HTTP server, of its requests, of the scheduler and
  of the worker, and the signals. The state is a record, a step is an event that may be impossible in a state (\<open>None\<close>), and a
  run is any sequence of events: every interleaving of the goroutines. How long a stage of \<open>gracefulShutdown\<close> takes is left to
  the environment, which may always let its timeout fire; \<open>pool.Close\<close> has no timeout and waits for every connection that is
  out of the pool. The size of the pool is not modelled: while it is open, an acquire may succeed.
\<close>

section \<open>State\<close>

text \<open>A background goroutine: in \<open>Run\<close>, past it with the deferred calls to come, or with its channel closed.\<close>

datatype goroutine = InRun | Unwinding | Closed

datatype cause = Signalled | ServerStopped "error option"

datatype main_at =
    AtSelect
  | InHTTPShutdown cause
  | AwaitScheduler cause
  | AwaitWorker cause
  | ClosingPool "error option"
  | Returned "error option"

text \<open>\<open>ps_sigReset\<close>: a goroutine called \<open>stop\<close>, so a signal has its default action again. \<open>ps_handlers\<close> and \<open>ps_querying\<close> count
  the requests being served without and with a connection of the pool.\<close>

record process =
  ps_rootDone :: bool
  ps_sigReset :: bool
  ps_killed :: bool
  ps_serverErr :: "error option option"
  ps_listening :: bool
  ps_httpClosed :: bool
  ps_serving :: bool
  ps_handlers :: nat
  ps_querying :: nat
  ps_schedCancelled :: bool
  ps_workerCancelled :: bool
  ps_sched :: goroutine
  ps_schedConn :: bool
  ps_worker :: goroutine
  ps_workerConn :: bool
  ps_schedTimeout :: bool
  ps_workerTimeout :: bool
  ps_main :: main_at
  ps_poolClosing :: bool

definition started :: process where
  "started = \<lparr>ps_rootDone = False, ps_sigReset = False, ps_killed = False, ps_serverErr = None, ps_listening = True,
     ps_httpClosed = False, ps_serving = True, ps_handlers = 0, ps_querying = 0, ps_schedCancelled = False,
     ps_workerCancelled = False, ps_sched = InRun, ps_schedConn = False, ps_worker = InRun, ps_workerConn = False,
     ps_schedTimeout = False, ps_workerTimeout = False, ps_main = AtSelect, ps_poolClosing = False\<rparr>"

text \<open>The connections that are out of the pool.\<close>

definition held :: "process \<Rightarrow> nat" where
  "held p = ps_querying p + of_bool (ps_schedConn p) + of_bool (ps_workerConn p)"

section \<open>Steps\<close>

datatype lc_event =
    Signal
  | ListenFails error
  | ListenClosed
  | RequestArrives
  | RequestAcquires
  | RequestReleases
  | RequestEnds
  | WorkerAcquires
  | WorkerReleases
  | WorkerCanceled
  | WorkerCrashes
  | WorkerCloses
  | SchedAcquires
  | SchedReleases
  | SchedCanceled
  | SchedCrashes
  | SchedCloses
  | MainSignalled
  | MainServerErr
  | HTTPShutdownReturns "error option"
  | SchedDrained
  | SchedStopTimeout
  | WorkerDrained
  | WorkerStopTimeout
  | PoolCloseReturns

text \<open>What \<open>run\<close> returns; \<open>%w\<close> of a nil error prints as such.\<close>

definition run_result :: "cause \<Rightarrow> error option" where
  "run_result c = (case c of
      Signalled \<Rightarrow> None
    | ServerStopped (Some e) \<Rightarrow> Some (Wrapf ''http server'' e)
    | ServerStopped None \<Rightarrow> Some (ErrorsNew ''http server: %!w(<nil>)''))"

definition exit_code :: "error option \<Rightarrow> int" where
  "exit_code r = (if r = None then 0 else 1)"

definition guard :: "bool \<Rightarrow> 'a \<Rightarrow> 'a option" where
  "guard b x = (if b then Some x else None)"

text \<open>The signals and the server goroutine. A signal cancels the root context, unless a crash has called \<open>stop\<close>, which undoes
  \<open>signal.NotifyContext\<close>: then it kills the process.\<close>

fun server_step :: "lc_event \<Rightarrow> process \<Rightarrow> process option" where
  "server_step Signal p = Some (if ps_sigReset p then p\<lparr>ps_killed := True\<rparr> else p\<lparr>ps_rootDone := True\<rparr>)"
| "server_step (ListenFails e) p =
     guard (ps_listening p) (p\<lparr>ps_listening := False, ps_serverErr := Some (Some e)\<rparr>)"
| "server_step ListenClosed p =
     guard (ps_listening p \<and> ps_httpClosed p) (p\<lparr>ps_listening := False, ps_serverErr := Some None\<rparr>)"
| "server_step _ p = None"

text \<open>The goroutines of the requests, each with at most one connection at a time; a closing pool refuses to hand one out.\<close>

fun request_step :: "lc_event \<Rightarrow> process \<Rightarrow> process option" where
  "request_step RequestArrives p = guard (ps_serving p) (p\<lparr>ps_handlers := Suc (ps_handlers p)\<rparr>)"
| "request_step RequestAcquires p =
     guard (0 < ps_handlers p \<and> \<not> ps_poolClosing p) (p\<lparr>ps_handlers := ps_handlers p - 1, ps_querying := Suc (ps_querying p)\<rparr>)"
| "request_step RequestReleases p =
     guard (0 < ps_querying p) (p\<lparr>ps_handlers := Suc (ps_handlers p), ps_querying := ps_querying p - 1\<rparr>)"
| "request_step RequestEnds p = guard (0 < ps_handlers p) (p\<lparr>ps_handlers := ps_handlers p - 1\<rparr>)"
| "request_step _ p = None"

text \<open>The worker goroutine and the scheduler goroutine. A crash, a panic in \<open>Run\<close> or an error it returns, ends with \<open>stop\<close>.\<close>

fun background_step :: "lc_event \<Rightarrow> process \<Rightarrow> process option" where
  "background_step WorkerAcquires p =
     guard (ps_worker p = InRun \<and> \<not> ps_workerConn p \<and> \<not> ps_poolClosing p) (p\<lparr>ps_workerConn := True\<rparr>)"
| "background_step WorkerReleases p = guard (ps_workerConn p) (p\<lparr>ps_workerConn := False\<rparr>)"
| "background_step WorkerCanceled p =
     guard (ps_worker p = InRun \<and> \<not> ps_workerConn p \<and> ps_workerCancelled p) (p\<lparr>ps_worker := Unwinding\<rparr>)"
| "background_step WorkerCrashes p =
     guard (ps_worker p = InRun \<and> \<not> ps_workerConn p) (p\<lparr>ps_worker := Unwinding, ps_rootDone := True, ps_sigReset := True\<rparr>)"
| "background_step WorkerCloses p = guard (ps_worker p = Unwinding) (p\<lparr>ps_worker := Closed\<rparr>)"
| "background_step SchedAcquires p =
     guard (ps_sched p = InRun \<and> \<not> ps_schedConn p \<and> \<not> ps_poolClosing p) (p\<lparr>ps_schedConn := True\<rparr>)"
| "background_step SchedReleases p = guard (ps_schedConn p) (p\<lparr>ps_schedConn := False\<rparr>)"
| "background_step SchedCanceled p =
     guard (ps_sched p = InRun \<and> \<not> ps_schedConn p \<and> ps_schedCancelled p) (p\<lparr>ps_sched := Unwinding\<rparr>)"
| "background_step SchedCrashes p =
     guard (ps_sched p = InRun \<and> \<not> ps_schedConn p) (p\<lparr>ps_sched := Unwinding, ps_rootDone := True, ps_sigReset := True\<rparr>)"
| "background_step SchedCloses p = guard (ps_sched p = Unwinding) (p\<lparr>ps_sched := Closed\<rparr>)"
| "background_step _ p = None"

text \<open>The main goroutine: the \<open>select\<close> of \<open>run\<close>, the three stages of \<open>gracefulShutdown\<close>, then the return with its deferred
  \<open>pool.Close\<close>. \<open>Shutdown\<close> of the HTTP server returns nil only when no request is being served, and then none comes any more.\<close>

fun main_step :: "lc_event \<Rightarrow> process \<Rightarrow> process option" where
  "main_step MainSignalled p =
     guard (ps_main p = AtSelect \<and> ps_rootDone p) (p\<lparr>ps_main := InHTTPShutdown Signalled, ps_httpClosed := True\<rparr>)"
| "main_step MainServerErr p =
     (case (ps_main p, ps_serverErr p) of
        (AtSelect, Some v) \<Rightarrow> Some (p\<lparr>ps_main := InHTTPShutdown (ServerStopped v), ps_serverErr := None, ps_httpClosed := True\<rparr>)
      | _ \<Rightarrow> None)"
| "main_step (HTTPShutdownReturns err) p =
     (case ps_main p of
        InHTTPShutdown c \<Rightarrow>
          guard (err = None \<longrightarrow> ps_handlers p = 0 \<and> ps_querying p = 0)
            (p\<lparr>ps_main := AwaitScheduler c, ps_schedCancelled := True, ps_serving := (ps_serving p \<and> err \<noteq> None)\<rparr>)
      | _ \<Rightarrow> None)"
| "main_step SchedDrained p =
     (case ps_main p of
        AwaitScheduler c \<Rightarrow> guard (ps_sched p = Closed) (p\<lparr>ps_main := AwaitWorker c, ps_workerCancelled := True\<rparr>)
      | _ \<Rightarrow> None)"
| "main_step SchedStopTimeout p =
     (case ps_main p of
        AwaitScheduler c \<Rightarrow> Some (p\<lparr>ps_main := AwaitWorker c, ps_workerCancelled := True, ps_schedTimeout := True\<rparr>)
      | _ \<Rightarrow> None)"
| "main_step WorkerDrained p =
     (case ps_main p of
        AwaitWorker c \<Rightarrow> guard (ps_worker p = Closed) (p\<lparr>ps_main := ClosingPool (run_result c), ps_poolClosing := True\<rparr>)
      | _ \<Rightarrow> None)"
| "main_step WorkerStopTimeout p =
     (case ps_main p of
        AwaitWorker c \<Rightarrow> Some (p\<lparr>ps_main := ClosingPool (run_result c), ps_workerTimeout := True, ps_poolClosing := True\<rparr>)
      | _ \<Rightarrow> None)"
| "main_step PoolCloseReturns p =
     (case ps_main p of
        ClosingPool r \<Rightarrow> guard (held p = 0) (p\<lparr>ps_main := Returned r\<rparr>)
      | _ \<Rightarrow> None)"
| "main_step _ p = None"

text \<open>Nothing happens after \<open>run\<close> returned, since the process exits, nor after it was killed.\<close>

definition ended :: "process \<Rightarrow> bool" where
  "ended p \<longleftrightarrow> ps_killed p \<or> (case ps_main p of Returned r \<Rightarrow> True | _ \<Rightarrow> False)"

definition other_step :: "lc_event \<Rightarrow> process \<Rightarrow> process option" where
  "other_step e p =
     (case server_step e p of
        Some q \<Rightarrow> Some q
      | None \<Rightarrow> (case request_step e p of Some q \<Rightarrow> Some q | None \<Rightarrow> background_step e p))"

definition lc_step :: "lc_event \<Rightarrow> process \<Rightarrow> process option" where
  "lc_step e p =
     (if ended p then None
      else case main_step e p of Some q \<Rightarrow> Some q | None \<Rightarrow> other_step e p)"

inductive reachable :: "process \<Rightarrow> lc_event list \<Rightarrow> process \<Rightarrow> bool" for p0 where
  start: "reachable p0 [] p0"
| step: "reachable p0 es p \<Longrightarrow> lc_step e p = Some q \<Longrightarrow> reachable p0 (es @ [e]) q"

inductive_cases reachable_snocE: "reachable p0 (es @ [e]) q"

section \<open>The order of the stages\<close>

definition stage :: "main_at \<Rightarrow> nat" where
  "stage m = (case m of AtSelect \<Rightarrow> 5 | InHTTPShutdown c \<Rightarrow> 4 | AwaitScheduler c \<Rightarrow> 3 | AwaitWorker c \<Rightarrow> 2
     | ClosingPool r \<Rightarrow> 1 | Returned r \<Rightarrow> 0)"

definition lc_invar :: "process \<Rightarrow> bool" where
  "lc_invar p \<longleftrightarrow>
     (ps_httpClosed p \<longleftrightarrow> stage (ps_main p) \<le> 4) \<and> (ps_schedCancelled p \<longleftrightarrow> stage (ps_main p) \<le> 3)
     \<and> (ps_workerCancelled p \<longleftrightarrow> stage (ps_main p) \<le> 2) \<and> (ps_poolClosing p \<longleftrightarrow> stage (ps_main p) \<le> 1)
     \<and> (ps_workerCancelled p \<longrightarrow> ps_sched p = Closed \<or> ps_schedTimeout p)
     \<and> (ps_poolClosing p \<longrightarrow> ps_worker p = Closed \<or> ps_workerTimeout p)
     \<and> (ps_main p = AtSelect \<longrightarrow> ps_serverErr p \<noteq> Some None)
     \<and> (stage (ps_main p) = 0 \<longrightarrow> held p = 0)"

lemma lc_invarD:
  assumes "lc_invar p"
  shows "ps_httpClosed p = (stage (ps_main p) \<le> 4)" and "ps_schedCancelled p = (stage (ps_main p) \<le> 3)"
    and "ps_workerCancelled p = (stage (ps_main p) \<le> 2)" and "ps_poolClosing p = (stage (ps_main p) \<le> 1)"
    and "ps_workerCancelled p \<longrightarrow> ps_sched p = Closed \<or> ps_schedTimeout p" and "ps_poolClosing p \<longrightarrow> ps_worker p = Closed \<or> ps_workerTimeout p"
    and "ps_main p = AtSelect \<longrightarrow> ps_serverErr p \<noteq> Some None" and "stage (ps_main p) = 0 \<longrightarrow> held p = 0"
  using assms unfolding lc_invar_def by simp_all

lemma started_invar: "lc_invar started"
  by (simp add: lc_invar_def started_def stage_def held_def)

text \<open>The steps of the main goroutine, and what the others leave alone.\<close>

lemma main_step_cases:
  assumes "main_step e p = Some q"
  obtains (signal) "e = MainSignalled" "ps_main p = AtSelect" "q = p\<lparr>ps_main := InHTTPShutdown Signalled, ps_httpClosed := True\<rparr>"
  | (server) v where "e = MainServerErr" "ps_main p = AtSelect" "ps_serverErr p = Some v"
      "q = p\<lparr>ps_main := InHTTPShutdown (ServerStopped v), ps_serverErr := None, ps_httpClosed := True\<rparr>"
  | (http) err c b where "e = HTTPShutdownReturns err" "ps_main p = InHTTPShutdown c"
      "q = p\<lparr>ps_main := AwaitScheduler c, ps_schedCancelled := True, ps_serving := b\<rparr>"
  | (sched) c t where "e \<noteq> MainServerErr" "ps_main p = AwaitScheduler c"
      "q = p\<lparr>ps_main := AwaitWorker c, ps_workerCancelled := True, ps_schedTimeout := t\<rparr>"
      "t \<longrightarrow> ps_schedTimeout p \<or> e = SchedStopTimeout" "ps_sched p = Closed \<or> t"
  | (worker) c t where "e \<noteq> MainServerErr" "ps_main p = AwaitWorker c"
      "q = p\<lparr>ps_main := ClosingPool (run_result c), ps_workerTimeout := t, ps_poolClosing := True\<rparr>"
      "t \<longrightarrow> ps_workerTimeout p \<or> e = WorkerStopTimeout" "ps_worker p = Closed \<or> t"
  | (pool) r where "e = PoolCloseReturns" "ps_main p = ClosingPool r" "q = p\<lparr>ps_main := Returned r\<rparr>" "held p = 0"
proof (cases e)
  case MainSignalled
  with assms show thesis by (intro signal) (auto simp: guard_def split: if_splits)
next
  case MainServerErr
  with assms show thesis by (auto intro: server split: main_at.splits option.splits)
next
  case (HTTPShutdownReturns err)
  with assms show thesis by (auto intro: http simp: guard_def split: main_at.splits if_splits)
next
  case SchedDrained
  with assms show thesis by (auto intro!: sched [of _ "ps_schedTimeout p"] simp: guard_def split: main_at.splits if_splits)
next
  case SchedStopTimeout
  with assms show thesis by (auto intro!: sched [of _ True] split: main_at.splits)
next
  case WorkerDrained
  with assms show thesis by (auto intro!: worker [of _ "ps_workerTimeout p"] simp: guard_def split: main_at.splits if_splits)
next
  case WorkerStopTimeout
  with assms show thesis by (auto intro!: worker [of _ True] split: main_at.splits)
next
  case PoolCloseReturns
  with assms show thesis by (auto intro: pool simp: guard_def split: main_at.splits if_splits)
qed (insert assms, hypsubst, simp only: main_step.simps option.distinct)+

lemma other_stepE:
  assumes "other_step e p = Some q"
  obtains "server_step e p = Some q" | "request_step e p = Some q" | "background_step e p = Some q"
  using assms by (auto simp: other_step_def split: option.splits)

text \<open>The fields the main goroutine alone writes, and the ones that count as reports of the listener.\<close>

definition main_fields :: "process \<Rightarrow> main_at \<times> bool \<times> bool \<times> bool \<times> bool \<times> bool \<times> bool" where
  "main_fields p = (ps_main p, ps_httpClosed p, ps_schedCancelled p, ps_workerCancelled p, ps_poolClosing p, ps_schedTimeout p, ps_workerTimeout p)"

definition reported :: "lc_event \<Rightarrow> process \<Rightarrow> process \<Rightarrow> bool" where
  "reported e p q \<longleftrightarrow> ps_serverErr q = ps_serverErr p \<or> (ps_serverErr q = Some None \<and> ps_httpClosed p)
     \<or> (\<exists>x. e = ListenFails x \<and> ps_serverErr q = Some (Some x))"

lemma reported_cases:
  assumes "reported e p q"
  obtains "ps_serverErr q = ps_serverErr p" | "ps_serverErr q = Some None" "ps_httpClosed p" | x where "e = ListenFails x" "ps_serverErr q = Some (Some x)"
  using assms by (auto simp: reported_def)

lemma other_frame:
  assumes "other_step e p = Some q"
  shows "main_fields q = main_fields p" and "reported e p q" and "e \<noteq> MainServerErr"
    and "ps_sched p = Closed \<Longrightarrow> ps_sched q = Closed" and "ps_worker p = Closed \<Longrightarrow> ps_worker q = Closed"
proof -
  have "main_fields q = main_fields p \<and> reported e p q \<and> e \<noteq> MainServerErr
      \<and> (ps_sched p = Closed \<longrightarrow> ps_sched q = Closed) \<and> (ps_worker p = Closed \<longrightarrow> ps_worker q = Closed)"
    using assms by (cases rule: other_stepE; cases e) (auto simp: main_fields_def reported_def guard_def split: if_splits)
  then show "main_fields q = main_fields p" and "reported e p q" and "e \<noteq> MainServerErr"
    and "ps_sched p = Closed \<Longrightarrow> ps_sched q = Closed" and "ps_worker p = Closed \<Longrightarrow> ps_worker q = Closed" by blast+
qed

lemma main_step_invar: "main_step e p = Some q \<Longrightarrow> lc_invar p \<Longrightarrow> lc_invar q"
  by (erule main_step_cases) (simp_all add: lc_invar_def stage_def held_def)

lemma running_stage: "\<not> ended p \<Longrightarrow> stage (ps_main p) \<noteq> 0"
  by (auto simp: ended_def stage_def split: main_at.splits)

lemma other_step_invar:
  assumes "other_step e p = Some q" and "lc_invar p" and "stage (ps_main p) \<noteq> 0"
  shows "lc_invar q"
proof -
  note fr = other_frame [OF assms(1)] and inv = lc_invarD [OF assms(2)]
  have "ps_main p = AtSelect \<longrightarrow> ps_serverErr q \<noteq> Some None"
    using fr(2) inv(1,7) by (auto simp: reported_def stage_def)
  with fr(1,4,5) inv assms(3) show ?thesis unfolding lc_invar_def main_fields_def by auto
qed

lemma lc_stepE:
  assumes "lc_step e p = Some q"
  obtains (main) "main_step e p = Some q" "\<not> ended p" | (other) "other_step e p = Some q" "\<not> ended p"
  using assms by (auto simp: lc_step_def split: if_splits option.splits)

lemma lc_step_invar: "lc_step e p = Some q \<Longrightarrow> lc_invar p \<Longrightarrow> lc_invar q"
  by (erule lc_stepE) (auto intro: main_step_invar other_step_invar dest: running_stage)

lemma reachable_invar: "reachable started es p \<Longrightarrow> lc_invar p"
  by (induction rule: reachable.induct) (auto intro: started_invar lc_step_invar)

section \<open>What a run has seen\<close>

text \<open>The main goroutine took the branch of the listener's report or the one of the signal, once.\<close>

definition cause_seen :: "lc_event list \<Rightarrow> cause \<Rightarrow> bool" where
  "cause_seen es c \<longleftrightarrow> (case c of
      Signalled \<Rightarrow> MainServerErr \<notin> set es
    | ServerStopped v \<Rightarrow> MainServerErr \<in> set es \<and> (\<exists>e. v = Some e \<and> ListenFails e \<in> set es))"

definition result_seen :: "lc_event list \<Rightarrow> error option \<Rightarrow> bool" where
  "result_seen es r \<longleftrightarrow> (if MainServerErr \<in> set es then \<exists>e. r = Some (Wrapf ''http server'' e) \<and> ListenFails e \<in> set es else r = None)"

definition main_seen :: "lc_event list \<Rightarrow> main_at \<Rightarrow> bool" where
  "main_seen es m \<longleftrightarrow> (case m of
      AtSelect \<Rightarrow> MainServerErr \<notin> set es
    | InHTTPShutdown c \<Rightarrow> cause_seen es c
    | AwaitScheduler c \<Rightarrow> cause_seen es c
    | AwaitWorker c \<Rightarrow> cause_seen es c
    | ClosingPool r \<Rightarrow> result_seen es r
    | Returned r \<Rightarrow> result_seen es r)"

definition seen :: "lc_event list \<Rightarrow> process \<Rightarrow> bool" where
  "seen es p \<longleftrightarrow>
     (ps_schedTimeout p \<longrightarrow> SchedStopTimeout \<in> set es) \<and> (ps_workerTimeout p \<longrightarrow> WorkerStopTimeout \<in> set es)
     \<and> (ps_schedCancelled p \<longrightarrow> (\<exists>err. HTTPShutdownReturns err \<in> set es))
     \<and> (\<forall>e. ps_serverErr p = Some (Some e) \<longrightarrow> ListenFails e \<in> set es)
     \<and> main_seen es (ps_main p)"

lemma main_seen_mono: "main_seen es m \<Longrightarrow> e \<noteq> MainServerErr \<Longrightarrow> main_seen (es @ [e]) m"
  by (auto simp: main_seen_def cause_seen_def result_seen_def split: main_at.splits cause.splits if_splits)

lemma run_result_seen: "cause_seen es c \<Longrightarrow> result_seen es (run_result c)"
  by (auto simp: cause_seen_def result_seen_def run_result_def split: cause.splits)

lemma seen_mono: "seen es p \<Longrightarrow> e \<noteq> MainServerErr \<Longrightarrow> seen (es @ [e]) p"
  by (auto simp: seen_def intro: main_seen_mono)

text \<open>A step of the main goroutine that is not the receive from the listener keeps what is known of the cause.\<close>

lemma main_moves_seen:
  assumes "main_step e p = Some q" and "e \<noteq> MainServerErr" and "main_seen es (ps_main p)"
  shows "main_seen es (ps_main q)"
  using assms(1)
  by (cases rule: main_step_cases) (use assms(2,3) run_result_seen in \<open>auto simp: main_seen_def cause_seen_def split: cause.splits\<close>)

lemma main_step_seen:
  assumes "main_step e p = Some q" and "lc_invar p" and "seen es p"
  shows "seen (es @ [e]) q"
proof (cases "e = MainServerErr")
  case True
  with assms(1) obtain v where v: "ps_main p = AtSelect" "ps_serverErr p = Some v"
      "q = p\<lparr>ps_main := InHTTPShutdown (ServerStopped v), ps_serverErr := None, ps_httpClosed := True\<rparr>"
    by (auto split: main_at.splits option.splits)
  from v obtain x where "v = Some x" using lc_invarD(7) [OF assms(2)] by (cases v) auto
  with v True assms(3) show ?thesis by (auto simp: seen_def main_seen_def cause_seen_def)
next
  case False
  have "main_seen (es @ [e]) (ps_main q)"
    using main_moves_seen [OF assms(1) False] assms(3) main_seen_mono False by (auto simp: seen_def)
  with assms(1) False seen_mono [OF assms(3) False] show ?thesis
    by (cases rule: main_step_cases) (auto simp: seen_def)
qed

lemma other_step_seen:
  assumes "other_step e p = Some q" and "seen es p"
  shows "seen (es @ [e]) q"
proof -
  note fr = other_frame(1-3) [OF assms(1)] and sn = seen_mono [OF assms(2) other_frame(3) [OF assms(1)], unfolded seen_def]
  have eq: "ps_schedTimeout q = ps_schedTimeout p" "ps_workerTimeout q = ps_workerTimeout p" "ps_schedCancelled q = ps_schedCancelled p"
      "ps_main q = ps_main p" using fr(1) by (simp_all add: main_fields_def)
  have "\<forall>x. ps_serverErr p = Some (Some x) \<longrightarrow> ListenFails x \<in> set (es @ [e])" using sn by blast
  with fr(2) have "\<forall>x. ps_serverErr q = Some (Some x) \<longrightarrow> ListenFails x \<in> set (es @ [e])" by (elim reported_cases) auto
  with sn show ?thesis unfolding seen_def eq by blast
qed

lemma reachable_seen: "reachable started es p \<Longrightarrow> seen es p"
proof (induction rule: reachable.induct)
  case start
  show ?case by (simp add: seen_def main_seen_def started_def)
next
  case (step es p e q)
  from step.hyps(2) reachable_invar [OF step.hyps(1)] step.IH show ?case
    by (cases rule: lc_stepE) (auto intro: main_step_seen other_step_seen)
qed

section \<open>How far the main goroutine gets\<close>

lemma main_step_stage: "main_step e p = Some q \<Longrightarrow> stage (ps_main q) < stage (ps_main p)"
  by (erule main_step_cases) (simp_all add: stage_def)

lemma lc_step_stage: "lc_step e p = Some q \<Longrightarrow> stage (ps_main q) \<le> stage (ps_main p)"
  by (erule lc_stepE) (auto dest!: main_step_stage other_frame(1) simp: main_fields_def)

text \<open>Once the root context is done or the server has reported, each stage of \<open>gracefulShutdown\<close> can end by its timeout: the
  events by which the main goroutine gets to \<open>pool.Close\<close> whatever the others do.\<close>

definition timeout_error :: error where "timeout_error = ErrorsNew ''context deadline exceeded''"

definition forced :: "lc_event set" where
  "forced = {MainSignalled, MainServerErr, HTTPShutdownReturns (Some timeout_error), SchedStopTimeout, WorkerStopTimeout}"

definition stopping :: "process \<Rightarrow> bool" where
  "stopping p \<longleftrightarrow> \<not> ps_killed p \<and> (ps_rootDone p \<or> ps_serverErr p \<noteq> None \<or> ps_main p \<noteq> AtSelect)"

lemma forced_step:
  assumes "stopping p" and "stage (ps_main p) = Suc (Suc n)"
  shows "\<exists>e \<in> forced. \<exists>q. lc_step e p = Some q \<and> stopping q \<and> held q = held p \<and> stage (ps_main q) = Suc n"
proof -
  have step: ?thesis if "e \<in> forced" "\<not> ps_killed q" "held q = held p" "stage (ps_main q) = Suc n" "ps_main q \<noteq> AtSelect" "main_step e p = Some q"
    for e q
  proof -
    have "\<not> ended p" using assms by (auto simp: ended_def stopping_def stage_def split: main_at.splits)
    with that have "lc_step e p = Some q" "stopping q" by (simp_all add: lc_step_def stopping_def)
    with that show ?thesis by blast
  qed
  show ?thesis
  proof (cases "ps_main p")
    case AtSelect
    show ?thesis
    proof (cases "ps_rootDone p")
      case True
      with AtSelect assms show ?thesis
        by (intro step [of MainSignalled]) (simp_all add: guard_def stopping_def stage_def forced_def held_def)
    next
      case False
      with AtSelect assms(1) obtain v where "ps_serverErr p = Some v" by (auto simp: stopping_def)
      with AtSelect assms show ?thesis
        by (intro step [of MainServerErr]) (simp_all add: stopping_def stage_def forced_def held_def)
    qed
  next
    case (InHTTPShutdown c)
    with assms show ?thesis
      by (intro step [of "HTTPShutdownReturns (Some timeout_error)"]) (simp_all add: guard_def stopping_def stage_def forced_def held_def)
  next
    case (AwaitScheduler c)
    with assms show ?thesis by (intro step [of SchedStopTimeout]) (simp_all add: stopping_def stage_def forced_def held_def)
  next
    case (AwaitWorker c)
    with assms show ?thesis by (intro step [of WorkerStopTimeout]) (simp_all add: stopping_def stage_def forced_def held_def)
  qed (use assms(2) in \<open>simp_all add: stage_def\<close>)
qed

lemma forced_to_pool:
  assumes "reachable p0 es p" and "stopping p"
  shows "\<exists>es' q. set es' \<subseteq> forced \<and> length es' = stage (ps_main p) - 1 \<and> reachable p0 (es @ es') q
    \<and> stopping q \<and> held q = held p \<and> stage (ps_main q) \<le> 1"
  using assms
proof (induction "stage (ps_main p) - 1" arbitrary: p es)
  case 0
  then show ?case by (intro exI [of _ "[]"]) auto
next
  case (Suc n)
  then obtain e q where q: "e \<in> forced" "lc_step e p = Some q" "stopping q" "held q = held p" "stage (ps_main q) = Suc n"
    using forced_step [of p n] by auto
  from Suc.hyps(1) [OF _ reachable.step [OF Suc.prems(1) q(2)] q(3)] q(5) obtain es' q'
    where "set es' \<subseteq> forced" "length es' = n" "reachable p0 (es @ [e] @ es') q'" "stopping q'" "held q' = held q" "stage (ps_main q') \<le> 1"
    by auto
  with Suc.hyps(2) q(1,4) show ?case by (intro exI [of _ "[e] @ es'"] exI [of _ q']) auto
qed

text \<open>While the pool closes, every connection that is out can come back, and when the last one is back \<open>run\<close> returns.\<close>

lemma release_step:
  assumes "ps_main p = ClosingPool r" and "\<not> ps_killed p" and "held p = Suc n"
  shows "\<exists>e q. lc_step e p = Some q \<and> ps_main q = ClosingPool r \<and> \<not> ps_killed q \<and> held q = n"
proof -
  consider "0 < ps_querying p" | "ps_schedConn p" | "ps_workerConn p" using assms(3) by (auto simp: held_def of_bool_def split: if_splits)
  then show ?thesis
  proof cases
    case 1
    then show ?thesis using assms
      by (intro exI [of _ RequestReleases]) (auto simp: lc_step_def other_step_def ended_def guard_def held_def)
  next
    case 2
    then show ?thesis using assms
      by (intro exI [of _ SchedReleases]) (auto simp: lc_step_def other_step_def ended_def guard_def held_def)
  next
    case 3
    then show ?thesis using assms
      by (intro exI [of _ WorkerReleases]) (auto simp: lc_step_def other_step_def ended_def guard_def held_def)
  qed
qed

lemma pool_drains:
  assumes "reachable p0 es p" and "ps_main p = ClosingPool r" and "\<not> ps_killed p"
  shows "\<exists>es' q. length es' = Suc (held p) \<and> reachable p0 (es @ es') q \<and> ps_main q = Returned r"
  using assms
proof (induction "held p" arbitrary: p es)
  case 0
  then have "lc_step PoolCloseReturns p = Some (p\<lparr>ps_main := Returned r\<rparr>)" by (simp add: lc_step_def ended_def guard_def)
  from reachable.step [OF 0(2) this] 0(1) show ?case by (intro exI [of _ "[PoolCloseReturns]"]) auto
next
  case (Suc n)
  then obtain e q where q: "lc_step e p = Some q" "ps_main q = ClosingPool r" "\<not> ps_killed q" "held q = n"
    using release_step by metis
  from Suc.hyps(1) [OF q(4) [symmetric] reachable.step [OF Suc.prems(1) q(1)] q(2,3)] obtain es' q'
    where "length es' = Suc n" "reachable p0 (es @ [e] @ es') q'" "ps_main q' = Returned r" using q(4) by auto
  with Suc.hyps(2) show ?case by (intro exI [of _ "[e] @ es'"]) auto
qed

lemma stage_one: "stage m \<le> 1 \<longleftrightarrow> (\<exists>r. m = ClosingPool r \<or> m = Returned r)"
  by (cases m) (auto simp: stage_def)

lemma stopping_returns:
  assumes "reachable p0 es p" and "stopping p"
  shows "\<exists>es' q r. length es' \<le> 5 + held p \<and> reachable p0 (es @ es') q \<and> ps_main q = Returned r"
proof -
  from forced_to_pool [OF assms] obtain es1 p1 where p1: "length es1 = stage (ps_main p) - 1" "reachable p0 (es @ es1) p1"
      "stopping p1" "held p1 = held p" "stage (ps_main p1) \<le> 1" by blast
  have len: "length es1 \<le> 4" using p1(1) by (simp add: stage_def split: main_at.splits)
  from p1(5) consider r where "ps_main p1 = ClosingPool r" | r where "ps_main p1 = Returned r" unfolding stage_one by blast
  then show ?thesis
  proof cases
    case (1 r)
    from pool_drains [OF p1(2) this] p1(3,4) obtain es2 q where "length es2 = Suc (held p)" "reachable p0 (es @ es1 @ es2) q" "ps_main q = Returned r"
      by (auto simp: stopping_def)
    with len show ?thesis by (intro exI [of _ "es1 @ es2"] exI [of _ q] exI [of _ r]) auto
  next
    case (2 r)
    with p1(2) len show ?thesis by (intro exI [of _ es1] exI [of _ p1] exI [of _ r]) auto
  qed
qed

section \<open>Properties\<close>

text \<open>C14: The process stops in order, and its exit status only knows the listener. In every interleaving of the goroutines:
  the scheduler is cancelled only after \<open>Shutdown\<close> of the HTTP server returned, the worker only after the scheduler
  ended or its timeout fired, and \<open>pool.Close\<close> is called only after the worker ended or its timeout fired; so without a timeout
  both had ended. When \<open>run\<close> has returned, no connection was out of the pool, the exit status is 1 if the main goroutine
  received a report of the listener and 0 if it did not, and in the first case the error is the listener's, wrapped as
  \<open>http server: ...\<close>: a run in which the worker or the scheduler crashed, but the listener did not fail, ends with exit
  status 0.\<close>

theorem shutdown_ordered:
  assumes "reachable started es p"
  shows "(ps_schedCancelled p \<longrightarrow> (\<exists>err. HTTPShutdownReturns err \<in> set es))
    \<and> (ps_workerCancelled p \<longrightarrow> ps_schedCancelled p \<and> (ps_sched p = Closed \<or> SchedStopTimeout \<in> set es))
    \<and> (ps_poolClosing p \<longrightarrow> ps_workerCancelled p \<and> (ps_worker p = Closed \<or> WorkerStopTimeout \<in> set es))
    \<and> (\<forall>r. ps_main p = Returned r \<longrightarrow> ps_poolClosing p \<and> held p = 0
        \<and> exit_code r = (if MainServerErr \<in> set es then 1 else 0)
        \<and> (MainServerErr \<in> set es \<longrightarrow> (\<exists>e. r = Some (Wrapf ''http server'' e) \<and> ListenFails e \<in> set es)))"
proof -
  note inv = lc_invarD [OF reachable_invar [OF assms]] and sn = reachable_seen [OF assms, unfolded seen_def]
  have "ps_schedCancelled p \<longrightarrow> (\<exists>err. HTTPShutdownReturns err \<in> set es)" using sn by simp
  moreover have "ps_workerCancelled p \<longrightarrow> ps_schedCancelled p \<and> (ps_sched p = Closed \<or> SchedStopTimeout \<in> set es)"
    using inv(2,3,5) sn by auto
  moreover have "ps_poolClosing p \<longrightarrow> ps_workerCancelled p \<and> (ps_worker p = Closed \<or> WorkerStopTimeout \<in> set es)"
    using inv(3,4,6) sn by auto
  moreover have "ps_poolClosing p \<and> held p = 0" and "result_seen es r" if "ps_main p = Returned r" for r
    using that sn inv(4,8) by (auto simp: stage_def main_seen_def)
  ultimately show ?thesis by (fastforce simp: result_seen_def exit_code_def split: if_splits)
qed

text \<open>A run in which the worker crashes while a request holds a connection.\<close>

definition crash_run :: "lc_event list" where
  "crash_run = [RequestArrives, WorkerCrashes, RequestAcquires, WorkerCloses, MainSignalled, ListenClosed, RequestReleases, RequestEnds,
     HTTPShutdownReturns None, SchedCanceled, SchedCloses, SchedDrained, WorkerDrained, PoolCloseReturns]"

fun lc_exec :: "lc_event list \<Rightarrow> process \<Rightarrow> process option" where
  "lc_exec [] p = Some p"
| "lc_exec (e # es) p = (case lc_step e p of None \<Rightarrow> None | Some q \<Rightarrow> lc_exec es q)"

lemma lc_exec_reachable: "reachable p0 es p \<Longrightarrow> lc_exec es' p = Some q \<Longrightarrow> reachable p0 (es @ es') q"
proof (induction es' arbitrary: es p)
  case (Cons e es')
  then obtain p1 where p1: "lc_step e p = Some p1" "lc_exec es' p1 = Some q" by (auto split: option.splits)
  from Cons.IH [OF reachable.step [OF Cons.prems(1) p1(1)] p1(2)] show ?case by simp
qed simp

lemmas lc_run_defs = started_def lc_step_def other_step_def ended_def guard_def run_result_def held_def

lemma crash_run_end: "\<exists>q. lc_exec crash_run started = Some q \<and> ps_main q = Returned None"
  by (simp add: crash_run_def lc_run_defs)

theorem shutdown_ordered_witness:
  "\<exists>q. reachable started crash_run q \<and> ps_main q = Returned None \<and> exit_code None = 0 \<and> ps_worker q = Closed \<and> held q = 0"
proof -
  obtain q where q: "lc_exec crash_run started = Some q" "ps_main q = Returned None" using crash_run_end by blast
  have r: "reachable started crash_run q" using lc_exec_reachable [OF reachable.start q(1)] by simp
  have "WorkerStopTimeout \<notin> set crash_run" by (simp add: crash_run_def)
  with shutdown_ordered [OF r] q(2) r show ?thesis by (auto simp: exit_code_def)
qed

text \<open>C15: \<open>gracefulShutdown\<close> cannot hang, the deferred \<open>pool.Close\<close> can. Take any reachable state of a process that was not killed,
  in which a signal came, a background goroutine crashed or the listener reported. At most four events of the main goroutine
  alone, the receive of the \<open>select\<close> and the timeouts of the three stages, bring it to \<open>pool.Close\<close>, whatever the other goroutines
  do; no step of any goroutine moves it back, and each of its own steps brings it closer to its return. There, with no timeout,
  it can return exactly when no connection is out of the pool: a request, a scheduler or a worker that outlived its stage and
  keeps one blocks it. If all come back, at most five steps and one for each such connection end the process.\<close>

theorem shutdown_returns:
  assumes "reachable started es p" and "\<not> ps_killed p" and "ps_rootDone p \<or> ps_serverErr p \<noteq> None \<or> ps_main p \<noteq> AtSelect"
  shows "(\<exists>es' q. set es' \<subseteq> forced \<and> length es' \<le> 4 \<and> reachable started (es @ es') q \<and> (\<exists>r. ps_main q = ClosingPool r \<or> ps_main q = Returned r))
    \<and> (\<forall>e q. lc_step e p = Some q \<longrightarrow> stage (ps_main q) \<le> stage (ps_main p))
    \<and> (\<forall>e q. main_step e p = Some q \<longrightarrow> stage (ps_main q) < stage (ps_main p))
    \<and> (\<forall>r. ps_main p = ClosingPool r \<longrightarrow> ((\<exists>e q. main_step e p = Some q) \<longleftrightarrow> held p = 0))
    \<and> (\<exists>es' q r. length es' \<le> 5 + held p \<and> reachable started (es @ es') q \<and> ps_main q = Returned r)"
proof -
  have st: "stopping p" using assms(2,3) by (simp add: stopping_def)
  have "stage m - 1 \<le> 4" for m by (simp add: stage_def split: main_at.splits)
  with forced_to_pool [OF assms(1) st]
  have "\<exists>es' q. set es' \<subseteq> forced \<and> length es' \<le> 4 \<and> reachable started (es @ es') q \<and> (\<exists>r. ps_main q = ClosingPool r \<or> ps_main q = Returned r)"
    unfolding stage_one by metis
  moreover have "(\<exists>e q. main_step e p = Some q) \<longleftrightarrow> held p = 0" if "ps_main p = ClosingPool r" for r
  proof
    assume "\<exists>e q. main_step e p = Some q"
    then show "held p = 0" using that by (auto elim!: main_step_cases)
  next
    assume "held p = 0"
    then show "\<exists>e q. main_step e p = Some q" using that by (intro exI [of _ PoolCloseReturns]) (simp add: guard_def)
  qed
  ultimately show ?thesis using stopping_returns [OF assms(1) st] lc_step_stage main_step_stage by blast
qed

text \<open>A request outlives the three timeouts and the pool waits for its connection.\<close>

definition stuck_run :: "lc_event list" where
  "stuck_run = [RequestArrives, RequestAcquires, Signal, MainSignalled, HTTPShutdownReturns (Some timeout_error), SchedStopTimeout, WorkerStopTimeout]"

lemma stuck_run_end: "\<exists>q. lc_exec stuck_run started = Some q \<and> ps_main q = ClosingPool None \<and> \<not> ps_killed q \<and> held q = 1"
  by (simp add: stuck_run_def lc_run_defs)

theorem shutdown_returns_witness:
  "\<exists>p. reachable started stuck_run p \<and> ps_main p = ClosingPool None \<and> (\<nexists>e q. main_step e p = Some q)
     \<and> (\<exists>es' q r. length es' \<le> 6 \<and> reachable started (stuck_run @ es') q \<and> ps_main q = Returned r)"
proof -
  obtain p where p: "lc_exec stuck_run started = Some p" "ps_main p = ClosingPool None" "\<not> ps_killed p" "held p = 1" using stuck_run_end by blast
  have r: "reachable started stuck_run p" using lc_exec_reachable [OF reachable.start p(1)] by simp
  from shutdown_returns [OF r p(3)] p(2,4) r show ?thesis by (intro exI [of _ p]) auto
qed

end
