(* ===== verification/Json.thy ===== *)
theory Json
  imports Jsnum
begin

text \<open>
  JSON as \<open>encoding/json\<close> of Go reads and writes it, as far as the sources use it: the scanner for all of JSON, the
  encoding and decoding of strings between UTF-8 and JSON text, the decoder of a struct of strings, identifiers and
  instants, and the text of \<open>time.Time\<close>. A JSON string is kept raw, as the scanner hands it to the decoders. The nesting bound is
  that of the scanner (10000); the fuel of the reader is twice the length of its input plus one, and \<open>json_scan_fuel\<close> shows that more
  changes nothing. The other lemmas show that what is encoded is read back.
\<close>

section \<open>Bytes and UTF-8\<close>

abbreviation byte :: "char \<Rightarrow> nat" where "byte c \<equiv> of_char c"

abbreviation backslash :: char where "backslash \<equiv> CHR 0x5C"
abbreviation dquote :: char where "dquote \<equiv> CHR 0x22"

definition cont :: "char \<Rightarrow> bool" where
  "cont c \<longleftrightarrow> 0x80 \<le> byte c \<and> byte c \<le> 0xBF"

text \<open>How many bytes follow the first one of a valid sequence; \<open>None\<close> when there is none, as for
  \<open>utf8.DecodeRune\<close>.\<close>

definition utf8_more :: "char \<Rightarrow> string \<Rightarrow> nat option" where
  "utf8_more c s =
     (let b = byte c in
      if b < 0x80 then Some 0
      else if 0xC2 \<le> b \<and> b \<le> 0xDF then
        (case s of x # _ \<Rightarrow> if cont x then Some 1 else None | _ \<Rightarrow> None)
      else if 0xE0 \<le> b \<and> b \<le> 0xEF then
        (case s of
           x # y # _ \<Rightarrow> if cont x \<and> cont y \<and> (b = 0xE0 \<longrightarrow> 0xA0 \<le> byte x) \<and> (b = 0xED \<longrightarrow> byte x \<le> 0x9F) then Some 2 else None
         | _ \<Rightarrow> None)
      else if 0xF0 \<le> b \<and> b \<le> 0xF4 then
        (case s of
           x # y # z # _ \<Rightarrow>
             if cont x \<and> cont y \<and> cont z \<and> (b = 0xF0 \<longrightarrow> 0x90 \<le> byte x) \<and> (b = 0xF4 \<longrightarrow> byte x \<le> 0x8F) then Some 3 else None
         | _ \<Rightarrow> None)
      else None)"

fun utf8 :: "string \<Rightarrow> bool" where
  "utf8 [] = True"
| "utf8 (c # s) = (case utf8_more c s of None \<Rightarrow> False | Some k \<Rightarrow> utf8 (drop k s))"

text \<open>\<open>utf8.AppendRune\<close>.\<close>

definition encode_rune :: "nat \<Rightarrow> string" where
  "encode_rune r =
     (if r < 0x80 then [char_of r]
      else if r < 0x800 then [char_of (0xC0 + r div 0x40), char_of (0x80 + r mod 0x40)]
      else if 0x10FFFF < r \<or> 0xD800 \<le> r \<and> r < 0xE000 then [CHR 0xEF, CHR 0xBF, CHR 0xBD]
      else if r < 0x10000 then [char_of (0xE0 + r div 0x1000), char_of (0x80 + r div 0x40 mod 0x40), char_of (0x80 + r mod 0x40)]
      else [char_of (0xF0 + r div 0x40000), char_of (0x80 + r div 0x1000 mod 0x40), char_of (0x80 + r div 0x40 mod 0x40),
            char_of (0x80 + r mod 0x40)])"

section \<open>Strings as JSON text\<close>

definition hex_char :: "nat \<Rightarrow> char" where
  "hex_char n = (if n < 10 then char_of (48 + n) else char_of (87 + n))"

definition escape_byte :: "char \<Rightarrow> string" where
  "escape_byte c =
     (if c = backslash \<or> c = dquote then [backslash, c]
      else if c = CHR 0x08 then [backslash, CHR ''b''] else if c = CHR 0x0C then [backslash, CHR ''f'']
      else if c = CHR 0x0A then [backslash, CHR ''n''] else if c = CHR 0x0D then [backslash, CHR ''r'']
      else if c = CHR 0x09 then [backslash, CHR ''t'']
      else if byte c < 0x20 \<or> c = CHR ''<'' \<or> c = CHR ''>'' \<or> c = CHR ''&''
      then [backslash, CHR ''u'', CHR ''0'', CHR ''0'', hex_char (byte c div 16), hex_char (byte c mod 16)]
      else [c])"

text \<open>\<open>appendString\<close> with HTML escaping, between the quotes. The line and paragraph separators are escaped, and so is
  every byte that is no UTF-8.\<close>

definition escape_rune :: "char \<Rightarrow> string \<Rightarrow> string" where
  "escape_rune c cs =
     (if cs = [] then escape_byte c
      else if c # cs = [CHR 0xE2, CHR 0x80, CHR 0xA8] then backslash # ''u2028''
      else if c # cs = [CHR 0xE2, CHR 0x80, CHR 0xA9] then backslash # ''u2029''
      else c # cs)"

fun quote_body :: "string \<Rightarrow> string" where
  "quote_body [] = []"
| "quote_body (c # s) =
     (case utf8_more c s of
        None \<Rightarrow> backslash # ''ufffd'' @ quote_body s
      | Some k \<Rightarrow> escape_rune c (take k s) @ quote_body (drop k s))"

definition json_quote :: "string \<Rightarrow> string" where
  "json_quote s = dquote # quote_body s @ [dquote]"

text \<open>Four hexadecimal digits.\<close>

definition hex4 :: "string \<Rightarrow> nat option" where
  "hex4 s =
     (case s of
        a # b # c # d # _ \<Rightarrow>
          (case (hex_val a, hex_val b, hex_val c, hex_val d) of
             (Some p, Some q, Some r, Some t) \<Rightarrow> Some (4096 * p + 256 * q + 16 * r + t)
           | _ \<Rightarrow> None)
      | _ \<Rightarrow> None)"

definition simple_escape :: "char \<Rightarrow> char option" where
  "simple_escape e =
     (if e = dquote \<or> e = backslash \<or> e = CHR ''/'' then Some e
      else if e = CHR ''b'' then Some (CHR 0x08) else if e = CHR ''f'' then Some (CHR 0x0C)
      else if e = CHR ''n'' then Some (CHR 0x0A) else if e = CHR ''r'' then Some (CHR 0x0D)
      else if e = CHR ''t'' then Some (CHR 0x09) else None)"

text \<open>The scanner inside a string: the raw text up to the closing quote, and what follows it.\<close>

fun scan_string :: "string \<Rightarrow> (string \<times> string) option" where
  "scan_string [] = None"
| "scan_string (c # s) =
     (if c = dquote then Some ([], s)
      else if c = backslash then
        (case s of
           [] \<Rightarrow> None
         | e # s1 \<Rightarrow>
             if e = CHR ''u'' then
               (if hex4 s1 = None then None
                else map_option (\<lambda>(raw, rest). (c # e # take 4 s1 @ raw, rest)) (scan_string (drop 4 s1)))
             else if simple_escape e = None then None
             else map_option (\<lambda>(raw, rest). (c # e # raw, rest)) (scan_string s1))
      else if byte c < 0x20 then None
      else map_option (\<lambda>(raw, rest). (c # raw, rest)) (scan_string s))"

text \<open>\<open>unquote\<close> of a raw string the scanner accepted: a pair of surrogates is one character, a lone one and every byte
  that is no UTF-8 become the replacement character.\<close>

definition low_surrogate :: "string \<Rightarrow> nat option" where
  "low_surrogate s =
     (case s of
        x # y # t \<Rightarrow> if x = backslash \<and> y = CHR ''u'' then hex4 t else None
      | _ \<Rightarrow> None)"

fun unquote :: "string \<Rightarrow> string" where
  "unquote [] = []"
| "unquote (c # s) =
     (if c = backslash then
        (case s of
           [] \<Rightarrow> []
         | e # s1 \<Rightarrow>
             if e = CHR ''u'' then
               (case hex4 s1 of
                  None \<Rightarrow> []
                | Some r \<Rightarrow>
                    if 0xD800 \<le> r \<and> r < 0xE000 then
                      (case low_surrogate (drop 4 s1) of
                         Some r2 \<Rightarrow>
                           if r < 0xDC00 \<and> 0xDC00 \<le> r2 \<and> r2 < 0xE000
                           then encode_rune (0x10000 + (r - 0xD800) * 0x400 + (r2 - 0xDC00)) @ unquote (drop 10 s1)
                           else encode_rune 0xFFFD @ unquote (drop 4 s1)
                       | None \<Rightarrow> encode_rune 0xFFFD @ unquote (drop 4 s1))
                    else encode_rune r @ unquote (drop 4 s1))
             else (case simple_escape e of None \<Rightarrow> [] | Some x \<Rightarrow> x # unquote s1))
      else case utf8_more c s of
        None \<Rightarrow> encode_rune 0xFFFD @ unquote s
      | Some k \<Rightarrow> c # take k s @ unquote (drop k s))"

section \<open>A string is read back\<close>

lemma utf8_more_prefix:
  assumes "utf8_more c s = Some k"
  shows "utf8_more c (take k s @ t) = Some k" and "k \<le> length s" and "list_all cont (take k s)" and "k = 0 \<longleftrightarrow> byte c < 0x80"
  using assms unfolding utf8_more_def Let_def by (auto split: if_splits list.splits)

lemma utf8_drop: "utf8 (c # s) \<Longrightarrow> \<exists>k. utf8_more c s = Some k \<and> utf8 (drop k s)"
  by (auto split: option.splits)

lemma hex_val_hex_char: "n < 16 \<Longrightarrow> hex_val (hex_char n) = Some n"
  by (simp add: hex_val_def hex_char_def)

lemma hex4_00: "a < 16 \<Longrightarrow> b < 16 \<Longrightarrow> hex4 (CHR ''0'' # CHR ''0'' # hex_char a # hex_char b # t) = Some (16 * a + b)"
  by (simp add: hex4_def hex_val_hex_char hex_val_def [of "CHR ''0''"])

lemma hex4_u: "hex4 (''2028'' @ t) = Some 0x2028" "hex4 (''2029'' @ t) = Some 0x2029"
  by (simp_all add: hex4_def hex_val_def)

lemma encode_separators: "encode_rune 0x2028 = [CHR 0xE2, CHR 0x80, CHR 0xA8]" "encode_rune 0x2029 = [CHR 0xE2, CHR 0x80, CHR 0xA9]"
  by (simp_all add: encode_rune_def char_of_eq_iff)

lemma scan_plain:
  "list_all (\<lambda>c. c \<noteq> dquote \<and> c \<noteq> backslash \<and> \<not> byte c < 0x20) xs \<Longrightarrow>
     scan_string (xs @ t) = map_option (\<lambda>(raw, rest). (xs @ raw, rest)) (scan_string t)"
  by (induction xs) (auto simp: option.map_comp o_def split_def option.map_ident)

lemma scan_escape_byte:
  "byte c < 0x80 \<Longrightarrow> scan_string (escape_byte c @ t) = map_option (\<lambda>(raw, rest). (escape_byte c @ raw, rest)) (scan_string t)"
  using scan_plain [of "[c]" t] hex4_00 [of "byte c div 16" "byte c mod 16" t]
  by (auto simp: escape_byte_def simple_escape_def)

lemma unquote_escape_byte:
  "byte c < 0x80 \<Longrightarrow> unquote (escape_byte c @ t) = c # unquote t"
  using hex4_00 [of "byte c div 16" "byte c mod 16" t]
  by (auto simp: escape_byte_def simple_escape_def encode_rune_def utf8_more_def)

lemma cont_plain: "list_all cont xs \<Longrightarrow> list_all (\<lambda>c. c \<noteq> dquote \<and> c \<noteq> backslash \<and> \<not> byte c < 0x20) xs"
  by (auto simp: list_all_iff cont_def)

lemma scan_escape_rune:
  assumes "utf8_more c s = Some k"
  shows "scan_string (escape_rune c (take k s) @ t) = map_option (\<lambda>(raw, rest). (escape_rune c (take k s) @ raw, rest)) (scan_string t)"
proof (cases "k = 0")
  case True
  with utf8_more_prefix(4) [OF assms] scan_escape_byte show ?thesis by (simp add: escape_rune_def)
next
  case False
  note p = utf8_more_prefix [OF assms]
  have "list_all (\<lambda>c. c \<noteq> dquote \<and> c \<noteq> backslash \<and> \<not> byte c < 0x20) (c # take k s)"
    using cont_plain [OF p(3)] p(4) False by auto
  from scan_plain [OF this, of t] False p(2) show ?thesis
    using hex4_u [of t] by (auto simp: escape_rune_def)
qed

lemma unquote_escape_rune:
  assumes "utf8_more c s = Some k"
  shows "unquote (escape_rune c (take k s) @ t) = c # take k s @ unquote t"
proof (cases "k = 0")
  case True
  with utf8_more_prefix(4) [OF assms] unquote_escape_byte show ?thesis by (simp add: escape_rune_def)
next
  case False
  note p = utf8_more_prefix [OF assms]
  have "c \<noteq> backslash" using p(4) False by auto
  then have plain: "unquote (c # take k s @ t) = c # take k s @ unquote t" using p(1) [of t] p(2) by simp
  show ?thesis using plain False p(2) hex4_u [of t] by (auto simp: escape_rune_def encode_separators)
qed

lemma scan_quote_body: "scan_string (quote_body s @ dquote # rest) = Some (quote_body s, rest)"
  if "utf8 s"
  using that
proof (induction s rule: quote_body.induct)
  case (2 c s)
  then obtain k where k: "utf8_more c s = Some k" "utf8 (drop k s)" using utf8_drop by blast
  with 2(2) [OF k(1)] scan_escape_rune [OF k(1), of "quote_body (drop k s) @ dquote # rest"] show ?case by simp
qed simp

lemma unquote_quote_body: "unquote (quote_body s) = s" if "utf8 s"
  using that
proof (induction s rule: quote_body.induct)
  case (2 c s)
  then obtain k where k: "utf8_more c s = Some k" "utf8 (drop k s)" using utf8_drop by blast
  with 2(2) [OF k(1)] unquote_escape_rune [OF k(1), of "quote_body (drop k s)"] show ?case by simp
qed simp

text \<open>Plain ASCII is its own JSON text.\<close>

definition plain_char :: "char \<Rightarrow> bool" where
  "plain_char c \<longleftrightarrow> 0x20 \<le> byte c \<and> byte c < 0x80 \<and> c \<notin> {backslash, dquote, CHR ''<'', CHR ''>'', CHR ''&''}"

lemma plain_char_steps:
  assumes c: "plain_char c"
  shows "utf8_more c s = Some 0" and "escape_byte c = [c]"
proof -
  show "utf8_more c s = Some 0" using c by (simp add: plain_char_def utf8_more_def)
  have neq: "c \<noteq> d" if "byte d < 0x20" for d using c that unfolding plain_char_def by (metis not_le)
  have "c \<noteq> CHR 0x08" "c \<noteq> CHR 0x0C" "c \<noteq> CHR 0x0A" "c \<noteq> CHR 0x0D" "c \<noteq> CHR 0x09"
    by (rule neq, simp)+
  moreover have "c \<noteq> backslash" "c \<noteq> dquote" "c \<noteq> CHR ''<''" "c \<noteq> CHR ''>''" "c \<noteq> CHR ''&''" "\<not> byte c < 0x20"
    using c unfolding plain_char_def by (blast, blast, blast, blast, blast, linarith)
  ultimately show "escape_byte c = [c]" unfolding escape_byte_def by (simp only: if_False disj_not1 simp_thms)
qed

lemma quote_body_plain: "list_all plain_char s \<Longrightarrow> quote_body s = s \<and> utf8 s"
  by (induction s) (simp_all add: plain_char_steps escape_rune_def)

section \<open>Values\<close>

datatype json = JNull | JBool bool | JNum string | JStr string | JArr "json list" | JObj "(string \<times> json) list"

definition json_space :: "char \<Rightarrow> bool" where
  "json_space c \<longleftrightarrow> c = CHR '' '' \<or> c = CHR 0x09 \<or> c = CHR 0x0A \<or> c = CHR 0x0D"

definition skip_ws :: "string \<Rightarrow> string" where
  "skip_ws s = dropWhile json_space s"

text \<open>A number: sign, integer part without leading zeros, fraction, exponent.\<close>

definition digits_from :: "string \<Rightarrow> (string \<times> string) option" where
  "digits_from s = (if takeWhile is_digit s = [] then None else Some (takeWhile is_digit s, dropWhile is_digit s))"

definition scan_int :: "string \<Rightarrow> (string \<times> string) option" where
  "scan_int s = (case s of c # t \<Rightarrow> if c = CHR ''0'' then Some ([c], t) else digits_from s | [] \<Rightarrow> None)"

definition scan_frac :: "string \<Rightarrow> (string \<times> string) option" where
  "scan_frac s =
     (case s of
        c # t \<Rightarrow> if c = CHR ''.'' then map_option (\<lambda>(ds, r). (c # ds, r)) (digits_from t) else Some ([], s)
      | [] \<Rightarrow> Some ([], s))"

definition scan_exp :: "string \<Rightarrow> (string \<times> string) option" where
  "scan_exp s =
     (case s of
        c # t \<Rightarrow>
          if c = CHR ''e'' \<or> c = CHR ''E'' then
            (case t of
               g # u \<Rightarrow>
                 if g = CHR ''+'' \<or> g = CHR ''-'' then map_option (\<lambda>(ds, r). (c # g # ds, r)) (digits_from u)
                 else map_option (\<lambda>(ds, r). (c # ds, r)) (digits_from t)
             | [] \<Rightarrow> None)
          else Some ([], s)
      | [] \<Rightarrow> Some ([], s))"

definition scan_number :: "string \<Rightarrow> (string \<times> string) option" where
  "scan_number s =
     (let neg = (s \<noteq> [] \<and> hd s = CHR ''-'')
      in case scan_int (if neg then tl s else s) of
           None \<Rightarrow> None
         | Some (i, r1) \<Rightarrow>
             (case scan_frac r1 of
                None \<Rightarrow> None
              | Some (f, r2) \<Rightarrow>
                  map_option (\<lambda>(e, r3). ((if neg then ''-'' else []) @ i @ f @ e, r3)) (scan_exp r2)))"

text \<open>\<open>pvalue f d s\<close> reads one value: \<open>f\<close> is fuel, \<open>d\<close> the nesting still allowed; what follows the value is handed back.\<close>

fun pvalue :: "nat \<Rightarrow> nat \<Rightarrow> string \<Rightarrow> (json \<times> string) option"
  and pelems :: "nat \<Rightarrow> nat \<Rightarrow> string \<Rightarrow> (json list \<times> string) option"
  and pmembers :: "nat \<Rightarrow> nat \<Rightarrow> string \<Rightarrow> ((string \<times> json) list \<times> string) option" where
  "pvalue 0 d s = None"
| "pvalue (Suc f) d s =
     (case skip_ws s of
        [] \<Rightarrow> None
      | c # t \<Rightarrow>
          if c = dquote then map_option (\<lambda>(raw, r). (JStr raw, r)) (scan_string t)
          else if c = CHR ''{'' then
            (if d = 0 then None
             else case skip_ws t of
               [] \<Rightarrow> None
             | x # r \<Rightarrow> if x = CHR ''}'' then Some (JObj [], r) else map_option (\<lambda>(ms, r). (JObj ms, r)) (pmembers f (d - 1) t))
          else if c = CHR ''['' then
            (if d = 0 then None
             else case skip_ws t of
               [] \<Rightarrow> None
             | x # r \<Rightarrow> if x = CHR '']'' then Some (JArr [], r) else map_option (\<lambda>(vs, r). (JArr vs, r)) (pelems f (d - 1) t))
          else if startsWith (c # t) ''null'' then Some (JNull, drop 4 (c # t))
          else if startsWith (c # t) ''true'' then Some (JBool True, drop 4 (c # t))
          else if startsWith (c # t) ''false'' then Some (JBool False, drop 5 (c # t))
          else map_option (\<lambda>(n, r). (JNum n, r)) (scan_number (c # t)))"
| "pelems 0 d s = None"
| "pelems (Suc f) d s =
     (case pvalue f d s of
        None \<Rightarrow> None
      | Some (v, t) \<Rightarrow>
          (case skip_ws t of
             [] \<Rightarrow> None
           | y # r \<Rightarrow>
               if y = CHR '']'' then Some ([v], r)
               else if y = CHR '','' then map_option (\<lambda>(vs, r'). (v # vs, r')) (pelems f d r)
               else None))"
| "pmembers 0 d s = None"
| "pmembers (Suc f) d s =
     (case skip_ws s of
        [] \<Rightarrow> None
      | q # t \<Rightarrow>
          if q \<noteq> dquote then None
          else case scan_string t of
            None \<Rightarrow> None
          | Some (k, t1) \<Rightarrow>
              (case skip_ws t1 of
                 [] \<Rightarrow> None
               | x # t2 \<Rightarrow>
                   if x \<noteq> CHR '':'' then None
                   else case pvalue f d t2 of
                     None \<Rightarrow> None
                   | Some (v, t3) \<Rightarrow>
                       (case skip_ws t3 of
                          [] \<Rightarrow> None
                        | y # r \<Rightarrow>
                            if y = CHR ''}'' then Some ([(k, v)], r)
                            else if y = CHR '','' then map_option (\<lambda>(ms, r'). ((k, v) # ms, r')) (pmembers f d r)
                            else None)))"

definition maxNestingDepth :: nat where "maxNestingDepth = 10000"

definition json_scan :: "string \<Rightarrow> (json \<times> string) option" where
  "json_scan s = pvalue (Suc (2 * length s)) maxNestingDepth s"

section \<open>The fuel is enough\<close>

lemma skip_ws_length: "length (skip_ws s) \<le> length s"
  by (simp add: skip_ws_def length_dropWhile_le)

lemma skip_ws_Cons: "skip_ws s = c # t \<Longrightarrow> length t < length s"
  using skip_ws_length [of s] by simp

lemma scan_string_shorter: "scan_string s = Some (raw, r) \<Longrightarrow> length r < length s"
proof (induction s arbitrary: raw r rule: scan_string.induct)
  case (2 c s)
  show ?case
  proof (cases "c = dquote \<or> c = backslash")
    case True
    with 2 show ?thesis by (auto split: list.splits if_splits) fastforce+
  next
    case False
    with 2 show ?thesis by (auto split: if_splits)
  qed
qed simp

lemma digits_from_shorter: "digits_from s = Some (ds, r) \<Longrightarrow> length r < length s"
  by (cases s) (auto simp: digits_from_def length_dropWhile_le less_Suc_eq_le split: if_splits)

lemma scan_number_shorter:
  assumes "scan_number s = Some (n, r)"
  shows "length r < length s"
proof -
  have i: "length r1 < length t" if "scan_int t = Some (x, r1)" for t x r1
    using that by (auto simp: scan_int_def split: list.splits if_splits dest: digits_from_shorter)
  have f: "length r1 \<le> length t" if "scan_frac t = Some (x, r1)" for t x r1
    using that by (auto simp: scan_frac_def split: list.splits if_splits dest: digits_from_shorter)
  have e: "length r1 \<le> length t" if "scan_exp t = Some (x, r1)" for t x r1
    using that by (auto simp: scan_exp_def split: list.splits if_splits dest: digits_from_shorter)
  obtain ip r1 fp r2 ep where p: "scan_int (if s \<noteq> [] \<and> hd s = CHR ''-'' then tl s else s) = Some (ip, r1)" "scan_frac r1 = Some (fp, r2)"
      "scan_exp r2 = Some (ep, r)"
    using assms unfolding scan_number_def Let_def by (auto split: option.splits prod.splits)
  have "length r1 < length s" using i [OF p(1)] by (auto split: if_splits)
  with f [OF p(2)] e [OF p(3)] show ?thesis by simp
qed

lemma pvalue_shorter:
  "pvalue f d s = Some (v, r) \<Longrightarrow> length r < length s"
  "pelems f d s = Some (vs, r) \<Longrightarrow> length r < length s"
  "pmembers f d s = Some (ms, r) \<Longrightarrow> length r < length s"
proof (induction f d s and f d s and f d s arbitrary: v r and vs r and ms r rule: pvalue_pelems_pmembers.induct)
  case (2 f d s)
  show ?case
  proof (cases "skip_ws s")
    case (Cons c t)
    note t = skip_ws_Cons [OF Cons]
    have "length r \<le> length t"
      using 2 Cons
      by (auto split: if_splits list.splits dest!: scan_string_shorter scan_number_shorter skip_ws_Cons)
        (metis less_imp_le)+
    with t show ?thesis by simp
  qed (use 2 in simp)
next
  case (4 f d s)
  then show ?case
    by (auto split: option.splits list.splits if_splits dest!: skip_ws_Cons) (meson less_trans)+
next
  case (6 f d s)
  then show ?case
    by (auto split: option.splits list.splits if_splits dest!: skip_ws_Cons scan_string_shorter) (meson less_trans)+
qed simp_all

lemma fuel_step:
  "(\<forall>d s f'. 2 * length s < f \<and> 2 * length s < f' \<longrightarrow> pvalue f d s = pvalue f' d s)
    \<and> (\<forall>d s f'. 2 * length s + 1 < f \<and> 2 * length s + 1 < f' \<longrightarrow> pelems f d s = pelems f' d s)
    \<and> (\<forall>d s f'. 2 * length s < f \<and> 2 * length s < f' \<longrightarrow> pmembers f d s = pmembers f' d s)"
proof (induction f)
  case (Suc f)
  then have pv: "2 * length s < f \<Longrightarrow> 2 * length s < g \<Longrightarrow> pvalue f d s = pvalue g d s"
    and pe: "2 * length s + 1 < f \<Longrightarrow> 2 * length s + 1 < g \<Longrightarrow> pelems f d s = pelems g d s"
    and pm: "2 * length s < f \<Longrightarrow> 2 * length s < g \<Longrightarrow> pmembers f d s = pmembers g d s" for s g d
    by blast+
  have val: "pvalue (Suc f) d s = pvalue (Suc g) d s" if l: "2 * length s < Suc f" "2 * length s < Suc g" for d s g
  proof (cases "skip_ws s")
    case (Cons c t)
    have "pelems f (d - 1) t = pelems g (d - 1) t" "pmembers f (d - 1) t = pmembers g (d - 1) t"
      using skip_ws_Cons [OF Cons] l by (intro pe pm; linarith)+
    with Cons show ?thesis by (simp split: list.split)
  qed simp
  have elems: "pelems (Suc f) d s = pelems (Suc g) d s" if l: "2 * length s + 1 < Suc f" "2 * length s + 1 < Suc g" for d s g
  proof -
    have v: "pvalue f d s = pvalue g d s" using l by (intro pv) simp_all
    have "pelems f d r = pelems g d r" if "pvalue g d s = Some (x, t)" "skip_ws t = y # r" for x t y r
      using pvalue_shorter(1) [OF that(1)] skip_ws_Cons [OF that(2)] l by (intro pe; linarith)
    then show ?thesis by (auto simp: v split: option.split list.split)
  qed
  have members: "pmembers (Suc f) d s = pmembers (Suc g) d s" if l: "2 * length s < Suc f" "2 * length s < Suc g" for d s g
  proof (cases "\<exists>t k t1 t2. skip_ws s = dquote # t \<and> scan_string t = Some (k, t1) \<and> skip_ws t1 = CHR '':'' # t2")
    case True
    then obtain t k t1 t2 where s: "skip_ws s = dquote # t" "scan_string t = Some (k, t1)" "skip_ws t1 = CHR '':'' # t2" by blast
    have len: "length t2 < length s" using skip_ws_Cons [OF s(1)] scan_string_shorter [OF s(2)] skip_ws_Cons [OF s(3)] by simp
    then have v: "pvalue f d t2 = pvalue g d t2" using l by (intro pv) simp_all
    have "pmembers f d r = pmembers g d r" if "pvalue g d t2 = Some (x, t3)" "skip_ws t3 = y # r" for x t3 y r
      using pvalue_shorter(1) [OF that(1)] skip_ws_Cons [OF that(2)] len l by (intro pm; linarith)
    then show ?thesis by (auto simp: s v split: option.split list.split)
  next
    case False
    then have "pmembers (Suc h) d s = None" for h by (auto split: list.split option.split)
    then show ?thesis by (simp only:)
  qed
  have suc: "P f'" if "n < f'" "\<And>g. f' = Suc g \<Longrightarrow> P (Suc g)" for P and n f' :: nat using that by (cases f') simp_all
  show ?case by (intro conjI allI impI; elim conjE; rule suc, assumption, rule val elems members) simp_all
qed simp

text \<open>More fuel than \<open>json_scan\<close> gives changes nothing.\<close>

lemma json_scan_fuel: "2 * length s < f \<Longrightarrow> pvalue f maxNestingDepth s = json_scan s"
  unfolding json_scan_def by (rule fuel_step [THEN conjunct1, rule_format]) simp

section \<open>Objects of strings\<close>

fun members_text :: "(string \<times> string) list \<Rightarrow> string" where
  "members_text [] = []"
| "members_text [(k, v)] = json_quote k @ CHR '':'' # v"
| "members_text ((k, v) # x # xs) = json_quote k @ CHR '':'' # v @ CHR '','' # members_text (x # xs)"

text \<open>A struct: its fields in order, each with its value as JSON text.\<close>

definition json_object :: "(string \<times> string) list \<Rightarrow> string" where
  "json_object kvs = CHR ''{'' # members_text kvs @ [CHR ''}'']"

definition string_object :: "(string \<times> string) list \<Rightarrow> string" where
  "string_object kvs = json_object (map (\<lambda>(k, v). (k, json_quote v)) kvs)"

lemma skip_ws_solid [simp]: "\<not> json_space c \<Longrightarrow> skip_ws (c # s) = c # s"
  by (simp add: skip_ws_def)

lemma solid_chars [simp]:
  "\<not> json_space dquote" "\<not> json_space (CHR '':'')" "\<not> json_space (CHR '','')" "\<not> json_space (CHR ''{'')" "\<not> json_space (CHR ''}'')"
  by (simp_all add: json_space_def)

lemma pvalue_string: "utf8 v \<Longrightarrow> pvalue (Suc f) d (json_quote v @ rest) = Some (JStr (quote_body v), rest)"
  by (simp add: json_quote_def scan_quote_body)

definition raw_members :: "(string \<times> string) list \<Rightarrow> (string \<times> json) list" where
  "raw_members kvs = map (\<lambda>(k, v). (quote_body k, JStr (quote_body v))) kvs"

lemma pmembers_text:
  "kvs \<noteq> [] \<Longrightarrow> list_all (\<lambda>(k, v). utf8 k \<and> utf8 v) kvs \<Longrightarrow> length kvs < f \<Longrightarrow>
     pmembers f d (members_text (map (\<lambda>(k, v). (k, json_quote v)) kvs) @ CHR ''}'' # rest) = Some (raw_members kvs, rest)"
proof (induction kvs arbitrary: f)
  case (Cons kv kvs)
  obtain k v where kv: "kv = (k, v)" by force
  obtain g where g: "f = Suc (Suc g)" using Cons.prems(3) by (intro that [of "f - 2"]) simp
  have u: "utf8 k" "utf8 v" using Cons.prems(2) kv by simp_all
  have key: "skip_ws (json_quote k @ t) = dquote # quote_body k @ dquote # t" for t by (simp add: json_quote_def)
  note one = key scan_quote_body [OF u(1)] pvalue_string [OF u(2)]
  show ?case
  proof (cases kvs)
    case Nil
    then show ?thesis by (simp add: kv g one raw_members_def del: pvalue.simps)
  next
    case (Cons x xs)
    obtain k2 v2 where x: "x = (k2, v2)" by force
    have "pmembers (Suc g) d (members_text (map (\<lambda>(k, v). (k, json_quote v)) kvs) @ CHR ''}'' # rest) = Some (raw_members kvs, rest)"
      using Cons.IH [of "Suc g"] Cons.prems g local.Cons by simp
    with local.Cons show ?thesis by (simp add: kv g one raw_members_def x del: pvalue.simps)
  qed
qed simp

lemma scan_string_object:
  assumes "kvs \<noteq> []" and "list_all (\<lambda>(k, v). utf8 k \<and> utf8 v) kvs"
  shows "json_scan (string_object kvs @ rest) = Some (JObj (raw_members kvs), rest)"
proof -
  let ?t = "members_text (map (\<lambda>(k, v). (k, json_quote v)) kvs)"
  have first: "\<exists>t. ?t = dquote # t" using assms(1) by (cases kvs rule: members_text.cases) (auto simp: json_quote_def)
  have len: "length kvs \<le> length (members_text (map (\<lambda>(k, v). (k, json_quote v)) ys))" if "ys = kvs" for ys
    unfolding that by (induction kvs rule: members_text.induct) (auto simp: json_quote_def)
  have shape: "string_object kvs @ rest = CHR ''{'' # ?t @ CHR ''}'' # rest" by (simp add: string_object_def json_object_def)
  have "length kvs < 2 * length (string_object kvs @ rest)" using len [OF refl] by (simp add: shape)
  from pmembers_text [OF assms this, of "maxNestingDepth - 1" rest] first show ?thesis
    unfolding json_scan_def shape by (auto simp: maxNestingDepth_def simp del: pmembers.simps)
qed

section \<open>Decoding a struct\<close>

text \<open>The kinds of the fields of the structs of this program. \<open>UnmarshalText\<close> of the identifier type (a library) and the
  fallback of \<open>time.Time\<close> to \<open>time.Parse\<close> are fields of the environment.\<close>

datatype fkind = FString | FUUID | FTime

datatype fval = VText string | VTime time

record json_env =
  je_uuid :: "string \<Rightarrow> string option"
  je_Parse :: "string \<Rightarrow> time option"

text \<open>\<open>foldName\<close>, as far as it matters for names in ASCII: the long s and the Kelvin sign are the only other characters that fold
  to a letter.\<close>

fun fold_name :: "string \<Rightarrow> string" where
  "fold_name [] = []"
| "fold_name (c # s) =
     (if c = CHR 0xC5 \<and> startsWith s [CHR 0xBF] then CHR ''S'' # fold_name (drop 1 s)
      else if c = CHR 0xE2 \<and> startsWith s [CHR 0x84, CHR 0xAA] then CHR ''K'' # fold_name (drop 2 s)
      else upper_char c # fold_name s)"

definition find_field :: "(string \<times> fkind) list \<Rightarrow> string \<Rightarrow> (string \<times> fkind) option" where
  "find_field fs key =
     (case map_of fs key of
        Some k \<Rightarrow> Some (key, k)
      | None \<Rightarrow> find (\<lambda>(n, k). fold_name n = fold_name key) fs)"

section \<open>The text of an instant\<close>

text \<open>\<open>time.Time\<close> as JSON: RFC 3339 with the fraction its digits need. The process runs in UTC (the container image sets no
  zone), and the text exists for the years 0 to 9999 only.\<close>

definition json_time_ok :: "time \<Rightarrow> bool" where
  "json_time_ok t \<longleftrightarrow> - 62167219200 * second \<le> t \<and> t < 253402300800 * second"

definition leap :: "nat \<Rightarrow> bool" where
  "leap y \<longleftrightarrow> y mod 4 = 0 \<and> (y mod 100 \<noteq> 0 \<or> y mod 400 = 0)"

definition year_days :: "nat \<Rightarrow> nat" where
  "year_days y = (if leap y then 366 else 365)"

definition month_lengths :: "nat \<Rightarrow> nat list" where
  "month_lengths y = [31, if leap y then 29 else 28, 31, 30, 31, 30, 31, 31, 30, 31, 30, 31]"

text \<open>The days from the first of January of the year 0 to that of a year.\<close>

definition year_start :: "nat \<Rightarrow> nat" where
  "year_start y = 365 * y + (y + 3) div 4 - (y + 99) div 100 + (y + 399) div 400"

function civil_year :: "nat \<Rightarrow> nat \<Rightarrow> nat \<times> nat" where
  "civil_year y d = (if d < year_days y then (y, d) else civil_year (Suc y) (d - year_days y))"
  by auto
termination by (relation "measure snd") (auto simp: year_days_def)

declare civil_year.simps [simp del]

fun civil_month :: "nat list \<Rightarrow> nat \<Rightarrow> nat \<Rightarrow> nat \<times> nat" where
  "civil_month [] m d = (m, d)"
| "civil_month (l # ls) m d = (if d < l then (m, d) else civil_month ls (Suc m) (d - l))"

fun dec :: "nat \<Rightarrow> nat \<Rightarrow> string" where
  "dec 0 n = []"
| "dec (Suc w) n = dec w (n div 10) @ [digit_char (n mod 10)]"

definition frac_text :: "nat \<Rightarrow> string" where
  "frac_text f = (if f = 0 then [] else CHR ''.'' # rev (dropWhile (\<lambda>c. c = CHR ''0'') (rev (dec 9 f))))"

definition rfc_text :: "nat \<Rightarrow> nat \<Rightarrow> nat \<Rightarrow> nat \<Rightarrow> nat \<Rightarrow> nat \<Rightarrow> nat \<Rightarrow> string" where
  "rfc_text y m d hh mi ss f =
     dec 4 y @ CHR ''-'' # dec 2 m @ CHR ''-'' # dec 2 d @ CHR ''T'' # dec 2 hh @ CHR '':'' # dec 2 mi @ CHR '':'' # dec 2 ss
       @ frac_text f @ ''Z''"

definition time_text :: "time \<Rightarrow> string" where
  "time_text t =
     (let n = nat (t + 62167219200 * second); s = n div 10 ^ 9; sod = s mod 86400;
          (y, yd) = civil_year 0 (s div 86400);
          (m, md) = civil_month (month_lengths y) 1 yd
      in rfc_text y m (md + 1) (sod div 3600) (sod div 60 mod 60) (sod mod 60) (n mod 10 ^ 9))"

text \<open>\<open>parseRFC3339\<close>, the strict reader; what it refuses goes to \<open>time.Parse\<close>.\<close>

definition parse_uint :: "string \<Rightarrow> nat \<Rightarrow> nat \<Rightarrow> nat option" where
  "parse_uint s lo hi = (if list_all is_digit s \<and> lo \<le> digits_val s \<and> digits_val s \<le> hi then Some (digits_val s) else None)"

definition sub :: "string \<Rightarrow> nat \<Rightarrow> nat \<Rightarrow> string" where
  "sub s a b = take (b - a) (drop a s)"

definition parse_frac :: "string \<Rightarrow> nat \<times> string" where
  "parse_frac r =
     (case r of
        c # t \<Rightarrow>
          if c = CHR ''.'' \<and> t \<noteq> [] \<and> is_digit (hd t)
          then (let ds = take 9 (takeWhile is_digit t) in (digits_val ds * 10 ^ (9 - length ds), dropWhile is_digit t))
          else (0, r)
      | [] \<Rightarrow> (0, r))"

definition parse_zone :: "string \<Rightarrow> int option" where
  "parse_zone z =
     (if z = ''Z'' then Some 0
      else if length z \<noteq> 6 then None
      else case (parse_uint (sub z 1 3) 0 23, parse_uint (sub z 4 6) 0 59) of
        (Some h, Some m) \<Rightarrow>
          if (z ! 0 = CHR ''-'' \<or> z ! 0 = CHR ''+'') \<and> z ! 3 = CHR '':''
          then Some ((if z ! 0 = CHR ''-'' then - 1 else 1) * int ((h * 60 + m) * 60)) else None
      | _ \<Rightarrow> None)"

definition instant :: "nat \<Rightarrow> nat \<Rightarrow> nat \<Rightarrow> nat \<Rightarrow> nat \<Rightarrow> nat \<Rightarrow> nat \<Rightarrow> time" where
  "instant y m d hh mi ss f =
     (int ((year_start y + sum_list (take (m - 1) (month_lengths y)) + (d - 1)) * 86400 + hh * 3600 + mi * 60 + ss) - 62167219200) * second
       + int f"

definition parseRFC3339 :: "string \<Rightarrow> time option" where
  "parseRFC3339 s =
     (if length s < 19 then None
      else case (parse_uint (sub s 0 4) 0 9999, parse_uint (sub s 5 7) 1 12) of
        (Some y, Some m) \<Rightarrow>
          (case (parse_uint (sub s 8 10) 1 (month_lengths y ! (m - 1)), parse_uint (sub s 11 13) 0 23, parse_uint (sub s 14 16) 0 59,
                 parse_uint (sub s 17 19) 0 59) of
             (Some d, Some hh, Some mi, Some ss) \<Rightarrow>
               if s ! 4 = CHR ''-'' \<and> s ! 7 = CHR ''-'' \<and> s ! 10 = CHR ''T'' \<and> s ! 13 = CHR '':'' \<and> s ! 16 = CHR '':''
               then (case parse_frac (drop 19 s) of (f, z) \<Rightarrow>
                       map_option (\<lambda>off. instant y m d hh mi ss f - off * second) (parse_zone z))
               else None
           | _ \<Rightarrow> None)
      | _ \<Rightarrow> None)"

subsection \<open>It is read back\<close>

lemma length_dec [simp]: "length (dec w n) = w"
  by (induction w arbitrary: n) simp_all

lemma dec_digits [simp]: "list_all is_digit (dec w n)"
  by (induction w arbitrary: n) simp_all

lemma dec_value: "n < 10 ^ w \<Longrightarrow> digits_val (dec w n) = n"
proof (induction w arbitrary: n)
  case 0
  then show ?case by (simp add: digits_val_def)
next
  case (Suc w)
  then have "n div 10 < 10 ^ w" by (simp add: less_mult_imp_div_less mult.commute)
  with Suc.IH show ?case by (simp add: digits_val_append)
qed

lemma digits_val_pad: "digits_val (s @ replicate k (CHR ''0'')) = digits_val s * 10 ^ k"
proof (induction k)
  case (Suc k)
  have "replicate (Suc k) (CHR ''0'') = replicate k (CHR ''0'') @ [CHR ''0'']" by (simp add: replicate_append_same)
  then have "digits_val (s @ replicate (Suc k) (CHR ''0'')) = 10 * digits_val (s @ replicate k (CHR ''0'')) + digit_val (CHR ''0'')"
    using digits_val_append [of "s @ replicate k (CHR ''0'')" "CHR ''0''"] by simp
  with Suc show ?case by (simp add: digit_val_def)
qed simp

lemma strip_zeros:
  obtains k where "dec 9 f = rev (dropWhile (\<lambda>c. c = CHR ''0'') (rev (dec 9 f))) @ replicate k (CHR ''0'')"
proof -
  let ?z = "takeWhile (\<lambda>c. c = CHR ''0'') (rev (dec 9 f))"
  have "?z = replicate (length ?z) (CHR ''0'')" by (metis (full_types) set_takeWhileD replicate_length_same)
  then have "rev ?z = replicate (length ?z) (CHR ''0'')" by (metis rev_replicate)
  with that [of "length ?z"] show thesis by (metis rev_append rev_rev_ident takeWhile_dropWhile_id)
qed

lemma parse_frac_text:
  assumes "f < 10 ^ 9"
  shows "parse_frac (frac_text f @ ''Z'') = (f, ''Z'')"
proof (cases "f = 0")
  case False
  define s where "s = rev (dropWhile (\<lambda>c. c = CHR ''0'') (rev (dec 9 f)))"
  obtain k where k: "dec 9 f = s @ replicate k (CHR ''0'')" unfolding s_def by (rule strip_zeros)
  have val: "digits_val s * 10 ^ k = f" using dec_value [OF assms] digits_val_pad [of s k] k by simp
  then have ne: "s \<noteq> []" using False by (auto simp: digits_val_def)
  have len: "length s + k = 9" using arg_cong [OF k, of length] by simp
  have dig: "list_all is_digit s" using dec_digits [of 9 f] k by simp
  then have tw: "takeWhile is_digit (s @ ''Z'') = s" "dropWhile is_digit (s @ ''Z'') = ''Z''"
    by (auto simp: list_all_iff takeWhile_append2 dropWhile_append2 is_digit_def)
  have "is_digit (hd (s @ ''Z''))" using dig ne by (cases s) auto
  moreover have "take 9 s = s" "9 - length s = k" using len by simp_all
  moreover have "frac_text f = CHR ''.'' # s" using False by (simp add: frac_text_def s_def)
  ultimately show ?thesis using ne val tw by (simp add: parse_frac_def Let_def)
qed (simp add: frac_text_def parse_frac_def)

lemma year_start_Suc: "year_start (Suc y) = year_start y + year_days y"
proof -
  have step: "Suc (y + k) div Suc k = (y + k) div Suc k + (if y mod Suc k = 0 then 1 else 0)" for k
  proof -
    have "Suc (y + k) mod Suc k = y mod Suc k" using mod_add_self2 [of y "Suc k"] by simp
    then show ?thesis by (simp add: div_Suc)
  qed
  have four: "(Suc y + 3) div 4 = (y + 3) div 4 + (if y mod 4 = 0 then 1 else 0)" using step [of 3] by simp
  have hund: "(Suc y + 99) div 100 = (y + 99) div 100 + (if y mod 100 = 0 then 1 else 0)" using step [of 99] by simp
  have quad: "(Suc y + 399) div 400 = (y + 399) div 400 + (if y mod 400 = 0 then 1 else 0)" using step [of 399] by simp
  have le: "(y + 99) div 100 \<le> y"
  proof (cases y)
    case (Suc x)
    then have "(y + 99) div 100 = Suc (x div 100)" using div_add_self2 [of 100 x] by simp
    with Suc show ?thesis by simp
  qed simp
  have imp: "y mod 400 = 0 \<Longrightarrow> y mod 100 = 0" "y mod 100 = 0 \<Longrightarrow> y mod 4 = 0"
    using mod_mod_cancel [of 100 400 y] mod_mod_cancel [of 4 100 y] by auto
  show ?thesis using le imp unfolding year_start_def year_days_def leap_def four hund quad by (auto simp: ac_simps)
qed

lemma year_start_mono: "x \<le> y \<Longrightarrow> year_start x \<le> year_start y"
  by (induction y) (auto simp: year_start_Suc le_Suc_eq)

lemma civil_year_split: "civil_year y d = (y', d') \<Longrightarrow> year_start y + d = year_start y' + d' \<and> d' < year_days y'"
proof (induction y d arbitrary: y' d' rule: civil_year.induct)
  case (1 y d)
  show ?case
  proof (cases "d < year_days y")
    case True
    with 1(2) show ?thesis by (simp add: civil_year.simps [of y d])
  next
    case False
    then have "civil_year (Suc y) (d - year_days y) = (y', d')" using 1(2) by (simp add: civil_year.simps [of y d])
    with 1(1) [OF False this] False show ?thesis by (simp add: year_start_Suc)
  qed
qed

lemma civil_month_split:
  "civil_month ls m d = (m', d') \<Longrightarrow> d < sum_list ls \<Longrightarrow>
     \<exists>k < length ls. m' = m + k \<and> d = sum_list (take k ls) + d' \<and> d' < ls ! k"
proof (induction ls arbitrary: m d)
  case (Cons l ls)
  show ?case
  proof (cases "d < l")
    case True
    with Cons.prems show ?thesis by (intro exI [of _ 0]) auto
  next
    case False
    then have "d - l < sum_list ls" using Cons.prems(2) by simp
    then obtain k where "k < length ls" "m' = Suc m + k" "d - l = sum_list (take k ls) + d'" "d' < ls ! k"
      using Cons.IH [of "Suc m" "d - l"] Cons.prems(1) False by auto
    with False show ?thesis by (intro exI [of _ "Suc k"]) auto
  qed
qed simp

lemma month_lengths_sum: "sum_list (month_lengths y) = year_days y" "length (month_lengths y) = 12"
  by (simp_all add: month_lengths_def year_days_def)

lemma month_lengths_short: "k < 12 \<Longrightarrow> month_lengths y ! k < 100"
proof -
  have "list_all (\<lambda>l. l < 100) (month_lengths y)" by (simp add: month_lengths_def)
  then show "k < 12 \<Longrightarrow> month_lengths y ! k < 100" by (simp add: list_all_length month_lengths_sum)
qed

lemma parse_uint_dec: "n < 10 ^ w \<Longrightarrow> lo \<le> n \<Longrightarrow> n \<le> hi \<Longrightarrow> parse_uint (dec w n) lo hi = Some n"
  by (simp add: parse_uint_def dec_value)

lemma parse_rfc_text:
  assumes "y < 10000" and "1 \<le> m" "m \<le> 12" and "1 \<le> d" "d \<le> month_lengths y ! (m - 1)" and "hh < 24" "mi < 60" "ss < 60" and "f < 10 ^ 9"
  shows "parseRFC3339 (rfc_text y m d hh mi ss f) = Some (instant y m d hh mi ss f)"
proof -
  let ?s = "rfc_text y m d hh mi ss f"
  have sub: "sub ?s 0 4 = dec 4 y" "sub ?s 5 7 = dec 2 m" "sub ?s 8 10 = dec 2 d" "sub ?s 11 13 = dec 2 hh" "sub ?s 14 16 = dec 2 mi"
      "sub ?s 17 19 = dec 2 ss" "drop 19 ?s = frac_text f @ ''Z''"
    by (simp_all add: sub_def rfc_text_def)
  have punct: "?s ! 4 = CHR ''-''" "?s ! 7 = CHR ''-''" "?s ! 10 = CHR ''T''" "?s ! 13 = CHR '':''" "?s ! 16 = CHR '':''"
    by (simp_all add: rfc_text_def nth_append nth_Cons')
  have len: "\<not> length ?s < 19" by (simp add: rfc_text_def)
  have "m - 1 < 12" using assms(3) by simp
  then have d: "d < 10 ^ 2" using assms(5) month_lengths_short [of "m - 1" y] by simp
  have num: "parse_uint (dec 4 y) 0 9999 = Some y" "parse_uint (dec 2 m) 1 12 = Some m"
      "parse_uint (dec 2 d) 1 (month_lengths y ! (m - 1)) = Some d" "parse_uint (dec 2 hh) 0 23 = Some hh"
      "parse_uint (dec 2 mi) 0 59 = Some mi" "parse_uint (dec 2 ss) 0 59 = Some ss"
    using assms d by (intro parse_uint_dec; simp)+
  show ?thesis
    unfolding parseRFC3339_def sub num option.case prod.case
    by (simp only: len punct num parse_frac_text [OF assms(9)] if_False if_True option.case prod.case simp_thms) (simp add: parse_zone_def)
qed

lemma time_text_read:
  assumes "json_time_ok t"
  shows "parseRFC3339 (time_text t) = Some t"
proof -
  define n where "n = nat (t + 62167219200 * second)"
  define s where "s = n div 10 ^ 9"
  have n: "int n = t + 62167219200 * second" "n < 315569520000 * 10 ^ 9" using assms by (simp_all add: n_def json_time_ok_def nat_less_iff)
  obtain y yd where y: "civil_year 0 (s div 86400) = (y, yd)" by force
  obtain m md where m: "civil_month (month_lengths y) 1 yd = (m, md)" by force
  have ys: "year_start y + yd = s div 86400" "yd < year_days y"
    using civil_year_split [OF y] by (simp_all add: year_start_def)
  obtain k where k: "k < 12" "m = Suc k" "yd = sum_list (take k (month_lengths y)) + md" "md < month_lengths y ! k"
    using civil_month_split [OF m] ys(2) by (auto simp: month_lengths_sum)
  have "s < 315569520000" using n(2) unfolding s_def by (simp add: less_mult_imp_div_less)
  then have "s div 86400 < 3652425" by (simp add: less_mult_imp_div_less)
  moreover have "year_start 10000 = 3652425" by (simp add: year_start_def)
  ultimately have "y < 10000" using ys(1) year_start_mono [of 10000 y] by (metis add_lessD1 not_le)
  then have parse: "parseRFC3339 (rfc_text y m (md + 1) (s mod 86400 div 3600) (s mod 86400 div 60 mod 60) (s mod 86400 mod 60) (n mod 10 ^ 9))
      = Some (instant y m (md + 1) (s mod 86400 div 3600) (s mod 86400 div 60 mod 60) (s mod 86400 mod 60) (n mod 10 ^ 9))"
    using k by (intro parse_rfc_text) (simp_all add: less_mult_imp_div_less)
  have sod: "s mod 86400 div 3600 * 3600 + s mod 86400 div 60 mod 60 * 60 + s mod 86400 mod 60 = s mod 86400"
  proof -
    define r where "r = s mod 86400"
    have "r div 3600 = r div 60 div 60" by (simp add: div_mult2_eq [symmetric])
    then show ?thesis using div_mult_mod_eq [of "r div 60" 60] div_mult_mod_eq [of r 60] unfolding r_def [symmetric] by linarith
  qed
  have "(year_start y + sum_list (take (m - 1) (month_lengths y)) + (md + 1 - 1)) * 86400 + s mod 86400 = s"
    using ys(1) k(2,3) div_mult_mod_eq [of s 86400] by (metis add_diff_cancel_right' add.assoc diff_Suc_1)
  then have "instant y m (md + 1) (s mod 86400 div 3600) (s mod 86400 div 60 mod 60) (s mod 86400 mod 60) (n mod 10 ^ 9)
      = (int s - 62167219200) * second + int (n mod 10 ^ 9)"
    unfolding instant_def using sod by (simp add: add.assoc)
  also have "\<dots> = int n - 62167219200 * second" unfolding s_def by (simp add: zdiv_int zmod_int algebra_simps)
  finally show ?thesis
    unfolding time_text_def Let_def n_def [symmetric] s_def [symmetric] using parse n(1) by (simp add: y m [unfolded One_nat_def])
qed

lemma digit_plain: "is_digit c \<Longrightarrow> plain_char c"
  unfolding is_digit_def plain_char_def by auto

lemma frac_text_plain: "list_all plain_char (frac_text f)"
proof -
  have "set (frac_text f) \<subseteq> insert (CHR ''.'') (set (dec 9 f))"
    unfolding frac_text_def using set_dropWhileD [of _ "\<lambda>c. c = CHR ''0''" "rev (dec 9 f)"] by auto
  moreover have "plain_char (CHR ''.'')" by (simp add: plain_char_def)
  ultimately show ?thesis using dec_digits [of 9 f] digit_plain unfolding list_all_iff by blast
qed

lemma dec_plain: "list_all plain_char (dec w n)"
  using dec_digits [of w n] digit_plain unfolding list_all_iff by blast

lemma time_text_plain: "list_all plain_char (time_text t)"
proof -
  have "plain_char (CHR ''-'')" "plain_char (CHR ''T'')" "plain_char (CHR '':'')" "plain_char (CHR ''Z'')" by (simp_all add: plain_char_def)
  then show ?thesis by (simp add: time_text_def Let_def rfc_text_def dec_plain frac_text_plain split: prod.split)
qed

section \<open>Reading a field\<close>

text \<open>\<open>Time.UnmarshalJSON\<close> looks at the raw text between the quotes.\<close>

definition read_time :: "json_env \<Rightarrow> string \<Rightarrow> time option" where
  "read_time env raw = (case parseRFC3339 raw of Some t \<Rightarrow> Some t | None \<Rightarrow> je_Parse env raw)"

definition read_field :: "json_env \<Rightarrow> fkind \<Rightarrow> json \<Rightarrow> fval \<Rightarrow> fval option" where
  "read_field env k v old =
     (case v of
        JNull \<Rightarrow> Some old
      | JStr raw \<Rightarrow>
          (case k of
             FString \<Rightarrow> Some (VText (unquote raw))
           | FUUID \<Rightarrow> map_option VText (je_uuid env (unquote raw))
           | FTime \<Rightarrow> map_option VTime (read_time env raw))
      | _ \<Rightarrow> None)"

definition zero_val :: "fkind \<Rightarrow> fval" where
  "zero_val k = (case k of FString \<Rightarrow> VText [] | FUUID \<Rightarrow> VText ''00000000-0000-0000-0000-000000000000'' | FTime \<Rightarrow> VTime zero_time)"

fun decode_members ::
    "json_env \<Rightarrow> (string \<times> fkind) list \<Rightarrow> (string \<times> json) list \<Rightarrow> (string \<times> fval) list \<Rightarrow> (string \<times> fval) list option" where
  "decode_members env fs [] vals = Some vals"
| "decode_members env fs ((rawk, v) # ms) vals =
     (case find_field fs (unquote rawk) of
        None \<Rightarrow> decode_members env fs ms vals
      | Some (name, k) \<Rightarrow>
          (case read_field env k v (case map_of vals name of Some x \<Rightarrow> x | None \<Rightarrow> zero_val k) of
             None \<Rightarrow> None
           | Some x \<Rightarrow> decode_members env fs ms (AList.update name x vals)))"

text \<open>Into a fresh struct; a field of the wrong type makes the whole call an error.\<close>

definition decode_struct :: "json_env \<Rightarrow> (string \<times> fkind) list \<Rightarrow> json \<Rightarrow> (string \<times> fval) list option" where
  "decode_struct env fs v =
     (let zeros = map (\<lambda>(n, k). (n, zero_val k)) fs
      in case v of JObj ms \<Rightarrow> decode_members env fs ms zeros | JNull \<Rightarrow> Some zeros | _ \<Rightarrow> None)"

text \<open>\<open>json.Unmarshal\<close> refuses text after the value; \<open>Decoder.Decode\<close> leaves it unread.\<close>

definition json_Unmarshal :: "json_env \<Rightarrow> (string \<times> fkind) list \<Rightarrow> string \<Rightarrow> (string \<times> fval) list option" where
  "json_Unmarshal env fs s =
     (case json_scan s of
        None \<Rightarrow> None
      | Some (v, rest) \<Rightarrow> if skip_ws rest = [] then decode_struct env fs v else None)"

definition json_Decode :: "json_env \<Rightarrow> (string \<times> fkind) list \<Rightarrow> string \<Rightarrow> (string \<times> fval) list option" where
  "json_Decode env fs s = (case json_scan s of None \<Rightarrow> None | Some (v, rest) \<Rightarrow> decode_struct env fs v)"

definition text_of :: "(string \<times> fval) list \<Rightarrow> string \<Rightarrow> string" where
  "text_of vals name = (case map_of vals name of Some (VText s) \<Rightarrow> s | _ \<Rightarrow> [])"

definition time_of :: "(string \<times> fval) list \<Rightarrow> string \<Rightarrow> time" where
  "time_of vals name = (case map_of vals name of Some (VTime t) \<Rightarrow> t | _ \<Rightarrow> zero_time)"

subsection \<open>What was encoded is decoded\<close>

lemma find_field_exact: "map_of fs k = Some kind \<Longrightarrow> utf8 k \<Longrightarrow> find_field fs (unquote (quote_body k)) = Some (k, kind)"
  by (simp add: find_field_def unquote_quote_body)

lemma read_string_back: "utf8 v \<Longrightarrow> read_field env FString (JStr (quote_body v)) old = Some (VText v)"
  by (simp add: read_field_def unquote_quote_body)

lemma read_uuid_back: "utf8 v \<Longrightarrow> je_uuid env v = Some v \<Longrightarrow> read_field env FUUID (JStr (quote_body v)) old = Some (VText v)"
  by (simp add: read_field_def unquote_quote_body)

lemma read_time_back: "json_time_ok t \<Longrightarrow> read_field env FTime (JStr (quote_body (time_text t))) old = Some (VTime t)"
  using quote_body_plain [OF time_text_plain, of t] by (simp add: read_field_def read_time_def time_text_read)

lemma time_text_utf8: "utf8 (time_text t)"
  using quote_body_plain [OF time_text_plain, of t] by simp

lemma decode_members_Cons:
  "map_of fs k = Some kind \<Longrightarrow> utf8 k \<Longrightarrow> (\<And>old. read_field env kind (JStr (quote_body v)) old = Some x) \<Longrightarrow>
     decode_members env fs (raw_members ((k, v) # kvs)) vals = decode_members env fs (raw_members kvs) (AList.update k x vals)"
  by (simp add: raw_members_def find_field_exact)

lemma decode_members_Nil: "decode_members env fs (raw_members []) vals = Some vals"
  by (simp add: raw_members_def)

text \<open>A name that is no field is skipped.\<close>

lemma decode_members_skip:
  "find_field fs k = None \<Longrightarrow> utf8 k \<Longrightarrow>
     decode_members env fs (raw_members ((k, v) # kvs)) vals = decode_members env fs (raw_members kvs) vals"
  by (simp add: raw_members_def unquote_quote_body)

lemma Unmarshal_string_object:
  "kvs \<noteq> [] \<Longrightarrow> list_all (\<lambda>(k, v). utf8 k \<and> utf8 v) kvs \<Longrightarrow> skip_ws rest = [] \<Longrightarrow>
     json_Unmarshal env fs (string_object kvs @ rest) = decode_members env fs (raw_members kvs) (map (\<lambda>(n, k). (n, zero_val k)) fs)"
  by (simp add: json_Unmarshal_def scan_string_object decode_struct_def)

lemma Decode_string_object:
  "kvs \<noteq> [] \<Longrightarrow> list_all (\<lambda>(k, v). utf8 k \<and> utf8 v) kvs \<Longrightarrow>
     json_Decode env fs (string_object kvs @ rest) = decode_members env fs (raw_members kvs) (map (\<lambda>(n, k). (n, zero_val k)) fs)"
  by (simp add: json_Decode_def scan_string_object decode_struct_def)

end
