(* ===== verification/Api.thy ===== *)
theory Api
  imports Scheduler Quote_Repo Json
begin

text \<open>
  The HTTP handlers, \<open>internal/api/server.go\<close>, with the response types of
  \<open>internal/api/oapi_gen.go\<close>. A response is a status, the headers in the order they were set and
  a body kept as a tree, whose JSON text is in theory \<open>Job_Status\<close>; the request body is JSON text, read by the decoder of
  theory \<open>Json\<close>. \<open>uuid.Parse\<close>, \<open>Decimal.String\<close> and the id generator are fields of \<open>api_env\<close>. The lemmas about
  the queue are proved in the context of \<open>job_queue\<close>.
\<close>

section \<open>Requests and responses\<close>

datatype error_code = Internal | InvalidRequest | NoData | NotFound | UnsupportedCurrency | UpstreamUnavailable

fun error_code_text :: "error_code \<Rightarrow> string" where
  "error_code_text Internal = ''internal''"
| "error_code_text InvalidRequest = ''invalid_request''"
| "error_code_text NoData = ''no_data''"
| "error_code_text NotFound = ''not_found''"
| "error_code_text UnsupportedCurrency = ''unsupported_currency''"
| "error_code_text UpstreamUnavailable = ''upstream_unavailable''"

datatype body =
    NoBody
  | ErrorBody (err_code: error_code) (err_message: string)
  | RefreshAccepted (acc_id: string)
  | JobStatusPending (pend_id: string) (pend_status: string)
  | JobStatusDone (done_base: string) (done_id: string) (done_body_price: string) (done_quote: string) (done_status: string)
      (done_updated_at: time)
  | JobStatusFailed (fail_base: string) (fail_completed_at: time) (fail_error: string) (fail_id: string) (fail_quote: string)
      (fail_status: string)
  | LatestQuote (lat_base: string) (lat_price: string) (lat_quote: string) (lat_updated_at: time)

record request =
  rq_ContentType :: string
  rq_IfNoneMatch :: string
  rq_Body :: string

record response =
  rs_status :: int
  rs_headers :: "(string \<times> string) list"
  rs_body :: body

record ('d, 'g) api_env =
  ae_whitelist :: "string list"
  ae_coalescingWindow :: duration
  ae_newid :: "'g \<Rightarrow> string \<times> 'g"
  ae_uuid_Parse :: "string \<Rightarrow> string \<times> bool"
  ae_decimal_String :: "'d \<Rightarrow> string"

definition set_header :: "string \<Rightarrow> string \<Rightarrow> (string \<times> string) list \<Rightarrow> (string \<times> string) list" where
  "set_header k v hs = AList.update k v hs"

definition writeError :: "(string \<times> string) list \<Rightarrow> int \<Rightarrow> error_code \<Rightarrow> string \<Rightarrow> response" where
  "writeError hs status code msg =
     \<lparr>rs_status = status,
      rs_headers = set_header ''Cache-Control'' ''no-store'' (set_header ''Content-Type'' ''application/json'' hs),
      rs_body = ErrorBody code msg\<rparr>"

definition JSONErrorHandler :: "error \<Rightarrow> response" where
  "JSONErrorHandler err = writeError [] 400 InvalidRequest (Error err)"

section \<open>Validation\<close>

definition pairFormatRE :: "string \<Rightarrow> bool" where
  "pairFormatRE s \<longleftrightarrow> length s = 3 \<and> list_all (\<lambda>c. 65 \<le> (of_char c :: nat) \<and> (of_char c :: nat) \<le> 90) s"

definition validatePair :: "string list \<Rightarrow> string \<Rightarrow> string \<Rightarrow> (int \<times> error_code \<times> string) option" where
  "validatePair whitelist base quote =
     (if \<not> pairFormatRE base \<or> \<not> pairFormatRE quote
      then Some (400, InvalidRequest, ''base and quote must be 3 uppercase letters'')
      else if base \<notin> set whitelist \<or> quote \<notin> set whitelist
      then Some (400, UnsupportedCurrency, ''currency not supported'')
      else if base = quote then Some (400, InvalidRequest, ''base and quote must differ'')
      else None)"

section \<open>POST /quotes/refresh\<close>

text \<open>The request body, decoded into a fresh \<open>RefreshRequest\<close>. Its fields are strings, so the environment of the decoder
  plays no part.\<close>

definition decode_refresh :: "string \<Rightarrow> (string \<times> string) option" where
  "decode_refresh s =
     map_option (\<lambda>vals. (text_of vals ''base'', text_of vals ''quote''))
       (json_Decode \<lparr>je_uuid = (\<lambda>u. None), je_Parse = (\<lambda>u. None)\<rparr> [(''base'', FString), (''quote'', FString)] s)"

definition refresh_text :: "string \<Rightarrow> string \<Rightarrow> string" where
  "refresh_text base quote = string_object [(''base'', base), (''quote'', quote)]"

lemma ascii_utf8: "list_all plain_char s \<Longrightarrow> utf8 s"
  using quote_body_plain by blast

lemma decode_refresh_text:
  assumes "utf8 base" and "utf8 quote"
  shows "decode_refresh (refresh_text base quote @ rest) = Some (base, quote)"
proof -
  have k: "utf8 ''base''" "utf8 ''quote''" by (intro ascii_utf8; simp add: plain_char_def)+
  then show ?thesis
    using assms by (simp add: decode_refresh_def refresh_text_def Decode_string_object decode_members_Cons decode_members_Nil read_string_back text_of_def)
qed

definition refresh_job :: "string \<Rightarrow> string \<Rightarrow> string \<Rightarrow> string \<Rightarrow> time \<Rightarrow> job" where
  "refresh_job jid base quote key now = \<lparr>job_ID = jid, job_Base = base, job_Quote = quote, job_DedupKey = key,
     job_Attempts = 0, job_NextRunAt = now, job_Source = ''refresh'', job_CreatedAt = zero_time\<rparr>"

definition accepted_response :: "string \<Rightarrow> response" where
  "accepted_response jid =
     \<lparr>rs_status = 202,
      rs_headers = set_header ''Cache-Control'' ''no-store'' (set_header ''Location'' (''/quotes/'' @ jid)
                     (set_header ''Content-Type'' ''application/json'' [])),
      rs_body = RefreshAccepted jid\<rparr>"

definition RefreshQuote ::
    "('s, 'd) queue_ops \<Rightarrow> ('d, 'g) api_env \<Rightarrow> request \<Rightarrow> 's \<Rightarrow> 'g \<Rightarrow> world \<Rightarrow> response res \<times> 's \<times> 'g \<times> world" where
  "RefreshQuote qops env rq s g w =
     (if \<not> contains_sub (rq_ContentType rq) ''application/json''
      then (Ok (writeError [] 400 InvalidRequest ''Content-Type must be application/json''), s, g, w)
      else case decode_refresh (rq_Body rq) of
        None \<Rightarrow> (Ok (writeError [] 400 InvalidRequest ''invalid JSON body''), s, g, w)
      | Some (base, quote) \<Rightarrow>
          (case validatePair (ae_whitelist env) base quote of
             Some (status, code, msg) \<Rightarrow> (Ok (writeError [] status code msg), s, g, w)
           | None \<Rightarrow>
               let now = Now w; w1 = tick w
               in case ae_newid env g of (jid, g1) \<Rightarrow>
                 (case DedupKey base quote now (ae_coalescingWindow env) of
                    Panic m \<Rightarrow> (Panic m, s, g1, w1)
                  | Ok key \<Rightarrow>
                      (case Enqueue qops (refresh_job jid base quote key now) s w1 of
                         (Inl err, s2, w2) \<Rightarrow> (Ok (writeError [] 500 Internal ''could not enqueue refresh job''), s2, g1, w2)
                       | (Inr (returnedID, created), s2, w2) \<Rightarrow>
                           (case ae_uuid_Parse env returnedID of
                              (idStr, False) \<Rightarrow> (Ok (writeError [] 500 Internal ''could not enqueue refresh job''), s2, g1, w2)
                            | (idStr, True) \<Rightarrow> (Ok (accepted_response idStr), s2, g1, w2))))))"

section \<open>GET /quotes/{id}\<close>

definition renderPending :: "('d, 'g) api_env \<Rightarrow> 'd job_view \<Rightarrow> response" where
  "renderPending env view =
     \<lparr>rs_status = 200,
      rs_headers = set_header ''Retry-After'' ''1'' (set_header ''Cache-Control'' ''no-store''
                     (set_header ''Content-Type'' ''application/json'' [])),
      rs_body = JobStatusPending (fst (ae_uuid_Parse env (jv_ID view))) ''pending''\<rparr>"

definition terminal_headers :: "string \<Rightarrow> (string \<times> string) list" where
  "terminal_headers etag =
     set_header ''ETag'' etag (set_header ''Cache-Control'' ''private, max-age=3600, immutable'' [])"

definition done_etag :: "string \<Rightarrow> string" where
  "done_etag jid = [CHR 0x22] @ jid @ ''-done'' @ [CHR 0x22]"

definition failed_etag :: "string \<Rightarrow> string" where
  "failed_etag jid = [CHR 0x22] @ jid @ ''-failed'' @ [CHR 0x22]"

definition renderDone :: "('d, 'g) api_env \<Rightarrow> request \<Rightarrow> 'd job_view \<Rightarrow> response res" where
  "renderDone env rq view =
     (let etag = done_etag (jv_ID view); hs = terminal_headers etag
      in if rq_IfNoneMatch rq = etag then Ok \<lparr>rs_status = 304, rs_headers = hs, rs_body = NoBody\<rparr>
         else case (jv_Price view, jv_QuoteUpdatedAt view) of
           (Some price, Some updatedAt) \<Rightarrow>
             if \<not> json_time_ok updatedAt then Ok (writeError hs 500 Internal ''could not build response'')
             else Ok \<lparr>rs_status = 200, rs_headers = set_header ''Content-Type'' ''application/json'' hs,
                      rs_body = JobStatusDone (jv_Base view) (fst (ae_uuid_Parse env (jv_ID view)))
                        (ae_decimal_String env price) (jv_Quote view) ''done'' updatedAt\<rparr>
         | _ \<Rightarrow> Panic ''invalid memory address or nil pointer dereference'')"

definition renderFailed :: "('d, 'g) api_env \<Rightarrow> request \<Rightarrow> 'd job_view \<Rightarrow> response res" where
  "renderFailed env rq view =
     (let etag = failed_etag (jv_ID view); hs = terminal_headers etag
      in if rq_IfNoneMatch rq = etag then Ok \<lparr>rs_status = 304, rs_headers = hs, rs_body = NoBody\<rparr>
         else case jv_CompletedAt view of
           Some completedAt \<Rightarrow>
             if \<not> json_time_ok completedAt then Ok (writeError hs 500 Internal ''could not build response'')
             else Ok \<lparr>rs_status = 200, rs_headers = set_header ''Content-Type'' ''application/json'' hs,
                      rs_body = JobStatusFailed (jv_Base view) completedAt (jv_LastError view)
                        (fst (ae_uuid_Parse env (jv_ID view))) (jv_Quote view) ''failed''\<rparr>
         | None \<Rightarrow> Panic ''invalid memory address or nil pointer dereference'')"

definition render_view :: "('d, 'g) api_env \<Rightarrow> request \<Rightarrow> 'd job_view \<Rightarrow> response res" where
  "render_view env rq view =
     (let apiStatus = (if jv_Status view = ''running'' then ''pending'' else jv_Status view)
      in if apiStatus = ''pending'' then Ok (renderPending env view)
         else if apiStatus = ''done'' then renderDone env rq view
         else if apiStatus = ''failed'' then renderFailed env rq view
         else Ok (writeError [] 500 Internal ''unknown job status''))"

definition GetQuoteJob ::
    "('s, 'd) queue_ops \<Rightarrow> ('d, 'g) api_env \<Rightarrow> request \<Rightarrow> string \<Rightarrow> 's \<Rightarrow> world \<Rightarrow> response res \<times> 's \<times> world" where
  "GetQuoteJob qops env rq jid s w =
     (case GetByID qops jid s w of
        (Inl err, s1, w1) \<Rightarrow>
          if errors_Is err ErrNotFound then (Ok (writeError [] 404 NotFound ''job not found''), s1, w1)
          else (Ok (writeError [] 500 Internal ''could not load job''), s1, w1)
      | (Inr view, s1, w1) \<Rightarrow> (render_view env rq view, s1, w1))"

section \<open>GET /quotes/latest\<close>

definition latest_etag :: "string \<Rightarrow> string \<Rightarrow> time \<Rightarrow> string" where
  "latest_etag base quote t = [CHR 0x22] @ base @ ''-'' @ quote @ ''-'' @ show_int (Unix t) @ [CHR 0x22]"

text \<open>When the timestamp has no JSON form the encoder fails after the status line, and its error
  is dropped: the body stays empty.\<close>

definition GetLatestQuote ::
    "('r, 'd) repo_ops \<Rightarrow> ('d, 'g) api_env \<Rightarrow> request \<Rightarrow> string \<Rightarrow> string \<Rightarrow> 'r \<Rightarrow> world \<Rightarrow> response \<times> 'r \<times> world" where
  "GetLatestQuote rops env rq base quote r w =
     (case validatePair (ae_whitelist env) base quote of
        Some (status, code, msg) \<Rightarrow> (writeError [] status code msg, r, w)
      | None \<Rightarrow>
          (case GetLatest rops base quote r w of
             (Inl err, r1, w1) \<Rightarrow>
               if errors_Is err ErrNoData then (writeError [] 404 NoData ''no successful quote yet'', r1, w1)
               else (writeError [] 500 Internal ''could not load latest quote'', r1, w1)
           | (Inr q, r1, w1) \<Rightarrow>
               let etag = latest_etag base quote (quo_FetchedAt q);
                   hs = set_header ''ETag'' etag (set_header ''Cache-Control''
                          (''public, max-age='' @ show_int (int_Seconds (ae_coalescingWindow env))) [])
               in if rq_IfNoneMatch rq = etag then (\<lparr>rs_status = 304, rs_headers = hs, rs_body = NoBody\<rparr>, r1, w1)
                  else (\<lparr>rs_status = 200, rs_headers = set_header ''Content-Type'' ''application/json'' hs,
                         rs_body = (if json_time_ok (quo_FetchedAt q)
                                    then LatestQuote base (ae_decimal_String env (quo_Price q)) quote (quo_FetchedAt q)
                                    else NoBody)\<rparr>, r1, w1)))"

section \<open>Validation\<close>

definition valid_pair :: "string list \<Rightarrow> string \<Rightarrow> string \<Rightarrow> bool" where
  "valid_pair wl base quote \<longleftrightarrow> pairFormatRE base \<and> pairFormatRE quote \<and> base \<in> set wl \<and> quote \<in> set wl \<and> base \<noteq> quote"

lemma validatePair_None: "validatePair wl base quote = None \<longleftrightarrow> valid_pair wl base quote"
  by (auto simp: validatePair_def valid_pair_def)

lemma validatePair_status: "validatePair wl base quote = Some (st, c, m) \<Longrightarrow> st = 400 \<and> (c = InvalidRequest \<or> c = UnsupportedCurrency)"
  by (auto simp: validatePair_def split: if_splits)

section \<open>The page of a job\<close>

text \<open>What the endpoint shows of a job in an abstract state.\<close>

definition job_page :: "('d, 'g) api_env \<Rightarrow> ('d \<Rightarrow> 'd) \<Rightarrow> request \<Rightarrow> string \<Rightarrow> 'd arec \<Rightarrow> response" where
  "job_page env rb rq jid r =
     (let shown = fst (ae_uuid_Parse env jid)
      in case ar_state r of
           Done t p u \<Rightarrow>
             (if rq_IfNoneMatch rq = done_etag jid then \<lparr>rs_status = 304, rs_headers = terminal_headers (done_etag jid), rs_body = NoBody\<rparr>
              else if \<not> json_time_ok u then writeError (terminal_headers (done_etag jid)) 500 Internal ''could not build response''
              else \<lparr>rs_status = 200, rs_headers = set_header ''Content-Type'' ''application/json'' (terminal_headers (done_etag jid)),
                    rs_body = JobStatusDone (ar_base r) shown (ae_decimal_String env (rb p)) (ar_quote r) ''done'' u\<rparr>)
         | Failed t e \<Rightarrow>
             (if rq_IfNoneMatch rq = failed_etag jid then \<lparr>rs_status = 304, rs_headers = terminal_headers (failed_etag jid), rs_body = NoBody\<rparr>
              else if \<not> json_time_ok t then writeError (terminal_headers (failed_etag jid)) 500 Internal ''could not build response''
              else \<lparr>rs_status = 200, rs_headers = set_header ''Content-Type'' ''application/json'' (terminal_headers (failed_etag jid)),
                    rs_body = JobStatusFailed (ar_base r) t e shown (ar_quote r) ''failed''\<rparr>)
         | _ \<Rightarrow> \<lparr>rs_status = 200,
                  rs_headers = set_header ''Retry-After'' ''1'' (set_header ''Cache-Control'' ''no-store''
                                 (set_header ''Content-Type'' ''application/json'' [])),
                  rs_body = JobStatusPending shown ''pending''\<rparr>)"

lemma render_view_page:
  assumes "view_matches rb jid r v" and "\<forall>t e. ar_state r = Failed t e \<longrightarrow> \<not> IsZero t"
  shows "render_view env rq v = Ok (job_page env rb rq jid r)"
proof (cases "ar_state r")
  case Pending
  with assms show ?thesis by (simp add: view_matches_def render_view_def job_page_def renderPending_def)
next
  case (Running l)
  with assms show ?thesis by (simp add: view_matches_def render_view_def job_page_def renderPending_def)
next
  case (Done t p u)
  with assms show ?thesis by (simp add: view_matches_def render_view_def job_page_def renderDone_def)
next
  case (Failed t e)
  with assms show ?thesis by (simp add: view_matches_def render_view_def job_page_def renderFailed_def)
qed

context job_queue
begin

text \<open>\<open>GET /quotes/{id}\<close> shows the page of the job, says 404 for an unknown one, and answers 500
  only when the store failed; it never changes the queue.\<close>

lemma get_job_page:
  assumes "invar s" and "ok_id jid" and "\<forall>r t e. absq s jid = Some r \<and> ar_state r = Failed t e \<longrightarrow> \<not> IsZero t"
    and "GetQuoteJob ops env rq jid s w = (out, s', w')"
  shows "invar s' \<and> absq s' = absq s
    \<and> (out = Ok (writeError [] 500 Internal ''could not load job'') \<and> (\<exists>e. fst (GetByID ops jid s w) = Inl e \<and> is_io e)
       \<or> (case absq s jid of
            None \<Rightarrow> out = Ok (writeError [] 404 NotFound ''job not found'')
          | Some r \<Rightarrow> out = Ok (job_page env readback rq jid r)))"
proof -
  obtain g s1 w1 where g: "GetByID ops jid s w = (g, s1, w1)" by (metis prod_cases3)
  note law = get_law [OF assms(1,2) g]
  show ?thesis
  proof (cases g)
    case (Inl e)
    have io: "is_io e \<Longrightarrow> \<not> errors_Is e ErrNotFound" using is_io_not_sentinel by blast
    have no: "\<not> is_io e \<Longrightarrow> absq s jid = None \<and> errors_Is e ErrNotFound"
      using law Inl by (simp add: view_spec_def)
    show ?thesis
      using assms(4) g Inl law io no by (cases "is_io e") (auto simp: GetQuoteJob_def)
  next
    case (Inr v)
    then obtain r where r: "absq s jid = Some r" "view_matches readback jid r v" using law by (auto simp: view_spec_def)
    have "render_view env rq v = Ok (job_page env readback rq jid r)"
      by (rule render_view_page [OF r(2)]) (use assms(3) r(1) in blast)
    with assms(4) g Inr law r(1) show ?thesis by (auto simp: GetQuoteJob_def)
  qed
qed

text \<open>Once a job is terminal its page never changes, whatever is called in between.\<close>

lemma terminal_page_stable:
  assumes "invar s" and "ok_id jid" and "absq s jid = Some r" and "is_terminal (ar_state r)"
    and "\<forall>t e. ar_state r = Failed t e \<longrightarrow> \<not> IsZero t"
    and "wf_calls ops absq ok_id cs s w" and "exec_calls ops cs s w = (js, s1, w1)"
    and "GetQuoteJob ops env rq jid s1 w1 = (out, s2, w2)"
  shows "out = Ok (job_page env readback rq jid r)
     \<or> out = Ok (writeError [] 500 Internal ''could not load job'') \<and> (\<exists>e. fst (GetByID ops jid s1 w1) = Inl e \<and> is_io e)"
proof -
  have s1: "invar s1" "absq s1 jid = Some r"
    using calls_keep_job [OF assms(1,6,7,3)] assms(4) by auto
  from get_job_page [OF s1(1) assms(2) _ assms(8)] s1(2) assms(5) show ?thesis by auto
qed

text \<open>\<open>POST /quotes/refresh\<close> with a valid body: accepted, with the id of the one job that carries
  the key of the pair and the window.\<close>

lemma refresh_accepted:
  assumes "invar s" and "quiet s" and "second \<le> ae_coalescingWindow env"
    and "contains_sub (rq_ContentType rq) ''application/json''" and "decode_refresh (rq_Body rq) = Some (base, quote)"
    and "valid_pair (ae_whitelist env) base quote"
    and "fst (ae_newid env g) \<notin> dom (absq s)" and "\<And>key. ok_job (refresh_job (fst (ae_newid env g)) base quote key (Now w))"
    and "\<forall>i. i \<in> insert (fst (ae_newid env g)) (dom (absq s)) \<longrightarrow> ae_uuid_Parse env i = (i, True)"
    and "RefreshQuote ops env rq s g w = (out, s', g', w')"
  shows "\<exists>key jid r. DedupKey base quote (Now w) (ae_coalescingWindow env) = Ok key \<and> out = Ok (accepted_response jid)
    \<and> invar s' \<and> quiet s' \<and> kept (absq s) (absq s') \<and> absq s' jid = Some r \<and> ar_dedup r = key
    \<and> jid \<in> insert (fst (ae_newid env g)) (dom (absq s))
    \<and> (keyed (absq s) key \<longrightarrow> absq s' = absq s)
    \<and> (\<not> keyed (absq s) key \<longrightarrow> ar_state r = Pending \<and> ar_base r = base \<and> ar_quote r = quote
         \<and> jid = fst (ae_newid env g) \<and> absq s' = (absq s)(jid \<mapsto> r))
    \<and> g' = snd (ae_newid env g)"
proof -
  have "bucket_secs (ae_coalescingWindow env) \<noteq> 0" using assms(3) by (simp add: bucket_secs_zero)
  then obtain key where key: "DedupKey base quote (Now w) (ae_coalescingWindow env) = Ok key" by (auto simp: DedupKey_def)
  let ?jid = "fst (ae_newid env g)"
  let ?j = "refresh_job ?jid base quote key (Now w)"
  obtain o1 s1 w1 where enq: "Enqueue ops ?j s (tick w) = (o1, s1, w1)" by (metis prod_cases3)
  have j: "job_ID ?j = ?jid" "job_DedupKey ?j = key" "valid_source (job_Source ?j)" "key \<noteq> []"
    using DedupKey_nonempty [OF key] by (simp_all add: refresh_job_def valid_source_def)
  have fresh: "job_ID ?j \<notin> dom (absq s)" using assms(7) j by simp
  note frame = enqueue_frame [OF assms(1) fresh enq]
  note spec = enqueue_law [OF assms(1) fresh assms(8) enq]
  note qt = enqueue_quiet [OF assms(2,1) fresh assms(8) enq]
  obtain i b where o1: "o1 = Inr (i, b)" using spec qt j by (cases o1) (auto simp: enqueue_spec_def)
  have hit: "\<exists>r. absq s1 i = Some r \<and> ar_dedup r = key
      \<and> (\<not> keyed (absq s) key \<longrightarrow> ar_state r = Pending \<and> ar_base r = base \<and> ar_quote r = quote
           \<and> i = ?jid \<and> absq s1 = (absq s)(i \<mapsto> r))"
  proof (cases b)
    case True
    then show ?thesis using spec o1 j(1,2) by (simp add: enqueue_spec_def new_arec_def refresh_job_def)
  next
    case False
    then show ?thesis using spec o1 j(2) by (auto simp: enqueue_spec_def keyed_def)
  qed
  have old: "keyed (absq s) key \<longrightarrow> absq s1 = absq s" and dom: "i \<in> insert ?jid (dom (absq s))"
    using spec o1 j by (cases b; auto simp: enqueue_spec_def keyed_def)+
  have "ae_uuid_Parse env i = (i, True)" using assms(9) dom by blast
  then have "out = Ok (accepted_response i)" "s' = s1" "g' = snd (ae_newid env g)"
    using assms(4-6,10) key enq o1 by (simp_all add: RefreshQuote_def validatePair_None [symmetric] Let_def split: prod.splits)
  moreover obtain r where "absq s1 i = Some r" "ar_dedup r = key"
      "\<not> keyed (absq s) key \<longrightarrow> ar_state r = Pending \<and> ar_base r = base \<and> ar_quote r = quote \<and> i = ?jid \<and> absq s1 = (absq s)(i \<mapsto> r)"
    using hit by blast
  ultimately show ?thesis
    using key old dom frame qt unfolding kept_def
    by - (rule exI [of _ key], rule exI [of _ i], rule exI [of _ r], simp)
qed

end

section \<open>Properties\<close>

definition sample_api :: "(int, seq_gen) api_env" where
  "sample_api = \<lparr>ae_whitelist = [''USD'', ''EUR'', ''MXN''], ae_coalescingWindow = 30 * second, ae_newid = SeqNewID,
     ae_uuid_Parse = (\<lambda>i. (i, True)), ae_decimal_String = show_int\<rparr>"

definition sample_request :: "string \<Rightarrow> request" where
  "sample_request b = \<lparr>rq_ContentType = ''application/json'', rq_IfNoneMatch = [], rq_Body = b\<rparr>"

text \<open>A valid refresh over Postgres; the end-to-end statement about the server rests on it.\<close>

lemma pg_refresh_accepted:
  assumes "pg_invar db" and "pg_quiet db" and "second \<le> ae_coalescingWindow env"
    and "contains_sub (rq_ContentType rq) ''application/json''" and "decode_refresh (rq_Body rq) = Some (base, quote)"
    and "valid_pair (ae_whitelist env) base quote"
    and "fst (ae_newid env g) \<notin> dom (pg_abs db)" and "pe_uuid genv (fst (ae_newid env g)) = Some (fst (ae_newid env g))"
    and "\<forall>i. i \<in> insert (fst (ae_newid env g)) (dom (pg_abs db)) \<longrightarrow> ae_uuid_Parse env i = (i, True)"
    and "RefreshQuote (pg_ops genv) env rq db g w = (out, db', g', w')"
  shows "\<exists>key jid r. DedupKey base quote (Now w) (ae_coalescingWindow env) = Ok key \<and> out = Ok (accepted_response jid)
    \<and> pg_invar db' \<and> pg_quiet db' \<and> kept (pg_abs db) (pg_abs db') \<and> pg_abs db' jid = Some r \<and> ar_dedup r = key
    \<and> jid \<in> insert (fst (ae_newid env g)) (dom (pg_abs db))
    \<and> (keyed (pg_abs db) key \<longrightarrow> pg_abs db' = pg_abs db)
    \<and> (\<not> keyed (pg_abs db) key \<longrightarrow> ar_state r = Pending \<and> ar_base r = base \<and> ar_quote r = quote
         \<and> jid = fst (ae_newid env g) \<and> pg_abs db' = (pg_abs db)(jid \<mapsto> r))
    \<and> g' = snd (ae_newid env g)"
proof (rule pg.refresh_accepted [OF assms(1-7) _ assms(9,10)])
  show "pg_ok_job genv (refresh_job (fst (ae_newid env g)) base quote key (Now w))" for key
    using assms(6,8) by (simp add: pg_ok_job_def refresh_job_def valid_pair_def pairFormatRE_def)
qed

text \<open>The only counter it can move is the one of collapsed requests.\<close>

lemma pg_Enqueue_counters:
  "pg_Enqueue genv j db w = (out, db', w') \<Longrightarrow> name \<noteq> MetricCoalescingCollapsedTotal \<Longrightarrow> counter name l w' = counter name l w"
  unfolding pg_Enqueue_def Let_def by (auto split: if_splits prod.splits sum.splits bool.splits option.splits)

lemma pg_refresh_counters:
  assumes "RefreshQuote (pg_ops genv) env rq db g w = (out, db', g', w')" and "name \<noteq> MetricCoalescingCollapsedTotal"
  shows "counter name l w' = counter name l w"
proof -
  have "w' = w \<or> w' = tick w \<or> (\<exists>j r. pg_Enqueue genv j db (tick w) = (r, db', w'))"
    using assms(1) unfolding RefreshQuote_def Let_def op_defs
    by (auto split: if_splits option.splits prod.splits res.splits sum.splits bool.splits)
  then show ?thesis using pg_Enqueue_counters [OF _ assms(2)] by fastforce
qed

text \<open>C22: A refresh that is not a valid request is refused before anything happens: with another content type, a body that
  does not decode, malformed or unsupported codes, or a pair of one currency with itself, the answer is 400 with an
  error body that must not be cached, and neither the queue nor the id generator nor the clock was touched.\<close>

theorem refresh_rejected:
  assumes "\<not> contains_sub (rq_ContentType rq) ''application/json''
    \<or> (case decode_refresh (rq_Body rq) of None \<Rightarrow> True | Some (base, quote) \<Rightarrow> \<not> valid_pair (ae_whitelist env) base quote)"
  shows "\<exists>code msg. RefreshQuote qops env rq s g w = (Ok (writeError [] 400 code msg), s, g, w)
    \<and> (code = InvalidRequest \<or> code = UnsupportedCurrency)
    \<and> map_of (rs_headers (writeError [] 400 code msg)) ''Cache-Control'' = Some ''no-store''"
proof -
  have hdr: "map_of (rs_headers (writeError [] 400 code msg)) ''Cache-Control'' = Some ''no-store''" for code msg
    by (simp add: writeError_def set_header_def)
  show ?thesis
  proof (cases "contains_sub (rq_ContentType rq) ''application/json''")
    case True
    show ?thesis
    proof (cases "decode_refresh (rq_Body rq)")
      case (Some bq)
      obtain b q where bq: "bq = (b, q)" by force
      with assms True Some have "\<not> valid_pair (ae_whitelist env) b q" by simp
      then obtain st c m where v: "validatePair (ae_whitelist env) b q = Some (st, c, m)"
        using validatePair_None by (metis not_Some_eq prod_cases3)
      with validatePair_status [OF v] True Some bq hdr show ?thesis by (auto simp: RefreshQuote_def)
    qed (use True hdr in \<open>auto simp: RefreshQuote_def\<close>)
  qed (use hdr in \<open>auto simp: RefreshQuote_def\<close>)
qed

theorem refresh_rejected_witness:
  "\<exists>code msg. RefreshQuote (pg_ops sample_env) sample_api (sample_request (refresh_text ''EUR'' ''EUR'')) sample_db NewSeq sample_world
     = (Ok (writeError [] 400 code msg), sample_db, NewSeq, sample_world)"
proof -
  have "case decode_refresh (rq_Body (sample_request (refresh_text ''EUR'' ''EUR''))) of None \<Rightarrow> True | Some (base, quote) \<Rightarrow> \<not> valid_pair (ae_whitelist sample_api) base quote"
    using decode_refresh_text [of "''EUR''" "''EUR''" "[]"] ascii_utf8 [of "''EUR''"] by (simp add: sample_request_def valid_pair_def plain_char_def)
  from refresh_rejected [OF disjI2 [OF this], of "pg_ops sample_env" sample_db NewSeq sample_world] show ?thesis by blast
qed

text \<open>C23: GET /quotes/{id} of a finished job is immutable, as its cache header promises. Over Postgres, whatever calls happen
  after the job was done or failed, the endpoint answers with the same page (status, headers, body, and 304 for a
  matching ETag), or with 500 when the store itself failed to answer.\<close>

theorem pg_terminal_page_stable:
  assumes "pg_invar db" and "pe_uuid genv jid = Some jid" and "pg_abs db jid = Some r" and "is_terminal (ar_state r)"
    and "\<forall>t e. ar_state r = Failed t e \<longrightarrow> \<not> IsZero t"
    and "wf_calls (pg_ops genv) pg_abs (\<lambda>i. pe_uuid genv i = Some i) cs db w" and "exec_calls (pg_ops genv) cs db w = (js, db1, w1)"
    and "GetQuoteJob (pg_ops genv) env rq jid db1 w1 = (out, db2, w2)"
  shows "out = Ok (job_page env (pg_readback genv) rq jid r)
     \<or> out = Ok (writeError [] 500 Internal ''could not load job'') \<and> (\<exists>e. fst (pg_GetByID genv jid db1 w1) = Inl e \<and> is_io e)"
  using pg.terminal_page_stable [OF assms] by (simp add: op_defs)

theorem pg_terminal_page_stable_witness:
  "case exec_calls (pg_ops sample_env) [CReserve 5 second, CFail ''c'' ''again''] sample_db sample_world of (js, db1, w1) \<Rightarrow>
     fst (GetQuoteJob (pg_ops sample_env) sample_api (sample_request []) ''c'' db1 w1) \<in>
       {Ok (job_page sample_api (pg_readback sample_env) (sample_request []) ''c'' (row_arec (sample_row ''c'' ''failed'' ''kc''))),
        Ok (writeError [] 500 Internal ''could not load job'')}"
proof -
  let ?cs = "[CReserve 5 second, CFail ''c'' ''again''] :: int qcall list"
  obtain js db1 w1 where e: "exec_calls (pg_ops sample_env) ?cs sample_db sample_world = (js, db1, w1)" by (metis prod_cases3)
  obtain out db2 w2 where g: "GetQuoteJob (pg_ops sample_env) sample_api (sample_request []) ''c'' db1 w1 = (out, db2, w2)" by (metis prod_cases3)
  have wf: "wf_calls (pg_ops sample_env) pg_abs (\<lambda>i. pe_uuid sample_env i = Some i) ?cs sample_db sample_world" by (simp split: prod.splits)
  define r where "r = row_arec (sample_row ''c'' ''failed'' ''kc'')"
  have r: "pg_abs sample_db ''c'' = Some r" "is_terminal (ar_state r)" "\<forall>t e. ar_state r = Failed t e \<longrightarrow> \<not> IsZero t"
    by (simp_all add: sample_db_abs r_def row_state_def sample_row_def IsZero_def zero_time_def)
  have u: "pe_uuid sample_env ''c'' = Some ''c''" by simp
  from pg_terminal_page_stable [OF sample_db_invar u r wf e g] e g show ?thesis by (auto simp: r_def)
qed

text \<open>C24: GET /quotes/latest over Postgres, for a valid pair and with no storage failure ahead, answers from the stored quote
  alone and changes nothing: 404 when there is none; otherwise the ETag of the pair and the second of the quote, a
  public cache header with the coalescing window, 304 without a body exactly when the client sent that ETag, and 200 with
  pair, price and time when it did not. (The price must survive the NUMERIC column, and the time must have a JSON form.)\<close>

theorem pg_latest_quote:
  assumes "pgrepo_invar db" and "pgrepo_quiet db" and "valid_pair (ae_whitelist env) b q"
    and "\<forall>x. pgrepo_abs db (Pair b q) = Some x \<longrightarrow>
      qe_NewFromString renv (qe_numeric_text renv (quo_Price x)) = Some (quo_Price x) \<and> json_time_ok (quo_FetchedAt x)"
    and "GetLatestQuote (pgrepo_ops renv) env rq b q db w = (rs, db', w')"
  shows "pgrepo_abs db' = pgrepo_abs db \<and> w' = w \<and>
    (case pgrepo_abs db (Pair b q) of
       None \<Rightarrow> rs = writeError [] 404 NoData ''no successful quote yet''
     | Some x \<Rightarrow>
         map_of (rs_headers rs) ''ETag'' = Some (latest_etag b q (quo_FetchedAt x))
         \<and> map_of (rs_headers rs) ''Cache-Control'' = Some (''public, max-age='' @ show_int (int_Seconds (ae_coalescingWindow env)))
         \<and> (if rq_IfNoneMatch rq = latest_etag b q (quo_FetchedAt x) then rs_status rs = 304 \<and> rs_body rs = NoBody
            else rs_status rs = 200 \<and> rs_body rs = LatestQuote b (ae_decimal_String env (quo_Price x)) q (quo_FetchedAt x)))"
proof -
  have len: "length b = 3" "length q = 3" using assms(3) by (auto simp: valid_pair_def pairFormatRE_def)
  have find: "find (\<lambda>(p, r). bpchar_eq (Base p) b \<and> bpchar_eq (Quote p) q) (qdb_rows db)
      = map_option (Product_Type.Pair (Pair b q)) (map_of (qdb_rows db) (Pair b q))"
    by (rule find_quote_row) (use assms(1) len in \<open>auto simp: pgrepo_invar_def\<close>)
  have fault: "qdb_fault db (qdb_stmt db) = None" using assms(2) by (simp add: pgrepo_quiet_def)
  have v: "validatePair (ae_whitelist env) b q = None" using assms(3) by (simp add: validatePair_None)
  have nxt: "pgrepo_abs (qdb_next db) = pgrepo_abs db" by (simp add: pgrepo_abs_def qdb_next_def)
  show ?thesis
  proof (cases "map_of (qdb_rows db) (Pair b q)")
    case None
    then show ?thesis using assms(5) fault v find nxt
      by (auto simp: GetLatestQuote_def op_defs pgrepo_GetLatest_def pgrepo_abs_def)
  next
    case (Some r)
    then have x: "pgrepo_abs db (Pair b q) = Some (row_quote_of (Pair b q) r)" by (simp add: pgrepo_abs_def)
    have ok: "qe_NewFromString renv (qe_numeric_text renv (qrow_price r)) = Some (qrow_price r)" "json_time_ok (qrow_updated_at r)"
      using assms(4) x by (simp_all add: row_quote_of_def)
    have get: "GetLatest (pgrepo_ops renv) b q db w = (Inr (row_quote_of (Pair b q) r), qdb_next db, w)"
      using fault find Some ok(1) by (simp add: op_defs pgrepo_GetLatest_def row_quote_of_def)
    show ?thesis
      using assms(5) v ok(2) nxt unfolding GetLatestQuote_def x get
      by (auto simp: row_quote_of_def Let_def set_header_def split: if_splits)
  qed
qed

theorem pg_latest_quote_witness:
  "case GetLatestQuote (pgrepo_ops sample_renv) sample_api (sample_request []) ''EUR'' ''MXN''
      (sample_quotes\<lparr>qdb_rows := [(Pair ''EUR'' ''MXN'', \<lparr>qrow_price = 20, qrow_updated_at = 90 * second\<rparr>)]\<rparr>) sample_world of
     (rs, db', w') \<Rightarrow> rs_status rs = 200 \<and> rs_body rs = LatestQuote ''EUR'' (show_int 20) ''MXN'' (90 * second)"
proof -
  let ?db = "sample_quotes\<lparr>qdb_rows := [(Pair ''EUR'' ''MXN'', \<lparr>qrow_price = 20, qrow_updated_at = 90 * second\<rparr>)]\<rparr>"
  obtain rs db' w' where g: "GetLatestQuote (pgrepo_ops sample_renv) sample_api (sample_request []) ''EUR'' ''MXN'' ?db sample_world = (rs, db', w')"
    by (metis prod_cases3)
  have h: "pgrepo_invar ?db" "pgrepo_quiet ?db" "valid_pair (ae_whitelist sample_api) ''EUR'' ''MXN''"
    by (simp_all add: pgrepo_invar_def pgrepo_quiet_def sample_quotes_def sample_api_def valid_pair_def pairFormatRE_def)
  have abs: "pgrepo_abs ?db (Pair ''EUR'' ''MXN'') = Some \<lparr>quo_Pair = Pair ''EUR'' ''MXN'', quo_Price = 20, quo_FetchedAt = 90 * second\<rparr>"
    by (simp add: pgrepo_abs_def row_quote_of_def)
  have rt: "\<forall>x. pgrepo_abs ?db (Pair ''EUR'' ''MXN'') = Some x \<longrightarrow>
      qe_NewFromString sample_renv (qe_numeric_text sample_renv (quo_Price x)) = Some (quo_Price x) \<and> json_time_ok (quo_FetchedAt x)"
    unfolding abs by (simp add: sample_renv_def Atoi_show_int int64_ok_def json_time_ok_def)
  have "rq_IfNoneMatch (sample_request []) \<noteq> latest_etag b q t" for b q t by (simp add: sample_request_def latest_etag_def)
  with pg_latest_quote [OF h rt g] abs g show ?thesis by (simp add: sample_api_def)
qed

text \<open>The ETag of the latest quote has the resolution of a second, so a revalidation can hide a newer price: whenever the
  stored quote was fetched in the same second as the one the client holds, the client's conditional request is answered
  304, even when the price has changed.\<close>

lemma latest_etag_hides_update:
  assumes "valid_pair (ae_whitelist env) b q" and "GetLatest rops b q r w = (Inr x, r', w')"
    and "rq_IfNoneMatch rq = latest_etag b q t" and "Unix t = Unix (quo_FetchedAt x)"
  shows "\<exists>hs. GetLatestQuote rops env rq b q r w = (\<lparr>rs_status = 304, rs_headers = hs, rs_body = NoBody\<rparr>, r', w')"
proof -
  have "validatePair (ae_whitelist env) b q = None" using assms(1) by (simp add: validatePair_None)
  moreover have "rq_IfNoneMatch rq = latest_etag b q (quo_FetchedAt x)" using assms(3,4) by (simp add: latest_etag_def)
  ultimately show ?thesis using assms(2) by (simp add: GetLatestQuote_def Let_def)
qed

end
