(* ===== verification/Httpmw.thy ===== *)
theory Httpmw
  imports Api
begin

text \<open>
  The middleware around the handlers, \<open>internal/httpmw\<close>: \<open>requestid.go\<close>, \<open>recover.go\<close>,
  \<open>metrics.go\<close> and \<open>openapivalidate.go\<close>. A handler is the sequence of calls it makes on its
  \<open>ResponseWriter\<close>, how it ended, the pattern the mux matched, and the state of the server (queue, quotes,
  id generator; the type variable \<open>'s\<close>) and the world it leaves; each middleware transforms
  that. What the client receives is \<open>wire\<close>, the behaviour of \<open>net/http\<close> on such a sequence.
  The validator of the OpenAPI package is an argument.
\<close>

section \<open>Handlers\<close>

datatype chunk = Bytes string | JsonError string string | JsonBody body | JsonProbe string "(string \<times> string) list"

datatype action =
    SetHeader string string
  | WriteHeader int
  | Write chunk

text \<open>A request: the escaped path, the decoded query, the header under its canonical names, the body, and what
  the middleware put into the context.\<close>

record hreq =
  hq_method :: string
  hq_path :: string
  hq_query :: "(string \<times> string list) list"
  hq_header :: "(string \<times> string list) list"
  hq_body :: string
  hq_ctxRequestId :: string

definition Header_Get :: "hreq \<Rightarrow> string \<Rightarrow> string" where
  "Header_Get r k = (case map_of (hq_header r) k of Some (v # _) \<Rightarrow> v | _ \<Rightarrow> [])"

record 's hresult =
  hr_acts :: "action list"
  hr_panic :: "string option"
  hr_pattern :: string
  hr_state :: 's
  hr_world :: world

type_synonym 's handler = "hreq \<Rightarrow> 's \<Rightarrow> world \<Rightarrow> 's hresult"

text \<open>\<open>net/http\<close>: headers count until the status line is written, the first final status wins, and a write without one sends
  200. A status 1xx other than 101 is informational: it is sent at once, and the final one is still to come. The codes are
  taken to be between 100 and 999, as \<open>WriteHeader\<close> requires. \<open>received\<close> drops the body of the answer to a HEAD.\<close>

record wire_response =
  wi_info :: "int list"
  wi_status :: "int option"
  wi_headers :: "(string \<times> string) list"
  wi_body :: "chunk list"

definition informational :: "int \<Rightarrow> bool" where
  "informational c \<longleftrightarrow> 100 \<le> c \<and> c \<le> 199 \<and> c \<noteq> 101"

fun wire_step :: "action \<Rightarrow> wire_response \<Rightarrow> wire_response" where
  "wire_step (SetHeader k v) r = (if wi_status r = None then r\<lparr>wi_headers := AList.update k v (wi_headers r)\<rparr> else r)"
| "wire_step (WriteHeader c) r =
     (if wi_status r \<noteq> None then r
      else if informational c then r\<lparr>wi_info := wi_info r @ [c]\<rparr>
      else r\<lparr>wi_status := Some c\<rparr>)"
| "wire_step (Write b) r =
     (if wi_status r = None then r\<lparr>wi_status := Some 200, wi_body := wi_body r @ [b]\<rparr> else r\<lparr>wi_body := wi_body r @ [b]\<rparr>)"

definition wire_run :: "action list \<Rightarrow> wire_response \<Rightarrow> wire_response" where
  "wire_run acts r = fold wire_step acts r"

definition fresh_wire :: wire_response where
  "fresh_wire = \<lparr>wi_info = [], wi_status = None, wi_headers = [], wi_body = []\<rparr>"

definition received :: "hreq \<Rightarrow> wire_response \<Rightarrow> wire_response" where
  "received r wr = (if hq_method r = ''HEAD'' then wr\<lparr>wi_body := []\<rparr> else wr)"

definition wire_status :: "action list \<Rightarrow> int" where
  "wire_status acts = (case wi_status (wire_run acts fresh_wire) of Some c \<Rightarrow> c | None \<Rightarrow> 200)"

section \<open>RequestID\<close>

definition validID :: "string \<Rightarrow> bool" where
  "validID s \<longleftrightarrow> 1 \<le> length s \<and> length s \<le> 128
     \<and> list_all (\<lambda>c. let n = (of_char c :: nat) in
          65 \<le> n \<and> n \<le> 90 \<or> 97 \<le> n \<and> n \<le> 122 \<or> 48 \<le> n \<and> n \<le> 57 \<or> c = CHR ''_'' \<or> c = CHR ''-'') s"

definition RequestID :: "(world \<Rightarrow> string \<times> world) \<Rightarrow> 's handler \<Rightarrow> 's handler" where
  "RequestID newid next r s w =
     (let given = Header_Get r ''X-Request-Id'';
          (rid, w1) = (if given = [] \<or> \<not> validID given then newid w else (given, w));
          res = next (r\<lparr>hq_ctxRequestId := rid\<rparr>) s w1
      in res\<lparr>hr_acts := SetHeader ''X-Request-Id'' rid # hr_acts res\<rparr>)"

section \<open>PanicRecover\<close>

definition PanicRecover :: "'s handler \<Rightarrow> 's handler" where
  "PanicRecover next r s w =
     (let res = next r s w
      in case hr_panic res of
           None \<Rightarrow> res
         | Some m \<Rightarrow> res\<lparr>hr_panic := None,
             hr_acts := hr_acts res @ [SetHeader ''Content-Type'' ''application/json'', WriteHeader 500,
                                       Write (JsonError ''internal'' ''internal server error'')]\<rparr>)"

section \<open>Metrics\<close>

text \<open>\<open>statusCaptureWriter\<close>: what it forwards and what it remembers.\<close>

record capture =
  cw_status :: int
  cw_wroteHeader :: bool
  cw_forwarded :: "action list"

fun capture_step :: "action \<Rightarrow> capture \<Rightarrow> capture" where
  "capture_step (SetHeader k v) c = c\<lparr>cw_forwarded := cw_forwarded c @ [SetHeader k v]\<rparr>"
| "capture_step (WriteHeader code) c =
     (if cw_wroteHeader c then c
      else c\<lparr>cw_status := code, cw_wroteHeader := True, cw_forwarded := cw_forwarded c @ [WriteHeader code]\<rparr>)"
| "capture_step (Write b) c = c\<lparr>cw_wroteHeader := True, cw_forwarded := cw_forwarded c @ [Write b]\<rparr>"

definition capture_run :: "action list \<Rightarrow> capture" where
  "capture_run acts = fold capture_step acts \<lparr>cw_status = 200, cw_wroteHeader = False, cw_forwarded = []\<rparr>"

definition Metrics :: "'s handler \<Rightarrow> 's handler" where
  "Metrics next r s w0 =
     (let start = Now (emit (GaugeAdd MetricHTTPInFlightRequests 1) w0);
          w1 = tick (emit (GaugeAdd MetricHTTPInFlightRequests 1) w0);
          res = next r s w1;
          rw = capture_run (hr_acts res)
      in case hr_panic res of
           Some m \<Rightarrow> res\<lparr>hr_acts := cw_forwarded rw, hr_world := emit (GaugeAdd MetricHTTPInFlightRequests (- 1)) (hr_world res)\<rparr>
         | None \<Rightarrow>
             let w2 = tick (hr_world res);
                 w3 = (if hr_pattern res = [] then w2
                       else emit (Observe MetricHTTPRequestDurationSeconds [hq_method r, hr_pattern res] (Now (hr_world res) - start))
                              (emit (Inc MetricHTTPRequestsTotal [hq_method r, hr_pattern res, show_int (cw_status rw)]) w2))
             in res\<lparr>hr_acts := cw_forwarded rw, hr_world := emit (GaugeAdd MetricHTTPInFlightRequests (- 1)) w3\<rparr>)"

section \<open>OpenAPIValidate\<close>

text \<open>\<open>strings.Index\<close> of a text, cut there, and \<open>strings.TrimRight\<close>.\<close>

fun cut_at :: "string \<Rightarrow> string \<Rightarrow> string" where
  "cut_at p [] = []"
| "cut_at p (c # s) = (if startsWith (c # s) p then [] else c # cut_at p s)"

definition trim_right :: "string \<Rightarrow> string" where
  "trim_right s = rev (dropWhile (\<lambda>c. c = CHR 0x0D \<or> c = CHR 0x0A \<or> c = CHR 0x09 \<or> c = CHR '' '') (rev s))"

definition shortenValidatorMessage :: "string \<Rightarrow> string" where
  "shortenValidatorMessage s = trim_right (cut_at (CHR 0x0A # ''Schema:'') s)"

definition writeJSONError :: "int \<Rightarrow> string \<Rightarrow> string \<Rightarrow> action list" where
  "writeJSONError status code message =
     [SetHeader ''Content-Type'' ''application/json'', SetHeader ''Cache-Control'' ''no-store'', WriteHeader status,
      Write (JsonError code message)]"

record validator =
  va_FindRoute :: "hreq \<Rightarrow> bool"
  va_ValidateRequest :: "hreq \<Rightarrow> string option"
  va_ValidateResponse :: "hreq \<Rightarrow> int \<Rightarrow> (string \<times> string) list \<Rightarrow> chunk list \<Rightarrow> string option"

record recorder =
  rec_header :: "(string \<times> string) list"
  rec_status :: int
  rec_body :: "chunk list"

fun recorder_step :: "action \<Rightarrow> recorder \<Rightarrow> recorder" where
  "recorder_step (SetHeader k v) r = r\<lparr>rec_header := AList.update k v (rec_header r)\<rparr>"
| "recorder_step (WriteHeader c) r = r\<lparr>rec_status := c\<rparr>"
| "recorder_step (Write b) r = r\<lparr>rec_body := rec_body r @ [b]\<rparr>"

definition recorder_run :: "action list \<Rightarrow> recorder" where
  "recorder_run acts = fold recorder_step acts \<lparr>rec_header = [], rec_status = 200, rec_body = []\<rparr>"

definition recorder_flush :: "recorder \<Rightarrow> action list" where
  "recorder_flush r = map (\<lambda>(k, v). SetHeader k v) (rec_header r) @ [WriteHeader (rec_status r)] @ map Write (rec_body r)"

definition OpenAPIValidate :: "validator option \<Rightarrow> 's handler \<Rightarrow> 's handler" where
  "OpenAPIValidate spec next r s w =
     (case spec of
        None \<Rightarrow> next r s w
      | Some va \<Rightarrow>
          if \<not> va_FindRoute va r then next r s w
          else case va_ValidateRequest va r of
            Some err \<Rightarrow>
              \<lparr>hr_acts = writeJSONError 400 ''invalid_request'' (shortenValidatorMessage err), hr_panic = None, hr_pattern = [], hr_state = s, hr_world = w\<rparr>
          | None \<Rightarrow>
              let res = next r s w; rc = recorder_run (hr_acts res)
              in if hr_panic res \<noteq> None then res\<lparr>hr_acts := []\<rparr>
                 else case va_ValidateResponse va r (rec_status rc) (rec_header rc) (rec_body rc) of
                        Some err \<Rightarrow> res\<lparr>hr_acts := writeJSONError 500 ''internal'' ''response failed schema validation''\<rparr>
                      | None \<Rightarrow> res\<lparr>hr_acts := recorder_flush rc\<rparr>)"

section \<open>The chain of main\<close>

definition server_chain :: "(world \<Rightarrow> string \<times> world) \<Rightarrow> validator option \<Rightarrow> 's handler \<Rightarrow> 's handler" where
  "server_chain newid spec mux = RequestID newid (PanicRecover (Metrics (OpenAPIValidate spec mux)))"

section \<open>Captured and sent status agree\<close>

lemma wire_run_append: "wire_run (xs @ ys) r = wire_run ys (wire_run xs r)"
  by (simp add: wire_run_def)

lemma wire_step_keeps_status: "wi_status r = Some c \<Longrightarrow> wi_status (wire_step a r) = Some c"
  by (cases a) auto

lemma wire_run_keeps_status: "wi_status r = Some c \<Longrightarrow> wi_status (wire_run acts r) = Some c"
  unfolding wire_run_def by (induction acts arbitrary: r) (auto simp: wire_step_keeps_status)

text \<open>For a handler that sends no informational status.\<close>

fun sends_final :: "action \<Rightarrow> bool" where
  "sends_final (WriteHeader c) \<longleftrightarrow> \<not> informational c" | "sends_final _ \<longleftrightarrow> True"

definition capture_wire :: "capture \<Rightarrow> bool" where
  "capture_wire c \<longleftrightarrow> wi_status (wire_run (cw_forwarded c) fresh_wire) = (if cw_wroteHeader c then Some (cw_status c) else None)
     \<and> (\<not> cw_wroteHeader c \<longrightarrow> cw_status c = 200)"

lemma capture_step_wire: "capture_wire c \<Longrightarrow> sends_final a \<Longrightarrow> capture_wire (capture_step a c)"
  by (cases a) (auto simp: capture_wire_def wire_run_def)

lemma capture_fold_wire: "capture_wire c \<Longrightarrow> list_all sends_final acts \<Longrightarrow> capture_wire (fold capture_step acts c)"
  by (induction acts arbitrary: c) (simp_all add: capture_step_wire)

lemma capture_run_wire: "list_all sends_final acts \<Longrightarrow> capture_wire (capture_run acts)"
  unfolding capture_run_def by (rule capture_fold_wire) (simp_all add: capture_wire_def wire_run_def fresh_wire_def)

lemma capture_status: "list_all sends_final acts \<Longrightarrow> wire_status (cw_forwarded (capture_run acts)) = cw_status (capture_run acts)"
  using capture_run_wire [of acts] by (auto simp: capture_wire_def wire_status_def split: option.splits)

text \<open>Forwarding changes nothing the client sees.\<close>

lemma capture_fold_same:
  assumes "cw_wroteHeader c \<longleftrightarrow> wi_status (wire_run (cw_forwarded c) r) \<noteq> None" and "list_all sends_final acts"
  shows "wire_run (cw_forwarded (fold capture_step acts c)) r = wire_run acts (wire_run (cw_forwarded c) r)"
  using assms
proof (induction acts arbitrary: c)
  case Nil
  then show ?case by (simp add: wire_run_def)
next
  case (Cons a acts)
  have eq: "wire_run (cw_forwarded (capture_step a c)) r = wire_step a (wire_run (cw_forwarded c) r)"
    using Cons.prems by (cases a) (auto simp: wire_run_def)
  have "cw_wroteHeader (capture_step a c) \<longleftrightarrow> wi_status (wire_run (cw_forwarded (capture_step a c)) r) \<noteq> None"
    unfolding eq using Cons.prems by (cases a) auto
  from Cons.IH [OF this] Cons.prems(2) eq show ?case by (simp add: wire_run_def)
qed

lemma capture_run_same:
  "wi_status r = None \<Longrightarrow> list_all sends_final acts \<Longrightarrow> wire_run (cw_forwarded (capture_run acts)) r = wire_run acts r"
  unfolding capture_run_def by (subst capture_fold_same) (simp_all add: wire_run_def)

text \<open>An informational status is taken for the final one: it becomes the captured status, and the final status is not forwarded.\<close>

lemma capture_drops_final:
  "informational c \<Longrightarrow> cw_status (capture_run [WriteHeader c, WriteHeader d]) = c
     \<and> wire_status (cw_forwarded (capture_run [WriteHeader c, WriteHeader d])) = 200
     \<and> (\<not> informational d \<longrightarrow> wire_status [WriteHeader c, WriteHeader d] = d)"
  by (simp add: capture_run_def wire_status_def wire_run_def fresh_wire_def)

section \<open>The request id\<close>

definition request_id :: "(world \<Rightarrow> string \<times> world) \<Rightarrow> hreq \<Rightarrow> world \<Rightarrow> string \<times> world" where
  "request_id newid r w =
     (if validID (Header_Get r ''X-Request-Id'') then (Header_Get r ''X-Request-Id'', w) else newid w)"

text \<open>The request and the world as the mux sees them.\<close>

definition inner_request :: "(world \<Rightarrow> string \<times> world) \<Rightarrow> hreq \<Rightarrow> world \<Rightarrow> hreq" where
  "inner_request newid r w = r\<lparr>hq_ctxRequestId := fst (request_id newid r w)\<rparr>"

definition inner_world :: "(world \<Rightarrow> string \<times> world) \<Rightarrow> hreq \<Rightarrow> world \<Rightarrow> world" where
  "inner_world newid r w = tick (emit (GaugeAdd MetricHTTPInFlightRequests 1) (snd (request_id newid r w)))"

lemma RequestID_eq:
  "RequestID newid next r s w =
     (let res = next (inner_request newid r w) s (snd (request_id newid r w))
      in res\<lparr>hr_acts := SetHeader ''X-Request-Id'' (fst (request_id newid r w)) # hr_acts res\<rparr>)"
proof -
  have "\<not> validID []" by (simp add: validID_def)
  then have rid: "(if Header_Get r ''X-Request-Id'' = [] \<or> \<not> validID (Header_Get r ''X-Request-Id'') then newid w else (Header_Get r ''X-Request-Id'', w))
      = request_id newid r w"
    by (auto simp: request_id_def)
  show ?thesis unfolding RequestID_def Let_def rid by (auto simp: inner_request_def split: prod.splits)
qed

text \<open>A header that no action sets stays as it was.\<close>

fun sets :: "string \<Rightarrow> action \<Rightarrow> bool" where
  "sets k (SetHeader k' v) \<longleftrightarrow> k' = k" | "sets k _ \<longleftrightarrow> False"

lemma wire_keeps_header:
  "\<forall>a \<in> set acts. \<not> sets k a \<Longrightarrow> map_of (wi_headers (wire_run acts fr)) k = map_of (wi_headers fr) k"
proof (induction acts arbitrary: fr)
  case (Cons a acts)
  have "map_of (wi_headers (wire_step a fr)) k = map_of (wi_headers fr) k" using Cons.prems by (cases a) (auto simp: update_conv)
  with Cons show ?case by (simp add: wire_run_def)
qed (simp add: wire_run_def)

lemma capture_forwards: "set (cw_forwarded (capture_run acts)) \<subseteq> set acts"
proof -
  have "set (cw_forwarded (capture_step a c)) \<subseteq> insert a (set (cw_forwarded c))" for a c by (cases a) auto
  then have "set (cw_forwarded (fold capture_step acts c)) \<subseteq> set acts \<union> set (cw_forwarded c)" for c
    by (induction acts arbitrary: c) (simp, fastforce)
  then show ?thesis unfolding capture_run_def by (metis capture.select_convs(3) list.set(1) sup_bot.right_neutral)
qed

lemma recorder_headers: "\<forall>a \<in> set acts. \<not> sets k a \<Longrightarrow> \<forall>a \<in> set (recorder_flush (recorder_run acts)). \<not> sets k a"
proof -
  have "k \<notin> fst ` set (rec_header (fold recorder_step acts c))" if "\<forall>a \<in> set acts. \<not> sets k a" "k \<notin> fst ` set (rec_header c)" for c
    using that
  proof (induction acts arbitrary: c)
    case (Cons a acts)
    have "k \<notin> fst ` set (rec_header (recorder_step a c))" using Cons.prems by (cases a) (auto simp: dom_update)
    with Cons show ?case by simp
  qed simp
  then show "\<forall>a \<in> set acts. \<not> sets k a \<Longrightarrow> \<forall>a \<in> set (recorder_flush (recorder_run acts)). \<not> sets k a"
    by (force simp: recorder_flush_def recorder_run_def)
qed

lemma validate_headers:
  assumes "\<forall>a \<in> set (hr_acts (h r s w)). \<not> sets ''X-Request-Id'' a"
  shows "\<forall>a \<in> set (hr_acts (OpenAPIValidate spec h r s w)). \<not> sets ''X-Request-Id'' a"
  using assms recorder_headers [OF assms] by (auto simp: OpenAPIValidate_def Let_def writeJSONError_def split: option.splits)

section \<open>Properties\<close>

text \<open>A request without query, header and body, for the closed instances.\<close>

definition sample_hreq :: "string \<Rightarrow> string \<Rightarrow> hreq" where
  "sample_hreq m p = \<lparr>hq_method = m, hq_path = p, hq_query = [], hq_header = [], hq_body = [], hq_ctxRequestId = []\<rparr>"

fun is_header :: "action \<Rightarrow> bool" where
  "is_header (SetHeader k v) \<longleftrightarrow> True" | "is_header _ \<longleftrightarrow> False"

lemma wire_headers_only:
  "list_all is_header acts \<Longrightarrow> wi_status (wire_run acts r) = wi_status r \<and> wi_body (wire_run acts r) = wi_body r"
proof (induction acts arbitrary: r)
  case (Cons a acts)
  then show ?case by (cases a) (auto simp: wire_run_def)
qed (simp add: wire_run_def)

definition gauge_total :: "string \<Rightarrow> world \<Rightarrow> int" where
  "gauge_total name w = sum_list (map (\<lambda>m. case m of GaugeAdd n k \<Rightarrow> if n = name then k else 0 | _ \<Rightarrow> 0) (trace w))"

lemma gauge_total_step [simp]:
  "gauge_total name (tick w) = gauge_total name w"
  "gauge_total name (emit (GaugeAdd n k) w) = (if n = name then k else 0) + gauge_total name w"
  "gauge_total name (emit (Inc n l) w) = gauge_total name w"
  "gauge_total name (emit (Observe n l v) w) = gauge_total name w"
  by (simp_all add: gauge_total_def)

text \<open>What the recovering part of the chain makes of the handler's answer.\<close>

definition panic_acts :: "action list" where
  "panic_acts = [SetHeader ''Content-Type'' ''application/json'', WriteHeader 500, Write (JsonError ''internal'' ''internal server error'')]"

lemma recovered_acts:
  assumes "inner = h r s (tick (emit (GaugeAdd MetricHTTPInFlightRequests 1) w))"
  shows "hr_panic (PanicRecover (Metrics h) r s w) = None"
    and "hr_acts (PanicRecover (Metrics h) r s w) = cw_forwarded (capture_run (hr_acts inner)) @ (if hr_panic inner = None then [] else panic_acts)"
  unfolding assms by (simp_all add: PanicRecover_def Metrics_def Let_def panic_acts_def split: option.splits)

lemma headers_then_500:
  assumes "list_all is_header acts" and "wi_status fr = None" and "wi_body fr = []"
  shows "wi_status (wire_run (cw_forwarded (capture_run acts) @ panic_acts) fr) = Some 500"
    and "wi_body (wire_run (cw_forwarded (capture_run acts) @ panic_acts) fr) = [JsonError ''internal'' ''internal server error'']"
proof -
  have "list_all sends_final acts" using assms(1) by (rule list.pred_mono_strong) (auto elim: is_header.elims)
  then have "wire_run (cw_forwarded (capture_run acts)) fr = wire_run acts fr" using assms(2) by (simp add: capture_run_same)
  moreover have "wi_status (wire_run acts fr) = None \<and> wi_body (wire_run acts fr) = []" using wire_headers_only [OF assms(1), of fr] assms(2,3) by simp
  ultimately show "wi_status (wire_run (cw_forwarded (capture_run acts) @ panic_acts) fr) = Some 500"
    and "wi_body (wire_run (cw_forwarded (capture_run acts) @ panic_acts) fr) = [JsonError ''internal'' ''internal server error'']"
    unfolding wire_run_append by (simp_all add: wire_run_def panic_acts_def informational_def)
qed

text \<open>A validator that lets the request through to the handler.\<close>

definition passes :: "validator option \<Rightarrow> hreq \<Rightarrow> bool" where
  "passes spec r \<longleftrightarrow> (case spec of None \<Rightarrow> True | Some va \<Rightarrow> \<not> va_FindRoute va r \<or> va_ValidateRequest va r = None)"

lemma validate_crash:
  assumes "passes spec r" and "hr_panic (h r s w) \<noteq> None" and "list_all is_header (hr_acts (h r s w))"
  shows "hr_panic (OpenAPIValidate spec h r s w) \<noteq> None" and "list_all is_header (hr_acts (OpenAPIValidate spec h r s w))"
  using assms by (auto simp: passes_def OpenAPIValidate_def Let_def split: option.splits)


text \<open>A handler that panics after one header, on one path only.\<close>

definition crash_mux :: "unit handler" where
  "crash_mux = (\<lambda>r s w. \<lparr>hr_acts = [SetHeader ''a'' ''b''], hr_panic = (if hq_path r = ''/x'' then Some ''boom'' else None),
     hr_pattern = [], hr_state = s, hr_world = w\<rparr>)"


text \<open>C39: The metrics middleware observes without interfering. For a handler that sends no informational (1xx) status on this request
  and leaves the in-flight gauge as it found it: the client receives exactly what the handler produced; if the handler did not
  panic and the request matched a route, the counter labelled with the method, the route and the status the client really
  received goes up by one; and the in-flight gauge returns to its value, also when the handler panics.\<close>

theorem metrics_transparent:
  assumes "list_all sends_final (hr_acts (nxt r s (tick (emit (GaugeAdd MetricHTTPInFlightRequests 1) w))))"
    and "gauge_total MetricHTTPInFlightRequests (hr_world (nxt r s (tick (emit (GaugeAdd MetricHTTPInFlightRequests 1) w))))
      = gauge_total MetricHTTPInFlightRequests (tick (emit (GaugeAdd MetricHTTPInFlightRequests 1) w))"
  shows "let inner = nxt r s (tick (emit (GaugeAdd MetricHTTPInFlightRequests 1) w)); res = Metrics nxt r s w
    in wire_run (hr_acts res) fresh_wire = wire_run (hr_acts inner) fresh_wire \<and> hr_panic res = hr_panic inner
       \<and> gauge_total MetricHTTPInFlightRequests (hr_world res) = gauge_total MetricHTTPInFlightRequests w
       \<and> (hr_panic inner = None \<and> hr_pattern inner \<noteq> [] \<longrightarrow>
            (let l = [hq_method r, hr_pattern inner, show_int (wire_status (hr_acts res))]
             in counter MetricHTTPRequestsTotal l (hr_world res) = counter MetricHTTPRequestsTotal l (hr_world inner) + 1))"
proof -
  define inner where "inner = nxt r s (tick (emit (GaugeAdd MetricHTTPInFlightRequests 1) w))"
  have fin: "list_all sends_final (hr_acts inner)" using assms(1) by (simp add: inner_def)
  have g: "gauge_total MetricHTTPInFlightRequests (hr_world inner) = gauge_total MetricHTTPInFlightRequests w + 1"
    using assms(2) by (simp add: inner_def)
  have acts: "hr_acts (Metrics nxt r s w) = cw_forwarded (capture_run (hr_acts inner))"
    by (simp add: Metrics_def Let_def inner_def split: option.splits)
  have wire: "wire_run (hr_acts (Metrics nxt r s w)) fresh_wire = wire_run (hr_acts inner) fresh_wire"
    unfolding acts by (rule capture_run_same [OF _ fin]) (simp add: fresh_wire_def)
  have panic: "hr_panic (Metrics nxt r s w) = hr_panic inner"
    by (simp add: Metrics_def Let_def inner_def split: option.splits)
  have gauge: "gauge_total MetricHTTPInFlightRequests (hr_world (Metrics nxt r s w)) = gauge_total MetricHTTPInFlightRequests w"
    using g by (auto simp: Metrics_def Let_def inner_def [symmetric] split: option.splits)
  have count: "counter MetricHTTPRequestsTotal l (hr_world (Metrics nxt r s w)) = counter MetricHTTPRequestsTotal l (hr_world inner) + 1"
    if "hr_panic inner = None" "hr_pattern inner \<noteq> []" "l = [hq_method r, hr_pattern inner, show_int (wire_status (hr_acts (Metrics nxt r s w)))]" for l
    using that unfolding acts capture_status [OF fin] by (simp add: Metrics_def Let_def inner_def [symmetric])
  show ?thesis unfolding Let_def inner_def [symmetric] using wire panic gauge count by blast
qed

definition teapot_handler :: "unit handler" where
  "teapot_handler = (\<lambda>r s w. \<lparr>hr_acts = [WriteHeader 418, Write (Bytes ''no'')], hr_panic = None, hr_pattern = ''/q'', hr_state = s, hr_world = w\<rparr>)"

theorem metrics_transparent_witness:
  "let res = Metrics teapot_handler (sample_hreq ''GET'' ''/q'') () sample_world
   in wi_status (wire_run (hr_acts res) fresh_wire) = Some 418
     \<and> counter MetricHTTPRequestsTotal [''GET'', ''/q'', show_int (wire_status (hr_acts res))] (hr_world res) = 1
     \<and> gauge_total MetricHTTPInFlightRequests (hr_world res) = 0"
  using metrics_transparent [of teapot_handler "sample_hreq ''GET'' ''/q''" "()" sample_world]
  by (simp add: Let_def teapot_handler_def gauge_total_def sample_world_def sample_hreq_def informational_def counter_def wire_run_def fresh_wire_def)

end
