(* ===== verification/Routes.thy ===== *)
theory Routes
  imports Httpmw "HOL-Library.List_Lexorder" "HOL-Library.Char_ord"
begin

text \<open>
  The routing of the server: the patterns \<open>cmd/server/main.go\<close> registers on its \<open>http.ServeMux\<close>, together with
  the three that \<open>HandlerWithOptions\<close> of \<open>internal/api/oapi_gen.go\<close> adds, and the two documentation handlers
  of \<open>internal/api/swagger.go\<close> with the initializer of the page they serve, \<open>swaggerui/index.html\<close> (and its copy in
  \<open>swagger-initializer.js\<close>). The matching follows
  \<open>net/http\<close>: a trie over the segments in which literals win over wildcards and wildcards over a
  trailing slash, \<open>GET\<close> also answers \<open>HEAD\<close>, a path is cleaned by a redirect, and a path that only other methods
  match is answered 405. A request path is the escaped path of the URL. The embedded file server, the
  redirect handler and the endpoints of the other theories are arguments.
\<close>

section \<open>Patterns\<close>

datatype pseg = Lit string | Wild string | Multi

record 'h route =
  rt_pattern :: string
  rt_method :: string
  rt_segments :: "pseg list"
  rt_handler :: 'h

text \<open>The pattern syntax, as far as it is used: an optional method and blank, then segments; \<open>{name}\<close> is a
  wildcard, a trailing slash matches every rest.\<close>

definition pattern_seg :: "string \<Rightarrow> pseg" where
  "pattern_seg s = (if startsWith s ''{'' then Wild (butlast (tl s)) else Lit s)"

definition pattern_segs :: "string \<Rightarrow> pseg list" where
  "pattern_segs p =
     (let ws = tl (split_on (CHR ''/'') p)
      in if last ws = [] then map pattern_seg (butlast ws) @ [Multi] else map pattern_seg ws)"

definition parsePattern :: "string \<Rightarrow> 'h \<Rightarrow> 'h route" where
  "parsePattern s h =
     (let (m, p) = (if CHR '' '' \<in> set s
                    then (takeWhile (\<lambda>c. c \<noteq> CHR '' '') s, tl (dropWhile (\<lambda>c. c \<noteq> CHR '' '') s)) else ([], s))
      in \<lparr>rt_pattern = s, rt_method = m, rt_segments = pattern_segs p, rt_handler = h\<rparr>)"

section \<open>Matching a path\<close>

definition unhex :: "char \<Rightarrow> nat option" where
  "unhex c = (let n = (of_char c :: nat) in
     if 48 \<le> n \<and> n \<le> 57 then Some (n - 48) else if 97 \<le> n \<and> n \<le> 102 then Some (n - 87)
     else if 65 \<le> n \<and> n \<le> 70 then Some (n - 55) else None)"

fun unescape :: "string \<Rightarrow> string option" where
  "unescape [] = Some []"
| "unescape (c # s) =
     (if c = CHR ''%'' then
        (case s of
           a # b # t \<Rightarrow>
             (case (unhex a, unhex b) of
                (Some x, Some y) \<Rightarrow> map_option ((#) (char_of (16 * x + y))) (unescape t)
              | _ \<Rightarrow> None)
         | _ \<Rightarrow> None)
      else map_option ((#) c) (unescape s))"

definition pathUnescape :: "string \<Rightarrow> string" where
  "pathUnescape s = (case unescape s of Some t \<Rightarrow> t | None \<Rightarrow> s)"

definition firstSegment :: "string \<Rightarrow> string \<times> string" where
  "firstSegment path =
     (if path = ''/'' then (''/'', [])
      else (pathUnescape (takeWhile (\<lambda>c. c \<noteq> CHR ''/'') (tl path)), dropWhile (\<lambda>c. c \<noteq> CHR ''/'') (tl path)))"

text \<open>A node of the trie is the list of the routes below it, each with the segments still to match.\<close>

type_synonym 'h node = "(pseg list \<times> 'h route) list"

definition lit_child :: "string \<Rightarrow> 'h node \<Rightarrow> 'h node" where
  "lit_child s n = [(tl ps, r). (ps, r) \<leftarrow> n, ps \<noteq> [] \<and> hd ps = Lit s]"

definition wild_child :: "'h node \<Rightarrow> 'h node" where
  "wild_child n = [(tl ps, r). (ps, r) \<leftarrow> n, case ps of Wild _ # _ \<Rightarrow> True | _ \<Rightarrow> False]"

definition leaf :: "pseg list \<Rightarrow> 'h node \<Rightarrow> 'h route option" where
  "leaf ps n = map_option snd (find (\<lambda>(qs, r). qs = ps) n)"

function (sequential) matchPath :: "'h node \<Rightarrow> string \<Rightarrow> string list \<Rightarrow> ('h route \<times> string list) option" where
  "matchPath n [] ms = map_option (\<lambda>r. (r, ms)) (leaf [] n)"
| "matchPath n path ms =
     (if n = [] then None
      else let (seg, rest) = firstSegment path
        in case matchPath (lit_child seg n) rest ms of
             Some x \<Rightarrow> Some x
           | None \<Rightarrow>
               (case (if seg = ''/'' then None else matchPath (wild_child n) rest (ms @ [seg])) of
                  Some x \<Rightarrow> Some x
                | None \<Rightarrow> map_option (\<lambda>r. (r, ms)) (leaf [Multi] n)))"
  by pat_completeness auto

lemma firstSegment_shorter: "path \<noteq> [] \<Longrightarrow> length (snd (firstSegment path)) < length path"
  using length_dropWhile_le [of "\<lambda>c. c \<noteq> CHR ''/''" "tl path"] by (cases path) (simp_all add: firstSegment_def)

lemma matchPath_rest: "x = firstSegment (c # s) \<Longrightarrow> (seg, rest) = x \<Longrightarrow> length rest < Suc (length s)"
  using firstSegment_shorter [of "c # s"] by (metis length_Cons list.distinct(1) snd_conv)

termination matchPath
  by (relation "measure (\<lambda>(n, path, ms). length path)") (simp_all add: matchPath_rest)

definition method_node :: "'h route list \<Rightarrow> string \<Rightarrow> 'h node" where
  "method_node rts m = [(rt_segments r, r). r \<leftarrow> rts, rt_method r = m]"

text \<open>\<open>matchMethodAndPath\<close>; no pattern of the server names a host.\<close>

definition match_route :: "'h route list \<Rightarrow> string \<Rightarrow> string \<Rightarrow> ('h route \<times> string list) option" where
  "match_route rts m path =
     (case matchPath (method_node rts m) path [] of
        Some x \<Rightarrow> Some x
      | None \<Rightarrow>
          (case (if m = ''HEAD'' then matchPath (method_node rts ''GET'') path [] else None) of
             Some x \<Rightarrow> Some x
           | None \<Rightarrow> matchPath (method_node rts []) path []))"

section \<open>Cleaning\<close>

fun clean_segs :: "string list \<Rightarrow> string list \<Rightarrow> string list" where
  "clean_segs acc [] = rev acc"
| "clean_segs acc (s # ss) =
     (if s = [] \<or> s = ''.'' then clean_segs acc ss
      else if s = ''..'' then clean_segs (tl acc) ss
      else clean_segs (s # acc) ss)"

definition cleanPath :: "string \<Rightarrow> string" where
  "cleanPath p0 =
     (let p = (if startsWith p0 ''/'' then p0 else ''/'' @ p0);
          np = ''/'' @ join_with ''/'' (clean_segs [] (split_on (CHR ''/'') p))
      in if p0 = [] then ''/'' else if last p = CHR ''/'' \<and> np \<noteq> ''/'' then np @ ''/'' else np)"

definition exactMatch :: "('h route \<times> string list) option \<Rightarrow> string \<Rightarrow> bool" where
  "exactMatch n path =
     (case n of
        None \<Rightarrow> False
      | Some (r, ms) \<Rightarrow>
          if last (rt_segments r) \<noteq> Multi then True
          else if path \<noteq> [] \<and> last path \<noteq> CHR ''/'' then False
          else length (rt_segments r) = count_list path (CHR ''/''))"

section \<open>findHandler\<close>

datatype 'h found =
    Handle 'h "string list" string
  | Redirect string string
  | MethodNotAllowed "string list"
  | NotFoundHandler

definition matchingMethods :: "'h route list \<Rightarrow> string \<Rightarrow> string list" where
  "matchingMethods rts path =
     (let ms = filter (\<lambda>m. m \<noteq> [] \<and>
                  (matchPath (method_node rts m) path [] \<noteq> None \<or> matchPath (method_node rts m) (path @ ''/'') [] \<noteq> None))
                  (map rt_method rts)
      in sort (remdups (if ''GET'' \<in> set ms then ''HEAD'' # ms else ms)))"

definition slash_redirect :: "'h route list \<Rightarrow> string \<Rightarrow> string \<Rightarrow> ('h route \<times> string list) option \<Rightarrow> ('h route \<times> string list) option" where
  "slash_redirect rts m path n =
     (if \<not> exactMatch n path \<and> (path = [] \<or> last path \<noteq> CHR ''/'')
      then (let n2 = match_route rts m (path @ ''/'') in if exactMatch n2 (path @ ''/'') then n2 else None)
      else None)"

definition findHandler :: "'h route list \<Rightarrow> string \<Rightarrow> string \<Rightarrow> 'h found" where
  "findHandler rts m escapedPath =
     (let path = (if m = ''CONNECT'' then escapedPath else cleanPath escapedPath);
          n = match_route rts m path
      in case slash_redirect rts m path n of
           Some (r, _) \<Rightarrow> Redirect (cleanPath (pathUnescape escapedPath) @ ''/'') (rt_pattern r)
         | None \<Rightarrow>
             if path \<noteq> escapedPath then Redirect path (case n of None \<Rightarrow> [] | Some (r, _) \<Rightarrow> rt_pattern r)
             else case n of
               Some (r, ms) \<Rightarrow> Handle (rt_handler r) ms (rt_pattern r)
             | None \<Rightarrow> (case matchingMethods rts path of [] \<Rightarrow> NotFoundHandler | allowed \<Rightarrow> MethodNotAllowed allowed))"

section \<open>The routes of the server\<close>

datatype endpoint = OpenAPIJSON | SwaggerUI | HealthzEp | MetricsEp | ReadyzEp | GetLatestQuoteEp | RefreshQuoteEp | GetQuoteJobEp

definition main_patterns :: "(string \<times> endpoint) list" where
  "main_patterns =
     [(''/openapi.json'', OpenAPIJSON), (''/docs/'', SwaggerUI), (''GET /healthz'', HealthzEp), (''GET /metrics'', MetricsEp),
      (''GET /readyz'', ReadyzEp)]"

definition HandlerWithOptions :: "string \<Rightarrow> (string \<times> endpoint) list" where
  "HandlerWithOptions baseURL =
     [(''GET '' @ baseURL @ ''/quotes/latest'', GetLatestQuoteEp), (''POST '' @ baseURL @ ''/quotes/refresh'', RefreshQuoteEp),
      (''GET '' @ baseURL @ ''/quotes/{id}'', GetQuoteJobEp)]"

definition server_routes :: "endpoint route list" where
  "server_routes = map (\<lambda>(p, h). parsePattern p h) (main_patterns @ HandlerWithOptions [])"

section \<open>The documentation handlers\<close>

definition http_Error :: "string \<Rightarrow> int \<Rightarrow> action list" where
  "http_Error msg code =
     [SetHeader ''Content-Type'' ''text/plain; charset=utf-8'', SetHeader ''X-Content-Type-Options'' ''nosniff'',
      WriteHeader code, Write (Bytes (msg @ [CHR 0x0A]))]"

definition OpenAPIJSONHandler :: "string + string \<Rightarrow> 's handler" where
  "OpenAPIJSONHandler spec r s w =
     \<lparr>hr_acts = (case spec of
         Inl err \<Rightarrow> http_Error ''failed to load OpenAPI spec'' 500
       | Inr body \<Rightarrow> [SetHeader ''Content-Type'' ''application/json'', Write (Bytes body)]),
      hr_panic = None, hr_pattern = [], hr_state = s, hr_world = w\<rparr>"

definition StripPrefix :: "string \<Rightarrow> 's handler \<Rightarrow> 's handler" where
  "StripPrefix prefix h r s w =
     (if startsWith (hq_path r) prefix then h (r\<lparr>hq_path := drop (length prefix) (hq_path r)\<rparr>) s w
      else \<lparr>hr_acts = http_Error ''404 page not found'' 404, hr_panic = None, hr_pattern = [], hr_state = s, hr_world = w\<rparr>)"

definition SwaggerUIHandler :: "'s handler \<Rightarrow> 's handler" where
  "SwaggerUIHandler fileServer = StripPrefix ''/docs/'' fileServer"

text \<open>The documentation page: the configuration handed to the bundle, whose presets and plugins are arguments. \<open>index.html\<close> has
  the initializer in its own script element (\<open>index_onload\<close>); \<open>swagger-initializer.js\<close> (\<open>window_onload\<close>) is the same text for
  users who load that file, which \<open>index.html\<close> does not.\<close>

record 'm ui_config =
  ui_url :: string
  ui_dom_id :: string
  ui_deepLinking :: bool
  ui_presets :: "'m list"
  ui_plugins :: "'m list"
  ui_layout :: string

definition index_onload :: "('m ui_config \<Rightarrow> 'ui) \<Rightarrow> 'm \<Rightarrow> 'm \<Rightarrow> 'm \<Rightarrow> 'ui" where
  "index_onload SwaggerUIBundle presets_apis SwaggerUIStandalonePreset plugins_DownloadUrl =
     SwaggerUIBundle \<lparr>ui_url = ''/openapi.json'', ui_dom_id = ''#swagger-ui'', ui_deepLinking = True,
       ui_presets = [presets_apis, SwaggerUIStandalonePreset], ui_plugins = [plugins_DownloadUrl],
       ui_layout = ''StandaloneLayout''\<rparr>"

definition window_onload :: "('m ui_config \<Rightarrow> 'ui) \<Rightarrow> 'm \<Rightarrow> 'm \<Rightarrow> 'm \<Rightarrow> 'ui" where
  "window_onload SwaggerUIBundle presets_apis SwaggerUIStandalonePreset plugins_DownloadUrl =
     SwaggerUIBundle \<lparr>ui_url = ''/openapi.json'', ui_dom_id = ''#swagger-ui'', ui_deepLinking = True,
       ui_presets = [presets_apis, SwaggerUIStandalonePreset], ui_plugins = [plugins_DownloadUrl],
       ui_layout = ''StandaloneLayout''\<rparr>"

text \<open>\<open>mux.ServeHTTP\<close>: the pattern found is recorded in the request, where the metrics middleware reads it.\<close>

definition mux_ServeHTTP :: "string + string \<Rightarrow> 's handler \<Rightarrow> (string \<Rightarrow> 's handler) \<Rightarrow> (endpoint \<Rightarrow> string list \<Rightarrow> 's handler) \<Rightarrow> 's handler" where
  "mux_ServeHTTP spec fileServer redirect serve r s w =
     (case findHandler server_routes (hq_method r) (hq_path r) of
        Handle h ms pat \<Rightarrow>
          (let res = (case h of
                OpenAPIJSON \<Rightarrow> OpenAPIJSONHandler spec r s w
              | SwaggerUI \<Rightarrow> SwaggerUIHandler fileServer r s w
              | _ \<Rightarrow> serve h ms r s w)
           in res\<lparr>hr_pattern := pat\<rparr>)
      | Redirect target pat \<Rightarrow> (redirect target r s w)\<lparr>hr_pattern := pat\<rparr>
      | MethodNotAllowed allowed \<Rightarrow>
          \<lparr>hr_acts = SetHeader ''Allow'' (join_with '', '' allowed) # http_Error ''Method Not Allowed'' 405,
           hr_panic = None, hr_pattern = [], hr_state = s, hr_world = w\<rparr>
      | NotFoundHandler \<Rightarrow>
          \<lparr>hr_acts = http_Error ''404 page not found'' 404, hr_panic = None, hr_pattern = [], hr_state = s, hr_world = w\<rparr>)"

section \<open>The table\<close>

lemma server_routes_table:
  "server_routes =
     [\<lparr>rt_pattern = ''/openapi.json'', rt_method = [], rt_segments = [Lit ''openapi.json''], rt_handler = OpenAPIJSON\<rparr>,
      \<lparr>rt_pattern = ''/docs/'', rt_method = [], rt_segments = [Lit ''docs'', Multi], rt_handler = SwaggerUI\<rparr>,
      \<lparr>rt_pattern = ''GET /healthz'', rt_method = ''GET'', rt_segments = [Lit ''healthz''], rt_handler = HealthzEp\<rparr>,
      \<lparr>rt_pattern = ''GET /metrics'', rt_method = ''GET'', rt_segments = [Lit ''metrics''], rt_handler = MetricsEp\<rparr>,
      \<lparr>rt_pattern = ''GET /readyz'', rt_method = ''GET'', rt_segments = [Lit ''readyz''], rt_handler = ReadyzEp\<rparr>,
      \<lparr>rt_pattern = ''GET /quotes/latest'', rt_method = ''GET'', rt_segments = [Lit ''quotes'', Lit ''latest''], rt_handler = GetLatestQuoteEp\<rparr>,
      \<lparr>rt_pattern = ''POST /quotes/refresh'', rt_method = ''POST'', rt_segments = [Lit ''quotes'', Lit ''refresh''], rt_handler = RefreshQuoteEp\<rparr>,
      \<lparr>rt_pattern = ''GET /quotes/{id}'', rt_method = ''GET'', rt_segments = [Lit ''quotes'', Wild ''id''], rt_handler = GetQuoteJobEp\<rparr>]"
  by code_simp

lemma leaf_in: "leaf ps n = Some r \<Longrightarrow> \<exists>ps. (ps, r) \<in> set n"
  unfolding leaf_def by (metis (no_types, lifting) find_Some_iff map_option_eq_Some nth_mem prod.collapse)

lemma matchPath_in: "matchPath n path ms = Some (r, ms') \<Longrightarrow> \<exists>ps. (ps, r) \<in> set n"
proof (induction n path ms rule: matchPath.induct)
  case (1 n ms)
  then show ?case by (auto dest: leaf_in)
next
  case (2 n c s ms)
  obtain seg rest where fs: "firstSegment (c # s) = (seg, rest)" by fastforce
  have lit: "\<exists>ps. (ps, r) \<in> set n" if "\<exists>ps. (ps, r) \<in> set (lit_child seg n)" using that by (auto simp: lit_child_def)
  have wild: "\<exists>ps. (ps, r) \<in> set n" if "\<exists>ps. (ps, r) \<in> set (wild_child n)" using that by (auto simp: wild_child_def)
  have ne: "n \<noteq> []" using "2.prems" by (auto split: if_splits)
  show ?case
    using "2.prems" ne fs "2.IH"(1) [OF ne fs [symmetric]] "2.IH"(2) [OF ne fs [symmetric]] lit wild leaf_in [of "[Multi]" n r]
    by (auto split: option.splits if_splits)
qed

lemma match_route_in: "match_route rts m path = Some (r, ms) \<Longrightarrow> r \<in> set rts"
  by (auto simp: match_route_def method_node_def split: option.splits if_splits dest!: matchPath_in)

text \<open>The patterns that can label a request.\<close>

definition found_pattern :: "'h found \<Rightarrow> string" where
  "found_pattern f = (case f of Handle h ms p \<Rightarrow> p | Redirect t p \<Rightarrow> p | MethodNotAllowed a \<Rightarrow> [] | NotFoundHandler \<Rightarrow> [])"

lemma findHandler_pattern: "found_pattern (findHandler rts m path) \<in> insert [] (rt_pattern ` set rts)"
proof -
  have redir: "r \<in> set rts" if "slash_redirect rts m p n = Some (r, ms)" for p n r ms
    using that by (auto simp: slash_redirect_def Let_def split: if_splits dest: match_route_in)
  define p where "p = (if m = ''CONNECT'' then path else cleanPath path)"
  show ?thesis
  proof (cases "slash_redirect rts m p (match_route rts m p)")
    case None
    then show ?thesis
      using match_route_in [of rts m p] unfolding findHandler_def p_def [symmetric]
      by (cases "match_route rts m p") (auto simp: found_pattern_def Let_def split: list.splits)
  next
    case (Some x)
    then show ?thesis
      using redir [of p "match_route rts m p" "fst x" "snd x"] unfolding findHandler_def p_def [symmetric]
      by (cases x) (simp add: found_pattern_def)
  qed
qed

lemma findHandler_exact:
  assumes "match_route rts m path = Some (r, ms)" and "last (rt_segments r) \<noteq> Multi" and "cleanPath path = path"
  shows "findHandler rts m path = Handle (rt_handler r) ms (rt_pattern r)"
proof -
  have p: "(if m = ''CONNECT'' then path else cleanPath path) = path" using assms(3) by simp
  have "slash_redirect rts m path (match_route rts m path) = None" using assms(1,2) by (simp add: slash_redirect_def exactMatch_def)
  then show ?thesis unfolding findHandler_def p using assms(1) by (simp add: Let_def)
qed

lemma findHandler_none:
  assumes "match_route rts m path = None" and "match_route rts m (path @ ''/'') = None" and "cleanPath path = path"
  shows "findHandler rts m path = (case matchingMethods rts path of [] \<Rightarrow> NotFoundHandler | allowed \<Rightarrow> MethodNotAllowed allowed)"
proof -
  have p: "(if m = ''CONNECT'' then path else cleanPath path) = path" using assms(3) by simp
  have "slash_redirect rts m path (match_route rts m path) = None" using assms(2) by (simp add: slash_redirect_def exactMatch_def)
  then show ?thesis unfolding findHandler_def p using assms(1) by (simp add: Let_def)
qed

lemma mux_pattern: "hr_pattern (mux_ServeHTTP spec fs redirect serve r s w) \<in> insert [] (rt_pattern ` set server_routes)"
  using findHandler_pattern [of server_routes "hq_method r" "hq_path r"]
  by (auto simp: mux_ServeHTTP_def found_pattern_def Let_def split: found.splits)

lemma openapi_found: "findHandler server_routes m ''/openapi.json'' = Handle OpenAPIJSON [] ''/openapi.json''"
proof -
  have c: "cleanPath ''/openapi.json'' = ''/openapi.json''" by code_simp
  have f: "firstSegment ''/openapi.json'' = (''openapi.json'', [])" by code_simp
  have m: "match_route server_routes m ''/openapi.json'' = Some (server_routes ! 0, [])"
    unfolding match_route_def method_node_def server_routes_table
    by (auto simp: f lit_child_def wild_child_def leaf_def)
  from findHandler_exact [OF m _ c] show ?thesis by (simp add: server_routes_table)
qed

section \<open>The API paths\<close>

definition plain_seg :: "string \<Rightarrow> bool" where
  "plain_seg x \<longleftrightarrow> x \<noteq> [] \<and> CHR ''/'' \<notin> set x \<and> CHR ''%'' \<notin> set x \<and> x \<noteq> ''.'' \<and> x \<noteq> ''..''"

lemma unescape_plain: "CHR ''%'' \<notin> set x \<Longrightarrow> unescape x = Some x"
  by (induction x) auto

lemma plain_split: "plain_seg x \<Longrightarrow> split_on (CHR ''/'') (''/quotes/'' @ x) = [[], ''quotes'', x]"
  by (simp add: plain_seg_def split_on_no_sep)

lemma plain_clean:
  assumes "plain_seg x"
  shows "cleanPath (''/quotes/'' @ x) = ''/quotes/'' @ x"
proof -
  have "last x \<noteq> CHR ''/''" using assms unfolding plain_seg_def by (metis last_in_set)
  then show ?thesis using plain_split [OF assms] assms by (auto simp: cleanPath_def plain_seg_def startsWith_def Let_def)
qed

lemma takeWhile_plain: "CHR ''/'' \<notin> set x \<Longrightarrow> takeWhile (\<lambda>c. c \<noteq> CHR ''/'') x = x"
  "CHR ''/'' \<notin> set x \<Longrightarrow> dropWhile (\<lambda>c. c \<noteq> CHR ''/'') x = []"
  by (auto simp: takeWhile_eq_all_conv dropWhile_eq_Nil_conv)

lemma plain_first:
  assumes "plain_seg x"
  shows "firstSegment (''/quotes/'' @ x) = (''quotes'', ''/'' @ x)"
    and "firstSegment (''/'' @ x) = (x, [])" and "firstSegment (''/quotes/'' @ x @ ''/'') = (''quotes'', ''/'' @ x @ ''/'')"
    and "firstSegment (''/'' @ x @ ''/'') = (x, ''/'')"
proof -
  have x: "CHR ''/'' \<notin> set x" "pathUnescape x = x" "x \<noteq> []" using assms unescape_plain [of x] by (auto simp: plain_seg_def pathUnescape_def)
  have q: "pathUnescape ''quotes'' = ''quotes''" by code_simp
  show "firstSegment (''/quotes/'' @ x) = (''quotes'', ''/'' @ x)" "firstSegment (''/quotes/'' @ x @ ''/'') = (''quotes'', ''/'' @ x @ ''/'')"
    using q by (simp_all add: firstSegment_def)
  show "firstSegment (''/'' @ x) = (x, [])" using x by (simp add: firstSegment_def takeWhile_plain)
  show "firstSegment (''/'' @ x @ ''/'') = (x, ''/'')"
    using x by (auto simp: firstSegment_def takeWhile_append dropWhile_append takeWhile_plain)
qed

lemma empty_node [simp]: "lit_child s [] = []" "wild_child [] = []" "leaf ps [] = None"
  by (simp_all add: lit_child_def wild_child_def leaf_def)

lemma lit_child_Cons [simp]:
  "lit_child s ((Lit a # ps, r) # n) = (if a = s then (ps, r) # lit_child s n else lit_child s n)"
  "lit_child s ((Wild i # ps, r) # n) = lit_child s n" "lit_child s (([], r) # n) = lit_child s n"
  by (simp_all add: lit_child_def)

lemma wild_child_Cons [simp]:
  "wild_child ((Lit a # ps, r) # n) = wild_child n" "wild_child (([], r) # n) = wild_child n"
  "wild_child ((Wild i # ps, r) # n) = (ps, r) # wild_child n"
  by (simp_all add: wild_child_def)

lemma leaf_Cons [simp]: "leaf ps ((qs, r) # n) = (if qs = ps then Some r else leaf ps n)"
  by (simp add: leaf_def)

lemma matchPath_Nil [simp]: "matchPath [] p k = None"
  by (cases p) simp_all

lemma matchPath_step:
  assumes "path \<noteq> []" and "firstSegment path = (seg, rest)"
  shows "matchPath n path ms =
    (case matchPath (lit_child seg n) rest ms of
       Some x \<Rightarrow> Some x
     | None \<Rightarrow>
         (case (if seg = ''/'' then None else matchPath (wild_child n) rest (ms @ [seg])) of
            Some x \<Rightarrow> Some x
          | None \<Rightarrow> map_option (\<lambda>r. (r, ms)) (leaf [Multi] n)))"
proof (cases "n = []")
  case True
  then show ?thesis by simp
next
  case False
  then show ?thesis using assms by (cases path) (simp_all add: Let_def)
qed

declare matchPath.simps(2) [simp del]

lemma nodes:
  "lit_child ''quotes'' (method_node server_routes ''GET'') = [([Lit ''latest''], server_routes ! 5), ([Wild ''id''], server_routes ! 7)]"
  "lit_child ''quotes'' (method_node server_routes ''POST'') = [([Lit ''refresh''], server_routes ! 6)]"
  "m \<noteq> ''GET'' \<Longrightarrow> m \<noteq> ''POST'' \<Longrightarrow> lit_child ''quotes'' (method_node server_routes m) = []"
  "wild_child (method_node server_routes m) = []" "leaf [Multi] (method_node server_routes m) = None"
  by (auto simp: server_routes_table method_node_def lit_child_def wild_child_def leaf_def)

lemma last_step:
  assumes "plain_seg x"
  shows "matchPath [([Lit a], r), ([Wild i], s)] (''/'' @ x) ms = Some (if x = a then (r, ms) else (s, ms @ [x]))"
    and "matchPath [([Lit a], r)] (''/'' @ x) ms = (if x = a then Some (r, ms) else None)"
    and "matchPath [([Lit a], r), ([Wild i], s)] (''/'' @ x @ ''/'') ms = None"
    and "matchPath [([Lit a], r)] (''/'' @ x @ ''/'') ms = None"
proof -
  have x: "x \<noteq> ''/''" using assms by (auto simp: plain_seg_def)
  have q: "''/'' @ y \<noteq> []" for y :: string by simp
  have leaf_only: "matchPath [([], t)] ''/'' k = None" for t :: "'a route" and k
    using matchPath_step [of "''/''" "''/''" "[]" "[([], t)]" k] by (simp add: firstSegment_def)
  note step = matchPath_step [OF q plain_first(2) [OF assms]] matchPath_step [OF q plain_first(4) [OF assms]]
  show "matchPath [([Lit a], r), ([Wild i], s)] (''/'' @ x) ms = Some (if x = a then (r, ms) else (s, ms @ [x]))"
    and "matchPath [([Lit a], r)] (''/'' @ x) ms = (if x = a then Some (r, ms) else None)"
    and "matchPath [([Lit a], r), ([Wild i], s)] (''/'' @ x @ ''/'') ms = None"
    and "matchPath [([Lit a], r)] (''/'' @ x @ ''/'') ms = None"
    unfolding step using x by (simp_all add: leaf_only)
qed

lemma match_quotes:
  assumes "plain_seg x"
  shows "matchPath (method_node server_routes m) (''/quotes/'' @ x) [] =
      (if m = ''GET'' then if x = ''latest'' then Some (server_routes ! 5, []) else Some (server_routes ! 7, [x])
       else if m = ''POST'' \<and> x = ''refresh'' then Some (server_routes ! 6, []) else None)"
    and "matchPath (method_node server_routes m) (''/quotes/'' @ x @ ''/'') [] = None"
proof -
  have q: "''/quotes/'' @ y \<noteq> []" for y :: string by simp
  note step = matchPath_step [OF q plain_first(1) [OF assms]] matchPath_step [OF q plain_first(3) [OF assms]]
  show "matchPath (method_node server_routes m) (''/quotes/'' @ x) [] =
      (if m = ''GET'' then if x = ''latest'' then Some (server_routes ! 5, []) else Some (server_routes ! 7, [x])
       else if m = ''POST'' \<and> x = ''refresh'' then Some (server_routes ! 6, []) else None)"
    and "matchPath (method_node server_routes m) (''/quotes/'' @ x @ ''/'') [] = None"
    unfolding step nodes(4,5)
    by (cases "m = ''GET''"; cases "m = ''POST''"; simp add: nodes(1-3) last_step [OF assms, simplified])+
qed

section \<open>Properties\<close>

lemma match_route_quotes:
  assumes "plain_seg x"
  shows "match_route server_routes m (''/quotes/'' @ x) =
      (if m = ''GET'' \<or> m = ''HEAD'' then if x = ''latest'' then Some (server_routes ! 5, []) else Some (server_routes ! 7, [x])
       else if m = ''POST'' \<and> x = ''refresh'' then Some (server_routes ! 6, []) else None)"
    and "match_route server_routes m (''/quotes/'' @ x @ ''/'') = None"
  unfolding match_route_def match_quotes [OF assms] by simp_all

lemma matchingMethods_quotes:
  assumes "plain_seg x"
  shows "matchingMethods server_routes (''/quotes/'' @ x) = (if x = ''refresh'' then [''GET'', ''HEAD'', ''POST''] else [''GET'', ''HEAD''])"
proof -
  have ms: "map rt_method server_routes = [[], [], ''GET'', ''GET'', ''GET'', ''GET'', ''POST'', ''GET'']" by (simp add: server_routes_table)
  show ?thesis
    unfolding matchingMethods_def Let_def ms using match_quotes [OF assms]
    by (cases "x = ''refresh''") (simp_all add: less_char_def less_eq_char_def)
qed

text \<open>Routing below /quotes/. For every single plain segment the answer of the mux is determined by method and segment:
  GET and HEAD of \<open>latest\<close> reach GetLatestQuote, of any other segment GetQuoteJob with that segment as the id (also
  \<open>refresh\<close>); POST reaches RefreshQuote for \<open>refresh\<close>; everything else is refused with 405 and the
  methods that would have matched, never with a handler of another route.\<close>

lemma findHandler_quotes:
  assumes "plain_seg x"
  shows "findHandler server_routes m (''/quotes/'' @ x) =
     (if m = ''GET'' \<or> m = ''HEAD''
      then if x = ''latest'' then Handle GetLatestQuoteEp [] ''GET /quotes/latest'' else Handle GetQuoteJobEp [x] ''GET /quotes/{id}''
      else if m = ''POST'' \<and> x = ''refresh'' then Handle RefreshQuoteEp [] ''POST /quotes/refresh''
      else MethodNotAllowed (if x = ''refresh'' then [''GET'', ''HEAD'', ''POST''] else [''GET'', ''HEAD'']))"
proof -
  note c = plain_clean [OF assms] and mr = match_route_quotes [OF assms]
  have rt: "last (rt_segments (server_routes ! k)) \<noteq> Multi" if "k \<in> {5, 6, 7}" for k
    using that by (auto simp: server_routes_table)
  have hs: "rt_handler (server_routes ! 5) = GetLatestQuoteEp" "rt_handler (server_routes ! 6) = RefreshQuoteEp"
    "rt_handler (server_routes ! 7) = GetQuoteJobEp" "rt_pattern (server_routes ! 5) = ''GET /quotes/latest''"
    "rt_pattern (server_routes ! 6) = ''POST /quotes/refresh''" "rt_pattern (server_routes ! 7) = ''GET /quotes/{id}''"
    by (simp_all add: server_routes_table)
  show ?thesis
  proof (cases "match_route server_routes m (''/quotes/'' @ x)")
    case None
    then have m: "\<not> (m = ''GET'' \<or> m = ''HEAD'')" "\<not> (m = ''POST'' \<and> x = ''refresh'')"
      unfolding mr(1) by (auto simp only: if_True simp_thms split: if_splits)
    have "match_route server_routes m ((''/quotes/'' @ x) @ ''/'') = None" unfolding append_assoc by (rule mr(2))
    from findHandler_none [OF None this c] m show ?thesis
      unfolding matchingMethods_quotes [OF assms] by (cases "x = ''refresh''") (simp_all only: if_False if_True list.case simp_thms)
  next
    case (Some p)
    consider "m = ''GET'' \<or> m = ''HEAD''" "x = ''latest''" | "m = ''GET'' \<or> m = ''HEAD''" "x \<noteq> ''latest''"
      | "\<not> (m = ''GET'' \<or> m = ''HEAD'')" "m = ''POST'' \<and> x = ''refresh''"
      using Some unfolding mr(1) by (metis option.distinct(1))
    then show ?thesis
    proof cases
      case 1
      then have "match_route server_routes m (''/quotes/'' @ x) = Some (server_routes ! 5, [])" unfolding mr(1) by simp
      from findHandler_exact [OF this rt c] 1 hs show ?thesis by simp
    next
      case 2
      then have "match_route server_routes m (''/quotes/'' @ x) = Some (server_routes ! 7, [x])" unfolding mr(1) by simp
      from findHandler_exact [OF this rt c] 2 hs show ?thesis by simp
    next
      case 3
      then have "match_route server_routes m (''/quotes/'' @ x) = Some (server_routes ! 6, [])" unfolding mr(1) by simp
      from findHandler_exact [OF this rt c] 3 hs show ?thesis by simp
    qed
  qed
qed

lemma metrics_found: "findHandler server_routes ''GET'' ''/metrics'' = Handle MetricsEp [] ''GET /metrics''"
  by code_simp

text \<open>Both initializers ask for a URL that the server routes, for every method, to the OpenAPI handler.\<close>

lemma docs_reach_spec:
  "findHandler server_routes m (index_onload ui_url a b c) = Handle OpenAPIJSON [] ''/openapi.json''"
  "window_onload bundle a b c = index_onload bundle a b c"
  by (simp_all add: index_onload_def window_onload_def openapi_found)

text \<open>C32: The labels of the HTTP metrics. The path label is always one of the eight registered patterns, so that concrete
  URLs never become label values: if the request counter of any label moves, the label is the method of the request, a
  pattern of the table, and a status. The method label is not bounded: for every method whatsoever, a request for
  /openapi.json moves the counter labelled with it.\<close>

theorem http_metric_labels:
  "(\<forall>l. counter MetricHTTPRequestsTotal l (hr_world (Metrics (mux_ServeHTTP spec fs redirect serve) r s w)) \<noteq>
       counter MetricHTTPRequestsTotal l (hr_world (mux_ServeHTTP spec fs redirect serve r s (tick (emit (GaugeAdd MetricHTTPInFlightRequests 1) w)))) \<longrightarrow>
       (\<exists>p st. l = [hq_method r, p, st] \<and> p \<in> rt_pattern ` set server_routes))
   \<and> (hq_path r = ''/openapi.json'' \<longrightarrow>
       counter MetricHTTPRequestsTotal [hq_method r, ''/openapi.json'', ''200''] (hr_world (Metrics (mux_ServeHTTP (Inr d) fs redirect serve) r s w)) =
       counter MetricHTTPRequestsTotal [hq_method r, ''/openapi.json'', ''200''] w + 1)"
proof -
  define inner where "inner = mux_ServeHTTP spec fs redirect serve r s (tick (emit (GaugeAdd MetricHTTPInFlightRequests 1) w))"
  have pat: "hr_pattern inner \<in> insert [] (rt_pattern ` set server_routes)" unfolding inner_def by (rule mux_pattern)
  have "\<exists>p st. l = [hq_method r, p, st] \<and> p \<in> rt_pattern ` set server_routes"
    if "counter MetricHTTPRequestsTotal l (hr_world (Metrics (mux_ServeHTTP spec fs redirect serve) r s w)) \<noteq> counter MetricHTTPRequestsTotal l (hr_world inner)" for l
    using that pat unfolding Metrics_def Let_def inner_def [symmetric] by (auto split: option.splits if_splits)
  moreover have "show_int 200 = ''200''" by code_simp
  then have "counter MetricHTTPRequestsTotal [hq_method r, ''/openapi.json'', ''200''] (hr_world (Metrics (mux_ServeHTTP (Inr d) fs redirect serve) r s w)) =
       counter MetricHTTPRequestsTotal [hq_method r, ''/openapi.json'', ''200''] w + 1" if "hq_path r = ''/openapi.json''"
    using that by (simp add: Metrics_def Let_def mux_ServeHTTP_def openapi_found OpenAPIJSONHandler_def capture_run_def)
  ultimately show ?thesis unfolding inner_def by blast
qed

theorem http_metric_labels_witness:
  "counter MetricHTTPRequestsTotal [''BREW'', ''/openapi.json'', ''200'']
     (hr_world (Metrics (mux_ServeHTTP (Inr ''{}'') (OpenAPIJSONHandler (Inr [])) (\<lambda>t. OpenAPIJSONHandler (Inr [])) (\<lambda>e ms. OpenAPIJSONHandler (Inr [])))
       (sample_hreq ''BREW'' ''/openapi.json'') () sample_world)) = 1"
  using http_metric_labels [of "Inr []" "OpenAPIJSONHandler (Inr [])" "\<lambda>t. OpenAPIJSONHandler (Inr [])" "\<lambda>e ms. OpenAPIJSONHandler (Inr [])"
      "sample_hreq ''BREW'' ''/openapi.json''" "()" sample_world "''{}''"]
  by (simp add: counter_def sample_world_def sample_hreq_def)

end
