(* ===== verification/Health.thy ===== *)
theory Health
  imports Worker Scheduler
begin

text \<open>
  Liveness and readiness: \<open>internal/health\<close> (\<open>healthz.go\<close>, \<open>readyz.go\<close>, \<open>worker.go\<close>,
  \<open>scheduler.go\<close>) and the scrape-time gauge \<open>internal/obs/scheduler_gauge.go\<close>. A checker is a
  name and a function of the world, because the heartbeat checkers read the clock. The ping of
  the pool belongs to the driver and is the argument of the Postgres checker.
\<close>

section \<open>Liveness\<close>

record probe_response =
  pr_code :: int
  pr_contentType :: string
  pr_status :: string
  pr_checks :: "(string \<times> string) list"

definition Healthz :: probe_response where
  "Healthz = \<lparr>pr_code = 200, pr_contentType = ''application/json'', pr_status = ''ok'', pr_checks = []\<rparr>"

section \<open>Checkers\<close>

record checker =
  ck_Name :: string
  ck_Check :: "world \<Rightarrow> string \<times> world"

definition newlines_to_blanks :: "string \<Rightarrow> string" where
  "newlines_to_blanks s = map (\<lambda>c. if c = CHR 0x0A then CHR '' '' else c) s"

definition PostgresChecker :: "error option \<Rightarrow> checker" where
  "PostgresChecker ping = \<lparr>ck_Name = ''postgres'',
     ck_Check = (\<lambda>w. (case ping of Some err \<Rightarrow> ''fail: '' @ newlines_to_blanks (Error err) | None \<Rightarrow> ''ok'', w))\<rparr>"

text \<open>\<open>time.Since\<close> saturates at the ends of the duration range.\<close>

definition Since :: "time \<Rightarrow> time \<Rightarrow> duration" where
  "Since now t = max (- (2 ^ 63)) (min (2 ^ 63 - 1) (now - t))"

text \<open>\<open>Duration.String\<close> of a duration truncated to whole seconds.\<close>

definition seconds_text :: "duration \<Rightarrow> string" where
  "seconds_text d =
     (let s = nat \<bar>go_quot d second\<bar>; h = s div 3600; m = (s div 60) mod 60; r = s mod 60
      in (if go_quot d second < 0 then ''-'' else [])
         @ (if 0 < h then show_nat h @ ''h'' else []) @ (if 0 < h \<or> 0 < m then show_nat m @ ''m'' else [])
         @ show_nat r @ ''s'')"

definition heartbeat_check :: "string \<Rightarrow> string \<Rightarrow> time \<Rightarrow> duration \<Rightarrow> world \<Rightarrow> string \<times> world" where
  "heartbeat_check never stale seen threshold w =
     (if IsZero seen then (never, w)
      else
        let since = Since (Now w) seen
        in (if threshold < since then stale @ seconds_text since @ '' ago'' else ''ok'', tick w))"

definition WorkerChecker :: "('s, 'p, 'r) wk_state \<Rightarrow> duration \<Rightarrow> checker" where
  "WorkerChecker st threshold = \<lparr>ck_Name = ''worker'',
     ck_Check = heartbeat_check ''degraded: no iteration observed'' ''degraded: last iteration '' (LastIteration st) threshold\<rparr>"

definition SchedulerChecker :: "('s, 'g) sch_state \<Rightarrow> duration \<Rightarrow> checker" where
  "SchedulerChecker st threshold = \<lparr>ck_Name = ''scheduler'',
     ck_Check = heartbeat_check ''degraded: no tick observed'' ''degraded: last tick '' (LastTick st) threshold\<rparr>"

section \<open>Readiness\<close>

fun run_hard :: "checker list \<Rightarrow> (string \<times> string) list \<Rightarrow> bool \<Rightarrow> world \<Rightarrow> (string \<times> string) list \<times> bool \<times> world" where
  "run_hard [] checks failed w = (checks, failed, w)"
| "run_hard (c # cs) checks failed w =
     (case ck_Check c w of (res, w1) \<Rightarrow> run_hard cs (AList.update (ck_Name c) res checks) (failed \<or> res \<noteq> ''ok'') w1)"

fun run_soft :: "checker list \<Rightarrow> (string \<times> string) list \<Rightarrow> world \<Rightarrow> (string \<times> string) list \<times> world" where
  "run_soft [] checks w = (checks, w)"
| "run_soft (c # cs) checks w = (case ck_Check c w of (res, w1) \<Rightarrow> run_soft cs (AList.update (ck_Name c) res checks) w1)"

definition Readyz :: "checker list \<Rightarrow> checker list \<Rightarrow> world \<Rightarrow> probe_response \<times> world" where
  "Readyz hard soft w =
     (case run_hard hard [] False w of (checks, hardFailed, w1) \<Rightarrow>
        case run_soft soft checks w1 of (checks2, w2) \<Rightarrow>
          (\<lparr>pr_code = (if hardFailed then 503 else 200), pr_contentType = ''application/json'',
            pr_status = (if hardFailed then ''fail'' else ''ok''), pr_checks = checks2\<rparr>, w2))"

section \<open>The scheduler gauge\<close>

text \<open>\<open>scheduler_last_tick_seconds_ago\<close>, in nanoseconds.\<close>

definition SchedulerLastTickGauge :: "('s, 'g) sch_state \<Rightarrow> world \<Rightarrow> duration \<times> world" where
  "SchedulerLastTickGauge st w = (Since (Now w) (LastTick st), tick w)"

section \<open>Which checks decide\<close>

fun hard_results :: "checker list \<Rightarrow> world \<Rightarrow> string list" where
  "hard_results [] w = []"
| "hard_results (c # cs) w = fst (ck_Check c w) # hard_results cs (snd (ck_Check c w))"

lemma run_hard_failed: "fst (snd (run_hard cs checks failed w)) \<longleftrightarrow> failed \<or> (\<exists>r \<in> set (hard_results cs w). r \<noteq> ''ok'')"
  by (induction cs checks failed w rule: run_hard.induct) (auto split: prod.splits)

lemma keys_update: "fst ` set (AList.update k v xs) = insert k (fst ` set xs)"
  by (induction xs) auto

lemma run_hard_keys: "fst ` set (fst (run_hard cs checks failed w)) = fst ` set checks \<union> ck_Name ` set cs"
  by (induction cs checks failed w rule: run_hard.induct) (auto simp: keys_update split: prod.splits)

lemma run_soft_keys: "fst ` set (fst (run_soft cs checks w)) = fst ` set checks \<union> ck_Name ` set cs"
  by (induction cs checks w rule: run_soft.induct) (auto simp: keys_update split: prod.splits)

section \<open>Properties\<close>

lemma run_soft_other: "k \<notin> ck_Name ` set cs \<Longrightarrow> map_of (fst (run_soft cs checks w)) k = map_of checks k"
  by (induction cs checks w rule: run_soft.induct) (auto simp: update_conv' split: prod.splits)

lemma heartbeat_ok:
  "fst (heartbeat_check never stale seen d w) = ''ok'' \<longleftrightarrow> (if IsZero seen then never = ''ok'' else Since (Now w) seen \<le> d)"
  if "\<And>s. stale @ s \<noteq> ''ok''"
  using that by (auto simp: heartbeat_check_def Let_def not_le)

lemma heartbeat_world: "snd (heartbeat_check never stale seen d w) = (if IsZero seen then w else tick w)"
  by (simp add: heartbeat_check_def Let_def)

lemma postgres_text:
  "(case ping of Some err \<Rightarrow> ''fail: '' @ newlines_to_blanks (Error err) | None \<Rightarrow> ''ok'') = ''ok'' \<longleftrightarrow> ping = None"
  "CHR 0x0A \<notin> set (case ping of Some err \<Rightarrow> ''fail: '' @ newlines_to_blanks (Error err) | None \<Rightarrow> ''ok'')"
  by (auto simp: newlines_to_blanks_def split: option.splits if_splits)


end
