(* ===== verification/Server.thy ===== *)
theory Server
  imports Routes Health
begin

text \<open>
  The HTTP server put together: the generated wrappers of \<open>internal/api/oapi_gen.go\<close>, which decode the parameters of
  a request before they call the handlers of \<open>Api\<close>, the endpoints of \<open>Health\<close>, the mux of \<open>Routes\<close> and the
  middleware chain of \<open>Httpmw\<close>, all over one state (queue, quotes, id generator). The parameter binder of the
  runtime package, the metrics page, the file server and the redirect handler are arguments.
\<close>

section \<open>Decoding parameters\<close>

text \<open>What \<open>runtime.BindQueryParameterWithOptions\<close> and \<open>runtime.BindStyledParameterWithOptions\<close> answer: the value, or an
  error, of which the wrapper tells the required-parameter error apart. A UUID is kept as its canonical text.\<close>

datatype bind_error = RequiredParameterError | BindError string

record bind_env =
  be_query :: "string \<Rightarrow> (string \<times> string list) list \<Rightarrow> bind_error + string"
  be_header :: "string \<Rightarrow> string \<Rightarrow> string + string"
  be_uuid :: "string \<Rightarrow> string + string"

definition RequiredParamError :: "string \<Rightarrow> error" where
  "RequiredParamError name = ErrorsNew (''Query argument '' @ name @ '' is required, but not found'')"

definition InvalidParamFormatError :: "string \<Rightarrow> string \<Rightarrow> error" where
  "InvalidParamFormatError name err = ErrorsNew (''Invalid format for parameter '' @ name @ '': '' @ err)"

definition TooManyValuesForParamError :: "string \<Rightarrow> nat \<Rightarrow> error" where
  "TooManyValuesForParamError name n = ErrorsNew (''Expected one value for '' @ name @ '', got '' @ show_nat n)"

text \<open>The text the binder gives its required-parameter error reaches the client only through the wrapper's own error.\<close>

definition required_query :: "bind_env \<Rightarrow> string \<Rightarrow> hreq \<Rightarrow> error + string" where
  "required_query be name r =
     (case be_query be name (hq_query r) of
        Inr v \<Rightarrow> Inr v
      | Inl RequiredParameterError \<Rightarrow> Inl (RequiredParamError name)
      | Inl (BindError e) \<Rightarrow> Inl (InvalidParamFormatError name e))"

definition optional_header :: "bind_env \<Rightarrow> string \<Rightarrow> hreq \<Rightarrow> error + string option" where
  "optional_header be name r =
     (case map_of (hq_header r) name of
        None \<Rightarrow> Inr None
      | Some valueList \<Rightarrow>
          if length valueList \<noteq> 1 then Inl (TooManyValuesForParamError name (length valueList))
          else (case be_header be name (valueList ! 0) of
                  Inl e \<Rightarrow> Inl (InvalidParamFormatError name e)
                | Inr v \<Rightarrow> Inr (Some v)))"

record get_latest_params =
  glp_Base :: string
  glp_Quote :: string
  glp_XRequestId :: "string option"
  glp_IfNoneMatch :: "string option"

record get_job_params =
  gjp_id :: string
  gjp_XRequestId :: "string option"
  gjp_IfNoneMatch :: "string option"

definition latest_params :: "bind_env \<Rightarrow> hreq \<Rightarrow> error + get_latest_params" where
  "latest_params be r =
     (case required_query be ''base'' r of
        Inl e \<Rightarrow> Inl e
      | Inr base \<Rightarrow>
     (case required_query be ''quote'' r of
        Inl e \<Rightarrow> Inl e
      | Inr quote \<Rightarrow>
     (case optional_header be ''X-Request-Id'' r of
        Inl e \<Rightarrow> Inl e
      | Inr rid \<Rightarrow>
     (case optional_header be ''If-None-Match'' r of
        Inl e \<Rightarrow> Inl e
      | Inr inm \<Rightarrow> Inr \<lparr>glp_Base = base, glp_Quote = quote, glp_XRequestId = rid, glp_IfNoneMatch = inm\<rparr>))))"

definition job_params :: "bind_env \<Rightarrow> string \<Rightarrow> hreq \<Rightarrow> error + get_job_params" where
  "job_params be pathId r =
     (case be_uuid be pathId of
        Inl e \<Rightarrow> Inl (InvalidParamFormatError ''id'' e)
      | Inr jid \<Rightarrow>
     (case optional_header be ''X-Request-Id'' r of
        Inl e \<Rightarrow> Inl e
      | Inr rid \<Rightarrow>
     (case optional_header be ''If-None-Match'' r of
        Inl e \<Rightarrow> Inl e
      | Inr inm \<Rightarrow> Inr \<lparr>gjp_id = jid, gjp_XRequestId = rid, gjp_IfNoneMatch = inm\<rparr>)))"

section \<open>The wrappers\<close>

record ('s, 'r, 'g) srv =
  sv_queue :: 's
  sv_repo :: 'r
  sv_idgen :: 'g

definition api_request :: "hreq \<Rightarrow> request" where
  "api_request r = \<lparr>rq_ContentType = Header_Get r ''Content-Type'', rq_IfNoneMatch = Header_Get r ''If-None-Match'', rq_Body = hq_body r\<rparr>"

text \<open>A response as calls on the writer, and a handler result from them.\<close>

definition response_acts :: "response \<Rightarrow> action list" where
  "response_acts rs = map (\<lambda>(k, v). SetHeader k v) (rs_headers rs)
     @ WriteHeader (rs_status rs) # (case rs_body rs of NoBody \<Rightarrow> [] | b \<Rightarrow> [Write (JsonBody b)])"

definition answer :: "response \<Rightarrow> 's \<Rightarrow> world \<Rightarrow> 's hresult" where
  "answer rs s w = \<lparr>hr_acts = response_acts rs, hr_panic = None, hr_pattern = [], hr_state = s, hr_world = w\<rparr>"

definition siw_GetLatestQuote ::
    "bind_env \<Rightarrow> ('r, 'd) repo_ops \<Rightarrow> ('d, 'g) api_env \<Rightarrow> ('s, 'r, 'g) srv handler" where
  "siw_GetLatestQuote be rops env r s w =
     (case latest_params be r of
        Inl err \<Rightarrow> answer (JSONErrorHandler err) s w
      | Inr params \<Rightarrow>
          (case GetLatestQuote rops env (api_request r) (glp_Base params) (glp_Quote params) (sv_repo s) w of
             (rs, r1, w1) \<Rightarrow> answer rs (s\<lparr>sv_repo := r1\<rparr>) w1))"

definition siw_RefreshQuote ::
    "bind_env \<Rightarrow> ('s, 'd) queue_ops \<Rightarrow> ('d, 'g) api_env \<Rightarrow> ('s, 'r, 'g) srv handler" where
  "siw_RefreshQuote be qops env r s w =
     (case optional_header be ''X-Request-Id'' r of
        Inl err \<Rightarrow> answer (JSONErrorHandler err) s w
      | Inr rid \<Rightarrow>
          (case RefreshQuote qops env (api_request r) (sv_queue s) (sv_idgen s) w of
             (Ok rs, q1, g1, w1) \<Rightarrow> answer rs (s\<lparr>sv_queue := q1, sv_idgen := g1\<rparr>) w1
           | (Panic m, q1, g1, w1) \<Rightarrow>
               \<lparr>hr_acts = [], hr_panic = Some m, hr_pattern = [], hr_state = s\<lparr>sv_queue := q1, sv_idgen := g1\<rparr>, hr_world = w1\<rparr>))"

text \<open>The headers \<open>renderDone\<close> and \<open>renderFailed\<close> have set when the view lacks a field and they panic.\<close>

definition view_headers :: "'d job_view \<Rightarrow> (string \<times> string) list" where
  "view_headers v = terminal_headers (if jv_Status v = ''done'' then done_etag (jv_ID v) else failed_etag (jv_ID v))"

definition siw_GetQuoteJob ::
    "bind_env \<Rightarrow> ('s, 'd) queue_ops \<Rightarrow> ('d, 'g) api_env \<Rightarrow> string \<Rightarrow> ('s, 'r, 'g) srv handler" where
  "siw_GetQuoteJob be qops env pathId r s w =
     (case job_params be pathId r of
        Inl err \<Rightarrow> answer (JSONErrorHandler err) s w
      | Inr params \<Rightarrow>
          (case GetQuoteJob qops env (api_request r) (gjp_id params) (sv_queue s) w of
             (Ok rs, q1, w1) \<Rightarrow> answer rs (s\<lparr>sv_queue := q1\<rparr>) w1
           | (Panic m, q1, w1) \<Rightarrow>
               \<lparr>hr_acts = (case GetByID qops (gjp_id params) (sv_queue s) w of
                    (Inr v, _) \<Rightarrow> map (\<lambda>(k, x). SetHeader k x) (view_headers v) | _ \<Rightarrow> []),
                hr_panic = Some m, hr_pattern = [], hr_state = s\<lparr>sv_queue := q1\<rparr>, hr_world = w1\<rparr>))"

section \<open>All endpoints, and the server\<close>

record ('s, 'r, 'd, 'g) server_env =
  se_bind :: bind_env
  se_queue :: "('s, 'd) queue_ops"
  se_repo :: "('r, 'd) repo_ops"
  se_api :: "('d, 'g) api_env"
  se_hard :: "checker list"
  se_soft :: "checker list"
  se_metrics :: "('s, 'r, 'g) srv handler"
  se_spec :: "string + string"
  se_files :: "('s, 'r, 'g) srv handler"
  se_redirect :: "string \<Rightarrow> ('s, 'r, 'g) srv handler"

definition healthzBody :: string where
  \<open>healthzBody = ''{"status":"ok"}''\<close>

definition healthz_handler :: "'s handler" where
  "healthz_handler r s w =
     \<lparr>hr_acts = [SetHeader ''Content-Type'' (pr_contentType Healthz), WriteHeader (pr_code Healthz), Write (Bytes healthzBody)],
      hr_panic = None, hr_pattern = [], hr_state = s, hr_world = w\<rparr>"

definition readyz_handler :: "checker list \<Rightarrow> checker list \<Rightarrow> 's handler" where
  "readyz_handler hard soft r s w =
     (case Readyz hard soft w of (p, w1) \<Rightarrow>
        \<lparr>hr_acts = [SetHeader ''Content-Type'' (pr_contentType p), WriteHeader (pr_code p), Write (JsonProbe (pr_status p) (pr_checks p))],
         hr_panic = None, hr_pattern = [], hr_state = s, hr_world = w1\<rparr>)"

text \<open>The endpoints behind the mux; the single wildcard of the job route is its id.\<close>

definition serve_endpoint :: "('s, 'r, 'd, 'g) server_env \<Rightarrow> endpoint \<Rightarrow> string list \<Rightarrow> ('s, 'r, 'g) srv handler" where
  "serve_endpoint se e ms =
     (case e of
        OpenAPIJSON \<Rightarrow> OpenAPIJSONHandler (se_spec se)
      | SwaggerUI \<Rightarrow> SwaggerUIHandler (se_files se)
      | HealthzEp \<Rightarrow> healthz_handler
      | MetricsEp \<Rightarrow> se_metrics se
      | ReadyzEp \<Rightarrow> readyz_handler (se_hard se) (se_soft se)
      | GetLatestQuoteEp \<Rightarrow> siw_GetLatestQuote (se_bind se) (se_repo se) (se_api se)
      | RefreshQuoteEp \<Rightarrow> siw_RefreshQuote (se_bind se) (se_queue se) (se_api se)
      | GetQuoteJobEp \<Rightarrow> siw_GetQuoteJob (se_bind se) (se_queue se) (se_api se) (case ms of [] \<Rightarrow> [] | m # _ \<Rightarrow> m))"

definition server_mux :: "('s, 'r, 'd, 'g) server_env \<Rightarrow> ('s, 'r, 'g) srv handler" where
  "server_mux se = mux_ServeHTTP (se_spec se) (se_files se) (se_redirect se) (serve_endpoint se)"

definition server_handler ::
    "(world \<Rightarrow> string \<times> world) \<Rightarrow> validator option \<Rightarrow> ('s, 'r, 'd, 'g) server_env \<Rightarrow> ('s, 'r, 'g) srv handler" where
  "server_handler newid spec se = server_chain newid spec (server_mux se)"

section \<open>A calm request through the chain\<close>

lemma inner_request_sel [simp]:
  "hq_method (inner_request newid r w) = hq_method r" "hq_path (inner_request newid r w) = hq_path r"
  "hq_query (inner_request newid r w) = hq_query r" "hq_header (inner_request newid r w) = hq_header r"
  "hq_body (inner_request newid r w) = hq_body r" "Header_Get (inner_request newid r w) k = Header_Get r k"
  "api_request (inner_request newid r w) = api_request r"
  "optional_header be name (inner_request newid r w) = optional_header be name r"
  "required_query be name (inner_request newid r w) = required_query be name r"
  by (simp_all add: inner_request_def Header_Get_def api_request_def optional_header_def required_query_def)

lemma inner_params [simp]:
  "latest_params be (inner_request newid r w) = latest_params be r" "job_params be i (inner_request newid r w) = job_params be i r"
  unfolding latest_params_def job_params_def inner_request_sel by (rule refl)+

lemma chain_calm:
  assumes "hr_panic (mux (inner_request newid r w) s (inner_world newid r w)) = None"
    and "list_all sends_final (hr_acts (mux (inner_request newid r w) s (inner_world newid r w)))"
  defines "inner \<equiv> mux (inner_request newid r w) s (inner_world newid r w)"
    and "res \<equiv> server_chain newid None mux r s w"
  shows "hr_panic res = None" and "hr_state res = hr_state inner" and "reads (hr_world res) = reads (hr_world inner) + 1"
    and "wire_run (hr_acts res) fresh_wire = wire_run (hr_acts inner) (fresh_wire\<lparr>wi_headers := [(''X-Request-Id'', fst (request_id newid r w))]\<rparr>)"
    and "hr_pattern inner \<noteq> [] \<Longrightarrow>
      counter MetricHTTPRequestsTotal [hq_method r, hr_pattern inner, show_int (wire_status (hr_acts inner))] (hr_world res)
      = counter MetricHTTPRequestsTotal [hq_method r, hr_pattern inner, show_int (wire_status (hr_acts inner))] (hr_world inner) + 1"
    and "clk (hr_world res) = clk (hr_world inner)"
proof -
  let ?m = "Metrics mux (inner_request newid r w) s (snd (request_id newid r w))"
  have fin: "list_all sends_final (hr_acts inner)" using assms(2) by (simp add: inner_def)
  have calm: "hr_panic ?m = None" using assms(1) by (simp add: Metrics_def inner_world_def Let_def)
  have ov: "OpenAPIValidate None mux = mux" by (simp add: OpenAPIValidate_def fun_eq_iff)
  have res: "res = ?m\<lparr>hr_acts := SetHeader ''X-Request-Id'' (fst (request_id newid r w)) # hr_acts ?m\<rparr>"
    using calm unfolding res_def server_chain_def RequestID_eq ov by (simp add: Let_def PanicRecover_def)
  have m: "hr_acts ?m = cw_forwarded (capture_run (hr_acts inner))" "hr_state ?m = hr_state inner" "reads (hr_world ?m) = reads (hr_world inner) + 1"
      "clk (hr_world ?m) = clk (hr_world inner)"
    using assms(1) by (simp_all add: Metrics_def Let_def inner_world_def inner_def)
  show "hr_panic res = None" "hr_state res = hr_state inner" "reads (hr_world res) = reads (hr_world inner) + 1"
    "clk (hr_world res) = clk (hr_world inner)" using res calm m by simp_all
  show "wire_run (hr_acts res) fresh_wire = wire_run (hr_acts inner) (fresh_wire\<lparr>wi_headers := [(''X-Request-Id'', fst (request_id newid r w))]\<rparr>)"
    using capture_run_same [OF _ fin, of "fresh_wire\<lparr>wi_headers := [(''X-Request-Id'', fst (request_id newid r w))]\<rparr>"]
    unfolding res by (simp add: m fresh_wire_def wire_run_def)
  show "counter MetricHTTPRequestsTotal [hq_method r, hr_pattern inner, show_int (wire_status (hr_acts inner))] (hr_world res)
      = counter MetricHTTPRequestsTotal [hq_method r, hr_pattern inner, show_int (wire_status (hr_acts inner))] (hr_world inner) + 1"
    if "hr_pattern inner \<noteq> []"
  proof -
    have "cw_status (capture_run (hr_acts inner)) = wire_status (hr_acts inner)"
      unfolding capture_status [OF fin, symmetric] by (simp add: wire_status_def capture_run_same [OF _ fin] fresh_wire_def)
    with that assms(1) show ?thesis unfolding res by (simp add: Metrics_def Let_def inner_world_def inner_def)
  qed
qed

text \<open>What the client receives of a response.\<close>

lemma wire_set_headers:
  "wi_status fr = None \<Longrightarrow> wire_run (map (\<lambda>(k, v). SetHeader k v) hs) fr = fr\<lparr>wi_headers := fold (\<lambda>(k, v). AList.update k v) hs (wi_headers fr)\<rparr>"
  by (induction hs arbitrary: fr) (auto simp: wire_run_def)

definition body_chunks :: "body \<Rightarrow> chunk list" where
  "body_chunks b = (case b of NoBody \<Rightarrow> [] | _ \<Rightarrow> [JsonBody b])"

lemma wire_response:
  assumes "wi_status fr = None" and "\<not> informational (rs_status rs)"
  shows "wire_run (response_acts rs) fr = fr\<lparr>wi_status := Some (rs_status rs),
    wi_headers := fold (\<lambda>(k, v). AList.update k v) (rs_headers rs) (wi_headers fr), wi_body := wi_body fr @ body_chunks (rs_body rs)\<rparr>"
proof -
  have "wire_run (response_acts rs) fr = wire_run (WriteHeader (rs_status rs) # (case rs_body rs of NoBody \<Rightarrow> [] | b \<Rightarrow> [Write (JsonBody b)]))
      (fr\<lparr>wi_headers := fold (\<lambda>(k, v). AList.update k v) (rs_headers rs) (wi_headers fr)\<rparr>)"
    unfolding response_acts_def wire_run_append using wire_set_headers [OF assms(1)] by simp
  with assms show ?thesis by (cases "rs_body rs") (simp_all add: wire_run_def body_chunks_def)
qed

text \<open>The wire response of the server to a request its endpoint answers with \<open>rs\<close>.\<close>

definition sent :: "string \<Rightarrow> response \<Rightarrow> wire_response" where
  "sent rid rs = \<lparr>wi_info = [], wi_status = Some (rs_status rs),
     wi_headers = fold (\<lambda>(k, v). AList.update k v) (rs_headers rs) [(''X-Request-Id'', rid)], wi_body = body_chunks (rs_body rs)\<rparr>"

lemma server_answers:
  assumes "findHandler server_routes (hq_method r) (hq_path r) = Handle e ms pat" and "e \<notin> {OpenAPIJSON, SwaggerUI}" and "pat \<noteq> []"
    and "serve_endpoint se e ms (inner_request newid r w) s (inner_world newid r w) = answer rs s' w'" and "\<not> informational (rs_status rs)"
  defines "res \<equiv> server_handler newid None se r s w"
  shows "hr_panic res = None \<and> hr_state res = s' \<and> reads (hr_world res) = reads w' + 1
    \<and> wire_run (hr_acts res) fresh_wire = sent (fst (request_id newid r w)) rs
    \<and> counter MetricHTTPRequestsTotal [hq_method r, pat, show_int (rs_status rs)] (hr_world res)
        = counter MetricHTTPRequestsTotal [hq_method r, pat, show_int (rs_status rs)] w' + 1
    \<and> clk (hr_world res) = clk w'"
proof -
  have inner: "server_mux se (inner_request newid r w) s (inner_world newid r w) = (answer rs s' w')\<lparr>hr_pattern := pat\<rparr>"
    using assms(1-4) by (cases e) (simp_all add: server_mux_def mux_ServeHTTP_def)
  have st: "wire_status (response_acts rs) = rs_status rs" using assms(5) by (simp add: wire_status_def wire_response fresh_wire_def)
  have fin: "list_all sends_final (hr_acts (server_mux se (inner_request newid r w) s (inner_world newid r w)))"
    using assms(5) by (cases "rs_body rs") (auto simp: inner answer_def response_acts_def list_all_iff)
  have calm: "hr_panic (server_mux se (inner_request newid r w) s (inner_world newid r w)) = None" by (simp add: inner answer_def)
  note cc = chain_calm [where mux = "server_mux se", OF calm fin, unfolded inner]
  show ?thesis
    using cc assms(3,5) unfolding res_def server_handler_def by (simp add: answer_def st wire_response fresh_wire_def sent_def)
qed

section \<open>Refresh and the job page, end to end\<close>

text \<open>A refresh request that the server over Postgres has to accept: the route, a JSON body with a valid pair, at most one
  request id, a store without failures ahead, and ids in the canonical form of every reader.\<close>

definition refresh_ready ::
    "'d pg_env \<Rightarrow> ('d pgdb, 'r, 'd, 'g) server_env \<Rightarrow> hreq \<Rightarrow> ('d pgdb, 'r, 'g) srv \<Rightarrow> string \<Rightarrow> string \<Rightarrow> bool" where
  "refresh_ready genv se r s base quote \<longleftrightarrow>
     se_queue se = pg_ops genv \<and> pg_invar (sv_queue s) \<and> pg_quiet (sv_queue s) \<and> second \<le> ae_coalescingWindow (se_api se)
     \<and> hq_method r = ''POST'' \<and> hq_path r = ''/quotes/refresh'' \<and> contains_sub (Header_Get r ''Content-Type'') ''application/json''
     \<and> (\<exists>x. optional_header (se_bind se) ''X-Request-Id'' r = Inr x)
     \<and> decode_refresh (hq_body r) = Some (base, quote) \<and> valid_pair (ae_whitelist (se_api se)) base quote
     \<and> fst (ae_newid (se_api se) (sv_idgen s)) \<notin> dom (pg_abs (sv_queue s))
     \<and> (\<forall>i. i = fst (ae_newid (se_api se) (sv_idgen s)) \<or> i \<in> dom (pg_abs (sv_queue s)) \<longrightarrow>
          pe_uuid genv i = Some i \<and> ae_uuid_Parse (se_api se) i = (i, True))"

lemma pg_refresh_clk:
  assumes "RefreshQuote (pg_ops genv) env rq db g w = (out, db', g', w')"
  shows "clk w' = clk w"
proof -
  have "w' = w \<or> w' = tick w \<or> (\<exists>j r. pg_Enqueue genv j db (tick w) = (r, db', w'))"
    using assms unfolding RefreshQuote_def Let_def op_defs
    by (auto split: if_splits option.splits prod.splits res.splits sum.splits bool.splits)
  moreover have "clk w' = clk w" if "pg_Enqueue genv j db (tick w) = (r, db', w')" for j r
    using that unfolding pg_Enqueue_def Let_def by (auto split: if_splits prod.splits sum.splits bool.splits option.splits)
  ultimately show ?thesis by auto
qed

lemma refresh_sent:
  fixes newid :: "world \<Rightarrow> string \<times> world" and w :: world
  assumes "refresh_ready genv se r s base quote"
  defines "res \<equiv> server_handler newid None se r s w" and "q \<equiv> pg_abs (sv_queue s)"
  obtains (sent) key jid x where "DedupKey base quote (Now (inner_world newid r w)) (ae_coalescingWindow (se_api se)) = Ok key"
    "hr_panic res = None" "wire_run (hr_acts res) fresh_wire = sent (fst (request_id newid r w)) (accepted_response jid)"
    "pg_invar (sv_queue (hr_state res)) \<and> pg_quiet (sv_queue (hr_state res))" "kept q (pg_abs (sv_queue (hr_state res)))"
    "pg_abs (sv_queue (hr_state res)) jid = Some x" "ar_dedup x = key"
    "jid = fst (ae_newid (se_api se) (sv_idgen s)) \<or> jid \<in> dom q"
    "keyed q key \<longrightarrow> pg_abs (sv_queue (hr_state res)) = q"
    "\<not> keyed q key \<longrightarrow> ar_state x = Pending \<and> ar_base x = base \<and> ar_quote x = quote"
    "sv_repo (hr_state res) = sv_repo s"
    "counter MetricHTTPRequestsTotal [''POST'', ''POST /quotes/refresh'', ''202''] (hr_world res)
      = counter MetricHTTPRequestsTotal [''POST'', ''POST /quotes/refresh'', ''202''] (snd (request_id newid r w)) + 1"
    "\<not> keyed q key \<longrightarrow> jid = fst (ae_newid (se_api se) (sv_idgen s)) \<and> pg_abs (sv_queue (hr_state res)) = q(jid \<mapsto> x)"
    "sv_idgen (hr_state res) = snd (ae_newid (se_api se) (sv_idgen s))" "clk (hr_world res) = clk (snd (request_id newid r w))"
proof -
  let ?w = "inner_world newid r w" and ?env = "se_api se" and ?rq = "api_request r"
  obtain out q1 g1 w1 where ref: "RefreshQuote (pg_ops genv) ?env ?rq (sv_queue s) (sv_idgen s) ?w = (out, q1, g1, w1)"
    by (metis prod_cases4)
  obtain x where hdr: "optional_header (se_bind se) ''X-Request-Id'' r = Inr x" using assms by (auto simp: refresh_ready_def)
  have rq: "contains_sub (rq_ContentType ?rq) ''application/json''" "decode_refresh (rq_Body ?rq) = Some (base, quote)"
    using assms by (simp_all add: refresh_ready_def api_request_def)
  obtain key jid y where acc: "DedupKey base quote (Now ?w) (ae_coalescingWindow ?env) = Ok key" "out = Ok (accepted_response jid)"
      "pg_invar q1 \<and> pg_quiet q1" "kept (pg_abs (sv_queue s)) (pg_abs q1)" "pg_abs q1 jid = Some y" "ar_dedup y = key"
      "jid \<in> insert (fst (ae_newid ?env (sv_idgen s))) (dom (pg_abs (sv_queue s)))"
      "keyed (pg_abs (sv_queue s)) key \<longrightarrow> pg_abs q1 = pg_abs (sv_queue s)"
      "\<not> keyed (pg_abs (sv_queue s)) key \<longrightarrow> ar_state y = Pending \<and> ar_base y = base \<and> ar_quote y = quote
         \<and> jid = fst (ae_newid ?env (sv_idgen s)) \<and> pg_abs q1 = (pg_abs (sv_queue s))(jid \<mapsto> y)"
      "g1 = snd (ae_newid ?env (sv_idgen s))"
    using pg_refresh_accepted [OF _ _ _ rq _ _ _ _ ref] assms(1) unfolding refresh_ready_def by blast
  have ep: "serve_endpoint se RefreshQuoteEp [] (inner_request newid r w) s ?w = answer (accepted_response jid) (s\<lparr>sv_queue := q1, sv_idgen := g1\<rparr>) w1"
    using assms hdr ref acc(2) by (simp add: refresh_ready_def serve_endpoint_def siw_RefreshQuote_def)
  have "plain_seg ''refresh''" by (simp add: plain_seg_def)
  from findHandler_quotes [OF this] have "findHandler server_routes (hq_method r) (hq_path r) = Handle RefreshQuoteEp [] ''POST /quotes/refresh''"
    using assms by (simp add: refresh_ready_def)
  note ans = server_answers [OF this _ _ ep]
  have final: "\<not> informational (rs_status (accepted_response jid))" by (simp add: accepted_response_def informational_def)
  have clock: "clk w1 = clk (snd (request_id newid r w))" using pg_refresh_clk [OF ref] by (simp add: inner_world_def)
  have code: "show_int (rs_status (accepted_response jid)) = ''202''" by (simp add: accepted_response_def) code_simp
  have count: "counter MetricHTTPRequestsTotal l w1 = counter MetricHTTPRequestsTotal l (snd (request_id newid r w))" for l
    using pg_refresh_counters [OF ref, of MetricHTTPRequestsTotal l] by (simp add: inner_world_def metric_names)
  have "hq_method r = ''POST''" using assms(1) by (simp add: refresh_ready_def)
  with ans final clock acc code count show thesis unfolding res_def q_def by - (rule sent [of key jid y], simp_all add: res_def q_def)
qed

text \<open>The job route: whatever the store holds, the page of the job, when it can be read.\<close>

definition viewable :: "'d pg_env \<Rightarrow> 'd arec \<Rightarrow> bool" where
  "viewable genv x \<longleftrightarrow>
     (case ar_state x of
        Done t p u \<Rightarrow> pe_NewFromString genv (pe_numeric_text genv p) \<noteq> None
      | Failed t e \<Rightarrow> \<not> IsZero t
      | _ \<Rightarrow> True)"

lemma pg_get_quiet:
  assumes "pg_invar db" and "pg_quiet db" and "pe_uuid genv i = Some i" and "pg_abs db i = Some x" and "viewable genv x"
  shows "\<exists>v. fst (pg_GetByID genv i db w) = Inr v"
proof -
  obtain y where y: "tbl (db_jobs db) i = Some y" "x = row_arec y" using assms(4) by (auto simp: pg_abs_def tbl_abs_def)
  have "row_ok y" using assms(1) y(1) by (auto simp: pg_invar_def intro: row_okD)
  then have "row_price y = None \<or> (\<exists>t p u. row_state y = Done t p u \<and> row_price y = Some p)"
    by (auto simp: row_ok_def row_state_def)
  then have "\<exists>v. pg_view genv i y = Inr v"
    using assms(5) y(2) by (auto simp: pg_view_def viewable_def Let_def)
  then show ?thesis using assms(2,3) y(1) by (auto simp: pg_GetByID_def tbl_find finish_def pg_quiet_def)
qed

lemma job_page_final: "\<not> informational (rs_status (job_page env rb rq jid x))"
  by (auto simp: job_page_def Let_def writeError_def informational_def split: jstate.splits)

lemma job_page_sent:
  assumes "se_queue se = pg_ops genv" and "pg_invar (sv_queue s)" and "pg_quiet (sv_queue s)"
    and "hq_method r = ''GET''" and "hq_path r = ''/quotes/'' @ jid" and "plain_seg jid" and "jid \<noteq> ''latest''"
    and "job_params (se_bind se) jid r = Inr p" and "gjp_id p = jid" and "pe_uuid genv jid = Some jid"
    and "pg_abs (sv_queue s) jid = Some x" and "viewable genv x"
  shows "let res = server_handler newid None se r s w
    in hr_panic res = None \<and> pg_abs (sv_queue (hr_state res)) = pg_abs (sv_queue s)
      \<and> wire_run (hr_acts res) fresh_wire = sent (fst (request_id newid r w)) (job_page (se_api se) (pg_readback genv) (api_request r) jid x)"
proof -
  let ?w = "inner_world newid r w"
  obtain out q1 w1 where get: "GetQuoteJob (pg_ops genv) (se_api se) (api_request r) jid (sv_queue s) ?w = (out, q1, w1)"
    by (metis prod_cases3)
  have time: "\<forall>y t e. pg_abs (sv_queue s) jid = Some y \<and> ar_state y = Failed t e \<longrightarrow> \<not> IsZero t"
    using assms(11,12) by (auto simp: viewable_def)
  have "fst (GetByID (pg_ops genv) jid (sv_queue s) ?w) \<noteq> Inl e" for e
    using pg_get_quiet [OF assms(2,3,10,11,12), of ?w] by (auto simp: op_defs)
  then have page: "out = Ok (job_page (se_api se) (pg_readback genv) (api_request r) jid x)" "pg_abs q1 = pg_abs (sv_queue s)"
    using pg.get_job_page [OF assms(2,10) time get] assms(11) by auto
  have ep: "serve_endpoint se GetQuoteJobEp [jid] (inner_request newid r w) s ?w
      = answer (job_page (se_api se) (pg_readback genv) (api_request r) jid x) (s\<lparr>sv_queue := q1\<rparr>) w1"
    using assms(1,8,9) get page(1) by (simp add: serve_endpoint_def siw_GetQuoteJob_def)
  have "findHandler server_routes (hq_method r) (hq_path r) = Handle GetQuoteJobEp [jid] ''GET /quotes/{id}''"
    using findHandler_quotes [OF assms(6), of "hq_method r"] assms(4,5,7) by simp
  from server_answers [OF this _ _ ep job_page_final] page(2) show ?thesis unfolding Let_def by simp
qed

section \<open>Properties\<close>

text \<open>C11: POST /quotes/refresh, end to end. For a request the server has to accept, the whole chain over Postgres (request id,
  panic recovery, metrics, routing, parameter decoding, handler, queue) does not panic and sends 202 with the request id
  (the client's when well formed, else a new one) and the id of a job in body and Location; a job with that id is stored and
  carries the key of the pair and the window of that moment; no existing job is touched, nothing is stored when a job with
  the key was there, a new job is pending with the pair of the body; the quotes are untouched; and the request counter
  of that route and status goes up by one.\<close>

theorem server_refresh:
  assumes "refresh_ready genv se r s base quote"
  shows "\<exists>key jid x.
    let res = server_handler newid None se r s w; wr = wire_run (hr_acts res) fresh_wire;
        q = pg_abs (sv_queue s); q1 = pg_abs (sv_queue (hr_state res)); l = [''POST'', ''POST /quotes/refresh'', ''202'']
    in hr_panic res = None \<and> DedupKey base quote (Now (inner_world newid r w)) (ae_coalescingWindow (se_api se)) = Ok key
      \<and> wi_status wr = Some 202 \<and> wi_body wr = [JsonBody (RefreshAccepted jid)]
      \<and> map_of (wi_headers wr) ''Location'' = Some (''/quotes/'' @ jid)
      \<and> map_of (wi_headers wr) ''X-Request-Id'' = Some (fst (request_id newid r w))
      \<and> kept q q1 \<and> q1 jid = Some x \<and> ar_dedup x = key \<and> (keyed q key \<longrightarrow> q1 = q)
      \<and> (\<not> keyed q key \<longrightarrow> ar_state x = Pending \<and> ar_base x = base \<and> ar_quote x = quote)
      \<and> sv_repo (hr_state res) = sv_repo s
      \<and> counter MetricHTTPRequestsTotal l (hr_world res) = counter MetricHTTPRequestsTotal l (snd (request_id newid r w)) + 1"
proof -
  have wire: "wi_status (sent rid (accepted_response jid)) = Some 202" "wi_body (sent rid (accepted_response jid)) = [JsonBody (RefreshAccepted jid)]"
    "map_of (wi_headers (sent rid (accepted_response jid))) ''Location'' = Some (''/quotes/'' @ jid)"
    "map_of (wi_headers (sent rid (accepted_response jid))) ''X-Request-Id'' = Some rid" for rid jid
    by (simp_all add: sent_def accepted_response_def set_header_def body_chunks_def)
  from assms show ?thesis
  proof (cases rule: refresh_sent [where newid = newid and w = w])
    case (sent key jid x)
    then show ?thesis unfolding Let_def by - (rule exI [of _ key], rule exI [of _ jid], rule exI [of _ x], simp add: wire)
  qed
qed

text \<open>A concrete server for the closed instances.\<close>

definition sample_server :: "(int pgdb, int quote_db, int, seq_gen) server_env" where
  "sample_server = \<lparr>se_bind = \<lparr>be_query = (\<lambda>n q. case map_of q n of Some (v # _) \<Rightarrow> Inr v | _ \<Rightarrow> Inl RequiredParameterError),
       be_header = (\<lambda>n v. Inr v), be_uuid = Inr\<rparr>,
     se_queue = pg_ops sample_env, se_repo = pgrepo_ops sample_renv, se_api = sample_api, se_hard = [], se_soft = [],
     se_metrics = OpenAPIJSONHandler (Inr []), se_spec = Inr ''{}'', se_files = OpenAPIJSONHandler (Inr []),
     se_redirect = (\<lambda>t. OpenAPIJSONHandler (Inr t))\<rparr>"

definition sample_srv :: "(int pgdb, int quote_db, seq_gen) srv" where
  "sample_srv = \<lparr>sv_queue = sample_db, sv_repo = sample_quotes, sv_idgen = NewSeq\<rparr>"

definition sample_post :: hreq where
  "sample_post = (sample_hreq ''POST'' ''/quotes/refresh'')\<lparr>hq_header := [(''Content-Type'', [''application/json''])], hq_body := refresh_text ''EUR'' ''USD''\<rparr>"

lemma sample_refresh_ready: "refresh_ready sample_env sample_server sample_post sample_srv ''EUR'' ''USD''"
proof -
  have ct: "contains_sub ''application/json'' ''application/json''" by code_simp
  have fresh: "fst (SeqNewID NewSeq) \<notin> dom (pg_abs sample_db)"
    by (auto simp: SeqNewID_def sample_db_abs split: if_splits)
  have "utf8 ''EUR''" "utf8 ''USD''" by (intro ascii_utf8; simp add: plain_char_def)+
  then have "decode_refresh (refresh_text ''EUR'' ''USD'') = Some (''EUR'', ''USD'')" using decode_refresh_text [of _ _ "[]"] by simp
  then show ?thesis
    using ct fresh sample_db_invar sample_db_quiet
    by (simp add: refresh_ready_def sample_server_def sample_srv_def sample_post_def sample_hreq_def sample_api_def Header_Get_def
        optional_header_def valid_pair_def pairFormatRE_def)
qed

theorem server_refresh_witness:
  "\<exists>jid. map_of (wi_headers (wire_run (hr_acts (server_handler (\<lambda>w. (''id'', w)) None sample_server sample_post sample_srv sample_world)) fresh_wire)) ''Location''
     = Some (''/quotes/'' @ jid)"
  using server_refresh [OF sample_refresh_ready, of "\<lambda>w. (''id'', w)" sample_world] unfolding Let_def by blast

text \<open>C12: The Location of an accepted refresh leads to the job, for good. After the server accepted a refresh, and after any
  calls on the queue by any processes since (failing ones included), a GET of the Location it sent, with parameters that
  decode and at a moment without storage failures, is routed to the job with the key of the refreshed pair: the client
  receives that job's page, unless its stored price cannot be read back; and reading changes no job.\<close>

theorem location_leads_to_job:
  assumes "refresh_ready genv se r s base quote" and "res = server_handler newid None se r s w"
    and "\<forall>i. i = fst (ae_newid (se_api se) (sv_idgen s)) \<or> i \<in> dom (pg_abs (sv_queue s)) \<longrightarrow> plain_seg i \<and> i \<noteq> ''latest'' \<and> be_uuid (se_bind se) i = Inr i"
    and "wf_calls (pg_ops genv) pg_abs (\<lambda>i. pe_uuid genv i = Some i) cs (sv_queue (hr_state res)) w1"
    and "exec_calls (pg_ops genv) cs (sv_queue (hr_state res)) w1 = (js, db, w2)" and "pg_quiet db"
    and "map_of (wi_headers (wire_run (hr_acts res) fresh_wire)) ''Location'' = Some (hq_path r2)" and "hq_method r2 = ''GET''"
    and "optional_header (se_bind se) ''X-Request-Id'' r2 = Inr a" and "optional_header (se_bind se) ''If-None-Match'' r2 = Inr b"
    and "res2 = server_handler newid None se r2 ((hr_state res)\<lparr>sv_queue := db\<rparr>) w2"
  shows "\<exists>jid x. hq_path r2 = ''/quotes/'' @ jid \<and> pg_abs db jid = Some x
    \<and> DedupKey base quote (Now (inner_world newid r w)) (ae_coalescingWindow (se_api se)) = Ok (ar_dedup x)
    \<and> (viewable genv x \<longrightarrow> hr_panic res2 = None \<and> pg_abs (sv_queue (hr_state res2)) = pg_abs db
        \<and> wire_run (hr_acts res2) fresh_wire = sent (fst (request_id newid r2 w2)) (job_page (se_api se) (pg_readback genv) (api_request r2) jid x))"
  using assms(1)
proof (cases rule: refresh_sent [where newid = newid and w = w])
  case (sent key jid x)
  have path: "hq_path r2 = ''/quotes/'' @ jid"
    using assms(7) sent(3) unfolding assms(2) by (simp add: sent_def accepted_response_def set_header_def)
  have jid: "plain_seg jid" "jid \<noteq> ''latest''" "be_uuid (se_bind se) jid = Inr jid" "pe_uuid genv jid = Some jid"
    using sent(8) assms(1,3) unfolding refresh_ready_def by blast+
  obtain y where y: "pg_invar db" "pg_abs db jid = Some y" "same_job x y"
    using pg.calls_keep_job [OF _ assms(4,5), of jid x] sent(4,6) unfolding assms(2) by blast
  have p: "job_params (se_bind se) jid r2 = Inr \<lparr>gjp_id = jid, gjp_XRequestId = a, gjp_IfNoneMatch = b\<rparr>"
    using jid(3) assms(9,10) by (simp add: job_params_def)
  have q: "se_queue se = pg_ops genv" using assms(1) by (simp add: refresh_ready_def)
  have "viewable genv y \<Longrightarrow> hr_panic res2 = None \<and> pg_abs (sv_queue (hr_state res2)) = pg_abs db
      \<and> wire_run (hr_acts res2) fresh_wire = sent (fst (request_id newid r2 w2)) (job_page (se_api se) (pg_readback genv) (api_request r2) jid y)"
    using job_page_sent [where s = "(hr_state res)\<lparr>sv_queue := db\<rparr>" and newid = newid and w = w2, OF q _ _ assms(8) path jid(1,2) p _ jid(4), of y]
      y(1,2) assms(6) unfolding assms(11) Let_def by simp
  then show ?thesis using path y sent(1,7) by (auto simp: same_job_def)
qed

theorem location_leads_to_job_witness:
  "let h = server_handler (\<lambda>w. (''id'', w)) None sample_server; s1 = hr_state (h sample_post sample_srv sample_world)
   in \<exists>jid x. pg_abs (sv_queue s1) jid = Some x
     \<and> wire_run (hr_acts (h (sample_hreq ''GET'' (''/quotes/'' @ jid)) s1 sample_world)) fresh_wire
         = sent ''id'' (job_page sample_api (pg_readback sample_env) (sample_request []\<lparr>rq_ContentType := []\<rparr>) jid x)"
  using sample_refresh_ready
proof (cases rule: refresh_sent [where newid = "\<lambda>w. (''id'', w)" and w = sample_world])
  case (sent key jid x)
  let ?h = "server_handler (\<lambda>w. (''id'', w)) None sample_server"
  let ?res = "?h sample_post sample_srv sample_world" and ?r2 = "sample_hreq ''GET'' (''/quotes/'' @ jid)"
  have loc: "map_of (wi_headers (wire_run (hr_acts ?res) fresh_wire)) ''Location'' = Some (hq_path ?r2)"
    unfolding sent(3) by (simp add: sent_def accepted_response_def set_header_def sample_hreq_def)
  have "fst (SeqNewID NewSeq) = ''00000000-0000-0000-0000-000000000001''" by code_simp
  then have ids: "\<forall>i. i = fst (ae_newid (se_api sample_server) (sv_idgen sample_srv)) \<or> i \<in> dom (pg_abs (sv_queue sample_srv)) \<longrightarrow>
      plain_seg i \<and> i \<noteq> ''latest'' \<and> be_uuid (se_bind sample_server) i = Inr i"
    by (auto simp: sample_server_def sample_srv_def sample_api_def sample_db_abs plain_seg_def split: if_splits)
  have r2: "hq_method ?r2 = ''GET''" "optional_header (se_bind sample_server) n ?r2 = Inr None" "request_id (\<lambda>w. (''id'', w)) ?r2 sample_world = (''id'', sample_world)"
      "api_request ?r2 = sample_request []\<lparr>rq_ContentType := []\<rparr>" for n
    by (simp_all add: sample_hreq_def optional_header_def request_id_def Header_Get_def validID_def api_request_def sample_request_def)
  have calls: "wf_calls (pg_ops sample_env) pg_abs (\<lambda>i. pe_uuid sample_env i = Some i) [] (sv_queue (hr_state ?res)) sample_world"
    "exec_calls (pg_ops sample_env) [] (sv_queue (hr_state ?res)) sample_world = ([], sv_queue (hr_state ?res), sample_world)" by simp_all
  have x: "viewable sample_env x"
  proof (cases "keyed (pg_abs (sv_queue sample_srv)) key")
    case True
    with sent(6,9) have "pg_abs sample_db jid = Some x" by (simp add: sample_srv_def)
    then show ?thesis
      by (auto simp: sample_db_abs viewable_def row_state_def sample_row_def IsZero_def zero_time_def split: if_splits)
  qed (use sent(10) in \<open>simp add: viewable_def\<close>)
  have env: "se_api sample_server = sample_api" "hq_path ?r2 = ''/quotes/'' @ jid" by (simp_all add: sample_server_def sample_hreq_def)
  have st: "(hr_state ?res)\<lparr>sv_queue := sv_queue (hr_state ?res)\<rparr> = hr_state ?res" by simp
  have quiet: "pg_quiet (sv_queue (hr_state ?res))" using sent(4) by simp
  note lead = location_leads_to_job [OF sample_refresh_ready refl ids calls quiet loc r2(1,2,2) refl, unfolded st env r2(3,4)]
  obtain jid1 x1 where "''/quotes/'' @ jid = ''/quotes/'' @ jid1" "pg_abs (sv_queue (hr_state ?res)) jid1 = Some x1"
    "viewable sample_env x1 \<longrightarrow> wire_run (hr_acts (?h ?r2 (hr_state ?res) sample_world)) fresh_wire
        = sent (fst (''id'', sample_world)) (job_page sample_api (pg_readback sample_env) (sample_request []\<lparr>rq_ContentType := []\<rparr>) jid1 x1)"
    using lead by blast
  with sent(6) x show ?thesis unfolding Let_def by - (rule exI [of _ jid], rule exI [of _ x], simp)
qed

text \<open>Parameters of the three operations that cannot be decoded: a header sent more than once, a missing or malformed
  query parameter, a path segment that is no UUID.\<close>

definition repeated :: "string \<Rightarrow> hreq \<Rightarrow> bool" where
  "repeated name r \<longleftrightarrow> (case map_of (hq_header r) name of None \<Rightarrow> False | Some vs \<Rightarrow> length vs \<noteq> 1)"

definition undecodable :: "bind_env \<Rightarrow> string \<Rightarrow> hreq \<Rightarrow> bool" where
  "undecodable be x r \<longleftrightarrow>
     repeated ''X-Request-Id'' r
     \<or> hq_method r \<noteq> ''POST''
       \<and> (repeated ''If-None-Match'' r
          \<or> (if x = ''latest'' then isl (be_query be ''base'' (hq_query r)) \<or> isl (be_query be ''quote'' (hq_query r))
             else isl (be_uuid be x)))"

lemma optional_header_once: "optional_header be name r = Inr v \<Longrightarrow> \<not> repeated name r"
  by (auto simp: repeated_def optional_header_def split: option.splits if_splits)

lemma required_query_good: "required_query be name r = Inr v \<Longrightarrow> \<not> isl (be_query be name (hq_query r))"
  by (auto simp: required_query_def split: sum.splits bind_error.splits)

lemma undecodable_params:
  assumes "undecodable be x r"
  shows "hq_method r = ''POST'' \<Longrightarrow> isl (optional_header be ''X-Request-Id'' r)"
    and "hq_method r \<noteq> ''POST'' \<Longrightarrow> x = ''latest'' \<Longrightarrow> isl (latest_params be r)"
    and "hq_method r \<noteq> ''POST'' \<Longrightarrow> x \<noteq> ''latest'' \<Longrightarrow> isl (job_params be x r)"
  using assms
  by (auto simp: undecodable_def latest_params_def job_params_def split: sum.splits dest: optional_header_once required_query_good)
    (metis optional_header_once sum.collapse(2))

text \<open>C16: Parameters that cannot be decoded stop at the door. A request to one of the three operations with a repeated
  X-Request-Id or If-None-Match, a query parameter that is missing or malformed, or an id that is no UUID, is answered 400
  invalid_request, not to be cached, with the request id the middleware chose (for HEAD the handler writes the error body and
  the client receives none); the handlers are not reached: queue, quotes and id generator are as before, and nothing but the
  middleware read the clock.\<close>

theorem undecodable_refused:
  assumes "plain_seg x" and "hq_path r = ''/quotes/'' @ x"
    and "hq_method r = ''GET'' \<or> hq_method r = ''HEAD'' \<or> hq_method r = ''POST'' \<and> x = ''refresh''" and "undecodable (se_bind se) x r"
  shows "\<exists>msg. let res = server_handler newid None se r s w; wr = wire_run (hr_acts res) fresh_wire
    in hr_panic res = None \<and> hr_state res = s \<and> wi_status wr = Some 400 \<and> wi_body wr = [JsonBody (ErrorBody InvalidRequest msg)]
      \<and> wi_body (received r wr) = (if hq_method r = ''HEAD'' then [] else [JsonBody (ErrorBody InvalidRequest msg)])
      \<and> map_of (wi_headers wr) ''Cache-Control'' = Some ''no-store'' \<and> map_of (wi_headers wr) ''X-Request-Id'' = Some (fst (request_id newid r w))
      \<and> reads (hr_world res) = reads (snd (request_id newid r w)) + 2"
proof -
  define be where "be = se_bind se"
  have "\<exists>e ms pat err. findHandler server_routes (hq_method r) (hq_path r) = Handle e ms pat \<and> e \<notin> {OpenAPIJSON, SwaggerUI} \<and> pat \<noteq> []
      \<and> serve_endpoint se e ms (inner_request newid r w) s (inner_world newid r w) = answer (JSONErrorHandler err) s (inner_world newid r w)"
  proof (cases "hq_method r = ''POST''")
    case True
    obtain err where "optional_header be ''X-Request-Id'' r = Inl err" using undecodable_params(1) [OF assms(4) True] by (auto simp: be_def isl_def)
    with True findHandler_quotes [OF assms(1), of "hq_method r"] assms(2,3) show ?thesis
      by (simp add: serve_endpoint_def siw_RefreshQuote_def be_def) blast
  next
    case False
    note bad = undecodable_params(2,3) [OF assms(4) False]
    show ?thesis
    proof (cases "x = ''latest''")
      case True
      then obtain err where "latest_params be r = Inl err" using bad(1) by (auto simp: be_def isl_def)
      with True False findHandler_quotes [OF assms(1), of "hq_method r"] assms(2,3) show ?thesis
        by (simp add: serve_endpoint_def siw_GetLatestQuote_def be_def) blast
    next
      case other: False
      then obtain err where "job_params be x r = Inl err" using bad(2) by (auto simp: be_def isl_def)
      with other False findHandler_quotes [OF assms(1), of "hq_method r"] assms(2,3) show ?thesis
        by (simp add: serve_endpoint_def siw_GetQuoteJob_def be_def) blast
    qed
  qed
  then obtain e ms pat err where h: "findHandler server_routes (hq_method r) (hq_path r) = Handle e ms pat" "e \<notin> {OpenAPIJSON, SwaggerUI}" "pat \<noteq> []"
    "serve_endpoint se e ms (inner_request newid r w) s (inner_world newid r w) = answer (JSONErrorHandler err) s (inner_world newid r w)" by blast
  have "\<not> informational (rs_status (JSONErrorHandler err))" by (simp add: JSONErrorHandler_def writeError_def informational_def)
  from server_answers [OF h this] show ?thesis
    unfolding Let_def received_def by (simp add: inner_world_def sent_def JSONErrorHandler_def writeError_def set_header_def body_chunks_def)
qed

theorem undecodable_refused_witness:
  "wi_status (wire_run (hr_acts (server_handler (\<lambda>w. (''id'', w)) None sample_server
     ((sample_hreq ''POST'' (''/quotes/'' @ ''refresh''))\<lparr>hq_header := [(''X-Request-Id'', [''a'', ''b''])]\<rparr>) sample_srv sample_world)) fresh_wire) = Some 400"
proof -
  let ?r = "(sample_hreq ''POST'' (''/quotes/'' @ ''refresh''))\<lparr>hq_header := [(''X-Request-Id'', [''a'', ''b''])]\<rparr>"
  have h: "plain_seg ''refresh''" "hq_path ?r = ''/quotes/'' @ ''refresh''" "undecodable (se_bind sample_server) ''refresh'' ?r"
    "hq_method ?r = ''GET'' \<or> hq_method ?r = ''HEAD'' \<or> hq_method ?r = ''POST'' \<and> ''refresh'' = ''refresh''"
    by (simp_all add: plain_seg_def sample_hreq_def undecodable_def repeated_def)
  from undecodable_refused [OF h(1,2,4,3), of "\<lambda>w. (''id'', w)" sample_srv sample_world] show ?thesis unfolding Let_def by blast
qed

end
