(* ===== verification/Registry.thy ===== *)
theory Registry
  imports Server Collectors
begin

text \<open>
  The metrics the running service updates, against the declarations of theory \<open>Collectors\<close>. The Prometheus client panics when
  a vector gets a number of label values other than it declares: the locales \<open>metered_queue\<close> and \<open>metered_service\<close> show that no
  update the service makes can do that, and that the vectors \<open>init\<close> fills in advance never get a series beyond those.
\<close>

text \<open>The value of the gauge of the last tick.\<close>

definition SchedulerLastTickSeconds :: "('s, 'g) sch_state \<Rightarrow> world \<Rightarrow> js_num \<times> world" where
  "SchedulerLastTickSeconds st w = (case SchedulerLastTickGauge st w of (d, w1) \<Rightarrow> (Seconds d, w1))"

section \<open>Updates that fit their declaration\<close>

definition series_ok :: "metric_desc \<Rightarrow> string list \<Rightarrow> bool" where
  "series_ok d l \<longleftrightarrow> length l = length (md_labels d) \<and> (md_series d = [] \<or> l \<in> set (md_series d))"

fun update_ok :: "metric_desc list \<Rightarrow> metric \<Rightarrow> bool" where
  "update_ok ds (Inc n l) \<longleftrightarrow> list_ex (\<lambda>d. md_name d = n \<and> md_kind d = CounterKind \<and> series_ok d l) ds"
| "update_ok ds (Observe n l v) \<longleftrightarrow> list_ex (\<lambda>d. md_name d = n \<and> md_kind d = HistogramKind \<and> series_ok d l) ds"
| "update_ok ds (GaugeAdd n v) \<longleftrightarrow> list_ex (\<lambda>d. md_name d = n \<and> md_kind d = GaugeKind \<and> series_ok d []) ds"

definition service_metrics :: "metric_desc list" where
  "service_metrics = [HTTPRequestsTotal, HTTPRequestDurationSeconds, HTTPInFlightRequests, QuoteJobsPendingCount, QuoteJobsTotal,
     QuoteJobsAttempts, WorkerIterationsTotal, SchedulerTicksTotal, CoalescingCollapsedTotal, RatesProviderRequestsTotal,
     RatesProviderRequestDurationSeconds, RatesProviderResponseAnomaliesTotal, QuoteJobsCompletionSeconds]"

definition metered :: "world \<Rightarrow> bool" where
  "metered w \<longleftrightarrow> list_all (update_ok service_metrics) (trace w)"

lemma metered_step [simp]:
  "metered (tick w) \<longleftrightarrow> metered w" "metered (emit m w) \<longleftrightarrow> update_ok service_metrics m \<and> metered w"
  by (simp_all add: metered_def)

lemma metered_eq: "trace w' = trace w \<Longrightarrow> metered w' = metered w"
  by (simp add: metered_def)

lemma metered_draws [simp]: "metered (snd (Compute a w)) \<longleftrightarrow> metered w"
  by (rule metered_eq) (simp add: Compute_def Int64N_def)

lemmas update_defs = service_metrics_def metric_vars metric_names series_ok_def

lemma queue_updates_ok [simp]:
  "update_ok service_metrics (Inc MetricCoalescingCollapsedTotal [])"
  "update_ok service_metrics (Inc MetricSchedulerTicksTotal [])"
  by (simp_all add: update_defs)

lemma worker_updates_ok [simp]:
  "update_ok service_metrics (Inc MetricQuoteJobsTotal [''failed''])"
  "update_ok service_metrics (Inc MetricQuoteJobsTotal [''done''])"
  "update_ok service_metrics (Observe MetricQuoteJobsAttempts [] v)"
  "update_ok service_metrics (Inc MetricWorkerIterationsTotal [''error''])"
  "update_ok service_metrics (Inc MetricWorkerIterationsTotal [''idle''])"
  "update_ok service_metrics (Inc MetricWorkerIterationsTotal [''work''])"
  "update_ok service_metrics (Inc MetricWorkerIterationsTotal [''ok''])"
  "update_ok service_metrics (Observe MetricQuoteJobsCompletionSeconds [src] v) \<longleftrightarrow> valid_source src"
  by (simp_all add: update_defs valid_source_def disj_commute)

lemma provider_updates_ok [simp]:
  "update_ok service_metrics (Inc MetricRatesProviderRequestsTotal [''apilayer'', c]) \<longleftrightarrow> c = ''ok'' \<or> c \<in> provider_codes"
  "update_ok service_metrics (Observe MetricRatesProviderRequestDurationSeconds [''apilayer''] v)"
  "update_ok service_metrics (Inc MetricRatesProviderResponseAnomaliesTotal [''apilayer'', ''malformed_quote_key''])"
  by (simp_all add: update_defs provider_codes_def)

lemma http_updates_ok [simp]:
  "update_ok service_metrics (GaugeAdd MetricHTTPInFlightRequests v)"
  "update_ok service_metrics (Inc MetricHTTPRequestsTotal [m, p, s])"
  "update_ok service_metrics (Observe MetricHTTPRequestDurationSeconds [m, p] v)"
  by (simp_all add: update_defs)

declare update_ok.simps [simp del]

section \<open>The queue's part\<close>

text \<open>\<open>sourced\<close>: every stored job names one of the two sources.\<close>

locale metered_queue =
  fixes qops :: "('s, 'd) queue_ops" and sourced :: "'s \<Rightarrow> bool"
  assumes enqueue_metered [simp]: "sourced s \<Longrightarrow> sourced (fst (snd (Enqueue qops j s w)))"
      "metered w \<Longrightarrow> metered (snd (snd (Enqueue qops j s w)))"
    and reserve_metered [simp]: "sourced s \<Longrightarrow> sourced (fst (snd (Reserve qops n l s w)))"
      "metered w \<Longrightarrow> metered (snd (snd (Reserve qops n l s w)))"
    and reserve_sources: "sourced s \<Longrightarrow> fst (Reserve qops n l s w) = Ok (Inr js) \<Longrightarrow> list_all (\<lambda>j. valid_source (job_Source j)) js"
    and complete_metered [simp]: "sourced s \<Longrightarrow> sourced (fst (snd (Complete qops i p u s w)))"
      "metered w \<Longrightarrow> metered (snd (snd (Complete qops i p u s w)))"
    and reschedule_metered [simp]: "sourced s \<Longrightarrow> sourced (fst (snd (Reschedule qops i m d s w)))"
      "metered w \<Longrightarrow> metered (snd (snd (Reschedule qops i m d s w)))"
    and fail_metered [simp]: "sourced s \<Longrightarrow> sourced (fst (snd (Fail qops i m s w)))"
      "metered w \<Longrightarrow> metered (snd (snd (Fail qops i m s w)))"
    and get_metered [simp]: "sourced s \<Longrightarrow> sourced (fst (snd (GetByID qops i s w)))"
      "metered w \<Longrightarrow> metered (snd (snd (GetByID qops i s w)))"
    and recover_metered [simp]: "sourced s \<Longrightarrow> sourced (fst (snd (RecoverExpired qops s w)))"
      "metered w \<Longrightarrow> metered (snd (snd (RecoverExpired qops s w)))"
begin

lemma failJob_metered [simp]:
  "sourced s \<Longrightarrow> sourced (fst (failJob qops j err s w))" "metered w \<Longrightarrow> metered (snd (failJob qops j err s w))"
  by (simp_all add: failJob_def case_prod_beta split: option.splits)

lemma rescheduleOrFail_metered [simp]:
  "sourced s \<Longrightarrow> sourced (fst (rescheduleOrFail qops wk j err s w))"
  "metered w \<Longrightarrow> metered (snd (rescheduleOrFail qops wk j err s w))"
  by (simp_all add: rescheduleOrFail_def case_prod_beta)

lemma handleBatchError_metered [simp]:
  "sourced s \<Longrightarrow> sourced (fst (handleBatchError qops wk j err s w))"
  "metered w \<Longrightarrow> metered (snd (handleBatchError qops wk j err s w))"
  by (simp_all add: handleBatchError_def Let_def case_prod_beta)

lemma failBatch_metered [simp]:
  "sourced s \<Longrightarrow> sourced (fst (failBatch qops wk err js s w))" "metered w \<Longrightarrow> metered (snd (failBatch qops wk err js s w))"
  by (induction js arbitrary: s w) (simp_all add: case_prod_beta)

text \<open>The scheduler.\<close>

lemma tick_pairs_metered [simp]:
  "sourced s \<Longrightarrow> sourced (fst (snd (tick_pairs qops newid b now ps s g w)))"
  "metered w \<Longrightarrow> metered (snd (snd (snd (tick_pairs qops newid b now ps s g w))))"
  by (induction ps arbitrary: s g w) (simp_all add: case_prod_beta split: res.splits sum.splits)

lemma scheduler_Tick_metered [simp]:
  "sourced (ss_queue st) \<Longrightarrow> sourced (ss_queue (fst (snd (scheduler_Tick qops newid c st w))))"
  "metered w \<Longrightarrow> metered (snd (snd (scheduler_Tick qops newid c st w)))"
proof -
  obtain o1 s1 g1 w1 where t: "tick_pairs qops newid (sch_bucketSize c) (Now w) (sch_pairs c) (ss_queue st) (ss_idgen st) (tick w) =
      (o1, s1, g1, w1)" by (metis prod_cases4)
  then have "sourced (ss_queue st) \<Longrightarrow> sourced s1" "metered w \<Longrightarrow> metered w1"
    using tick_pairs_metered(1) [of "ss_queue st" newid "sch_bucketSize c" "Now w" "sch_pairs c" "ss_idgen st" "tick w"]
      tick_pairs_metered(2) [of "tick w" newid "sch_bucketSize c" "Now w" "sch_pairs c" "ss_queue st" "ss_idgen st"] by simp_all
  then show "sourced (ss_queue st) \<Longrightarrow> sourced (ss_queue (fst (snd (scheduler_Tick qops newid c st w))))"
    and "metered w \<Longrightarrow> metered (snd (snd (scheduler_Tick qops newid c st w)))"
    using t by (simp_all add: scheduler_Tick_def Let_def split: res.split option.split)
qed

lemma scheduler_loop_keeps:
  "(sourced (ss_queue st) \<longrightarrow> sourced (ss_queue (fst (snd (scheduler_loop qops newid c es st w)))))
    \<and> (metered w \<longrightarrow> metered (snd (snd (scheduler_loop qops newid c es st w))))"
proof (induction es arbitrary: st w)
  case (Cons e es)
  obtain o1 st1 w1 where t: "scheduler_Tick qops newid c st w = (o1, st1, w1)" by (metis prod_cases3)
  then have step: "sourced (ss_queue st) \<longrightarrow> sourced (ss_queue st1)" "metered w \<longrightarrow> metered w1"
    using scheduler_Tick_metered(1) [of st newid c w] scheduler_Tick_metered(2) [of w newid c st] by simp_all
  then show ?case using t Cons.IH [of st1 w1] by (cases e; cases o1) simp_all
qed simp

lemmas scheduler_loop_metered [simp] = scheduler_loop_keeps [THEN conjunct1, THEN mp] scheduler_loop_keeps [THEN conjunct2, THEN mp]

lemma scheduler_Run_metered [simp]:
  "sourced (ss_queue st) \<Longrightarrow> sourced (ss_queue (fst (snd (scheduler_Run qops newid c es st w))))"
  "metered w \<Longrightarrow> metered (snd (snd (scheduler_Run qops newid c es st w)))"
  by (simp_all add: scheduler_Run_def case_prod_beta split: res.splits option.splits)

end
section \<open>The provider, the repository and the worker\<close>

locale metered_service = metered_queue qops sourced
  for qops :: "('s, 'd) queue_ops" and sourced +
  fixes pops :: "('p, 'd) provider_ops" and rops :: "('r, 'd) repo_ops"
  assumes fetch_metered [simp]: "metered w \<Longrightarrow> metered (snd (snd (FetchPairs pops ps p w)))"
    and upsert_metered [simp]: "metered w \<Longrightarrow> metered (snd (snd (UpsertBatch rops qs r w)))"
    and latest_metered [simp]: "metered w \<Longrightarrow> metered (snd (snd (GetLatest rops b q r w)))"
begin

lemma processJob_metered [simp]:
  "sourced s \<Longrightarrow> sourced (fst (processJob qops rops wk res j s r w))"
  "valid_source (job_Source j) \<Longrightarrow> metered w \<Longrightarrow> metered (snd (snd (processJob qops rops wk res j s r w)))"
  by (simp_all add: processJob_def Let_def case_prod_beta split: option.split)

lemma processBatch_keeps:
  "(sourced s \<longrightarrow> sourced (fst (processBatch qops rops wk res js s r w)))
    \<and> (list_all (\<lambda>j. valid_source (job_Source j)) js \<and> metered w \<longrightarrow> metered (snd (snd (processBatch qops rops wk res js s r w))))"
proof (induction js arbitrary: s r w)
  case (Cons j js)
  obtain s1 r1 w1 where one: "processJob qops rops wk res j s r w = (s1, r1, w1)" by (metis prod_cases3)
  then have "sourced s \<longrightarrow> sourced s1" "valid_source (job_Source j) \<and> metered w \<longrightarrow> metered w1"
    using processJob_metered(1) [of s wk res j r w] processJob_metered(2) [of j w wk res s r] by simp_all
  with one Cons.IH [of s1 r1 w1] show ?case by simp
qed simp

lemma dispatchBatch_metered:
  assumes "sourced s" and "metered w" and "list_all (\<lambda>j. valid_source (job_Source j)) js"
  shows "sourced (fst (dispatchBatch qops pops rops wk js s p r w)) \<and> metered (snd (snd (snd (dispatchBatch qops pops rops wk js s p r w))))"
proof -
  obtain o1 p1 w1 where f: "FetchPairs pops (map job_pair js) p w = (o1, p1, w1)" by (metis prod_cases3)
  then have "metered w1" using fetch_metered [OF assms(2), of "map job_pair js" p] by simp
  then show ?thesis using f assms processBatch_keeps [of s wk _ js r w1]
    by (cases o1) (simp_all add: dispatchBatch_def case_prod_beta)
qed

lemma worker_poll_metered:
  assumes "sourced (st_queue st)" and "metered w" and "worker_poll qops pops rops wk st w = Ok (st', w')"
  shows "sourced (st_queue st') \<and> metered w'"
proof -
  obtain o1 s1 w1 where r: "Reserve qops (wk_batchSize wk) (wk_leaseTime wk) (st_queue st) (tick w) = (o1, s1, w1)" by (metis prod_cases3)
  then have s1: "sourced s1" "metered w1" "\<And>js. o1 = Ok (Inr js) \<Longrightarrow> list_all (\<lambda>j. valid_source (job_Source j)) js"
    using assms reserve_metered(1) [of "st_queue st" "wk_batchSize wk" "wk_leaseTime wk" "tick w"]
      reserve_sources [OF assms(1), of "wk_batchSize wk" "wk_leaseTime wk" "tick w"] reserve_metered(2) [of "tick w"] by (metis fst_conv snd_conv metered_step(1))+
  let ?w1 = "tick (emit (Inc MetricWorkerIterationsTotal [''work'']) w1)"
  have "sourced s2 \<and> metered w2"
    if "o1 = Ok (Inr js)" "dispatchBatch qops pops rops wk js s1 p r ?w1 = (s2, p2, r2, w2)" for js p r s2 p2 r2 w2
    using dispatchBatch_metered [of s1 ?w1 js wk p r] s1 that by simp
  note batch = this [THEN conjunct1] this [THEN conjunct2]
  from assms(3) r s1 show ?thesis
    unfolding worker_poll_def Let_def by (auto split: res.splits sum.splits if_splits prod.splits elim: batch [rotated])
qed

lemma worker_clean_metered:
  "sourced (st_queue st) \<Longrightarrow> sourced (st_queue (fst (worker_clean qops st w)))" "metered w \<Longrightarrow> metered (snd (worker_clean qops st w))"
  by (simp_all add: worker_clean_def case_prod_beta split: sum.split)

lemma worker_loop_metered:
  "sourced (st_queue st) \<Longrightarrow> metered w \<Longrightarrow> worker_loop qops pops rops wk es st w = Ok (st', w', e) \<Longrightarrow> sourced (st_queue st') \<and> metered w'"
proof (induction es arbitrary: st w)
  case (Cons ev es)
  show ?case
  proof (cases ev)
    case PollTick
    with Cons.prems(3) obtain st1 w1 where "worker_poll qops pops rops wk st w = Ok (st1, w1)"
        "worker_loop qops pops rops wk es st1 w1 = Ok (st', w', e)" by (auto split: res.splits)
    with worker_poll_metered [OF Cons.prems(1,2)] Cons.IH show ?thesis by blast
  next
    case CleanTick
    with Cons.prems(3) have "worker_loop qops pops rops wk es (fst (worker_clean qops st w)) (snd (worker_clean qops st w)) = Ok (st', w', e)"
      by (simp add: case_prod_beta)
    with Cons.IH worker_clean_metered(1) [OF Cons.prems(1)] worker_clean_metered(2) [OF Cons.prems(2)] show ?thesis by blast
  next
    case CtxDone
    with Cons.prems show ?thesis by simp
  qed
qed simp

lemma worker_Run_metered:
  "sourced (st_queue st) \<Longrightarrow> metered w \<Longrightarrow> worker_Run qops pops rops wk es st w = Ok (st', w', e) \<Longrightarrow> sourced (st_queue st') \<and> metered w'"
  by (auto simp: worker_Run_def split: if_splits dest: worker_loop_metered)

end

section \<open>Handlers and middleware\<close>

definition metered_handler :: "('s \<Rightarrow> bool) \<Rightarrow> 's handler \<Rightarrow> bool" where
  "metered_handler I h \<longleftrightarrow> (\<forall>r s w. I s \<and> metered w \<longrightarrow> I (hr_state (h r s w)) \<and> metered (hr_world (h r s w)))"

definition metered_checker :: "checker \<Rightarrow> bool" where
  "metered_checker c \<longleftrightarrow> (\<forall>w. metered w \<longrightarrow> metered (snd (ck_Check c w)))"

lemma metered_handlerI: "(\<And>r s w. I s \<Longrightarrow> metered w \<Longrightarrow> I (hr_state (h r s w)) \<and> metered (hr_world (h r s w))) \<Longrightarrow> metered_handler I h"
  by (simp add: metered_handler_def)

lemma metered_handlerD: "metered_handler I h \<Longrightarrow> I s \<Longrightarrow> metered w \<Longrightarrow> I (hr_state (h r s w)) \<and> metered (hr_world (h r s w))"
  by (simp add: metered_handler_def)

lemma metered_validate: "metered_handler I h \<Longrightarrow> metered_handler I (OpenAPIValidate spec h)"
  by (rule metered_handlerI) (auto simp: OpenAPIValidate_def Let_def dest: metered_handlerD split: option.splits)

lemma metered_recover: "metered_handler I h \<Longrightarrow> metered_handler I (PanicRecover h)"
  by (rule metered_handlerI) (auto simp: PanicRecover_def Let_def dest: metered_handlerD split: option.splits)

lemma metered_metrics: "metered_handler I h \<Longrightarrow> metered_handler I (Metrics h)"
  by (rule metered_handlerI) (simp add: Metrics_def Let_def metered_handlerD split: option.splits)

lemma metered_request_id:
  assumes "metered_handler I h" and "\<forall>w. metered w \<longrightarrow> metered (snd (newid w))"
  shows "metered_handler I (RequestID newid h)"
proof (rule metered_handlerI)
  fix r s w assume "I s" and "metered w"
  obtain rid w1 where "(if Header_Get r ''X-Request-Id'' = [] \<or> \<not> validID (Header_Get r ''X-Request-Id'') then newid w
      else (Header_Get r ''X-Request-Id'', w)) = (rid, w1)" by force
  moreover from this have "metered w1" using assms(2) \<open>metered w\<close> by (auto split: if_splits dest: spec [of _ w])
  ultimately show "I (hr_state (RequestID newid h r s w)) \<and> metered (hr_world (RequestID newid h r s w))"
    using metered_handlerD [OF assms(1) \<open>I s\<close>] by (simp add: RequestID_def Let_def)
qed

lemma metered_chain:
  "metered_handler I mux \<Longrightarrow> \<forall>w. metered w \<longrightarrow> metered (snd (newid w)) \<Longrightarrow> metered_handler I (server_chain newid spec mux)"
  unfolding server_chain_def by (intro metered_request_id metered_recover metered_metrics metered_validate)

lemma metered_strip: "metered_handler I h \<Longrightarrow> metered_handler I (StripPrefix p h)"
  by (rule metered_handlerI) (simp add: StripPrefix_def metered_handlerD)

lemma metered_mux:
  assumes "metered_handler I fs" and "\<And>t. metered_handler I (redirect t)" and "\<And>e ms. metered_handler I (serve e ms)"
  shows "metered_handler I (mux_ServeHTTP spec fs redirect serve)"
proof (rule metered_handlerI)
  fix r s w assume s: "I s" "metered w"
  have ui: "metered_handler I (SwaggerUIHandler fs)" unfolding SwaggerUIHandler_def by (rule metered_strip [OF assms(1)])
  show "I (hr_state (mux_ServeHTTP spec fs redirect serve r s w)) \<and> metered (hr_world (mux_ServeHTTP spec fs redirect serve r s w))"
    using s metered_handlerD [OF ui s] metered_handlerD [OF assms(2) s] metered_handlerD [OF assms(3) s]
    by (simp add: mux_ServeHTTP_def OpenAPIJSONHandler_def Let_def split: found.split endpoint.split)
qed

lemma run_hard_metered: "list_all metered_checker cs \<Longrightarrow> metered w \<Longrightarrow> metered (snd (snd (run_hard cs checks failed w)))"
  by (induction cs checks failed w rule: run_hard.induct) (auto simp: metered_checker_def split: prod.splits)

lemma run_soft_metered: "list_all metered_checker cs \<Longrightarrow> metered w \<Longrightarrow> metered (snd (run_soft cs checks w))"
  by (induction cs checks w rule: run_soft.induct) (auto simp: metered_checker_def split: prod.splits)

lemma readyz_metered:
  assumes "list_all metered_checker hard" and "list_all metered_checker soft"
  shows "metered_handler I (readyz_handler hard soft)"
  by (rule metered_handlerI)
    (simp add: readyz_handler_def Readyz_def case_prod_beta run_soft_metered [OF assms(2)] run_hard_metered [OF assms(1)])

lemma wired_checkers_metered:
  "metered_checker (PostgresChecker ping)" "metered_checker (WorkerChecker wst d)" "metered_checker (SchedulerChecker sst d)"
  by (simp_all add: metered_checker_def PostgresChecker_def WorkerChecker_def SchedulerChecker_def heartbeat_check_def Let_def)

text \<open>What the code outside the repository must keep: the checkers, the page of the Prometheus client, the
  file server and the redirects.\<close>

definition metered_server :: "('s \<Rightarrow> bool) \<Rightarrow> ('s, 'r, 'd, 'g) server_env \<Rightarrow> bool" where
  "metered_server sourced se \<longleftrightarrow> list_all metered_checker (se_hard se) \<and> list_all metered_checker (se_soft se)
     \<and> metered_handler (\<lambda>s. sourced (sv_queue s)) (se_metrics se) \<and> metered_handler (\<lambda>s. sourced (sv_queue s)) (se_files se)
     \<and> (\<forall>t. metered_handler (\<lambda>s. sourced (sv_queue s)) (se_redirect se t))"

context metered_service
begin

lemma RefreshQuote_metered [simp]:
  "sourced s \<Longrightarrow> sourced (fst (snd (RefreshQuote qops env rq s g w)))"
  "metered w \<Longrightarrow> metered (snd (snd (snd (RefreshQuote qops env rq s g w))))"
  by (simp_all add: RefreshQuote_def Let_def case_prod_beta split: option.split res.split sum.split bool.split)

lemma GetQuoteJob_metered [simp]:
  "sourced s \<Longrightarrow> sourced (fst (snd (GetQuoteJob qops env rq i s w)))"
  "metered w \<Longrightarrow> metered (snd (snd (GetQuoteJob qops env rq i s w)))"
  by (simp_all add: GetQuoteJob_def case_prod_beta split: sum.split)

lemma GetLatestQuote_metered [simp]: "metered w \<Longrightarrow> metered (snd (snd (GetLatestQuote rops env rq b q r w)))"
  by (simp add: GetLatestQuote_def Let_def case_prod_beta split: option.split sum.split)

lemma siw_metered:
  "metered_handler (\<lambda>s. sourced (sv_queue s)) (siw_GetLatestQuote be rops env)" "metered_handler (\<lambda>s. sourced (sv_queue s)) (siw_RefreshQuote be qops env)"
  "metered_handler (\<lambda>s. sourced (sv_queue s)) (siw_GetQuoteJob be qops env i)"
  by (rule metered_handlerI,
      simp add: siw_GetLatestQuote_def siw_RefreshQuote_def siw_GetQuoteJob_def answer_def case_prod_beta split: sum.split res.split)+

lemma server_metered:
  assumes "metered_server sourced se" and "se_queue se = qops" and "se_repo se = rops" and "\<forall>w. metered w \<longrightarrow> metered (snd (newid w))"
  shows "metered_handler (\<lambda>s. sourced (sv_queue s)) (server_handler newid spec se)"
proof -
  have "metered_handler (\<lambda>s. sourced (sv_queue s)) (serve_endpoint se e ms)" for e ms
    using assms(1) unfolding serve_endpoint_def assms(2,3) metered_server_def
    by (cases e) (simp_all add: siw_metered readyz_metered metered_strip SwaggerUIHandler_def,
        simp_all add: metered_handler_def OpenAPIJSONHandler_def healthz_handler_def)
  then show ?thesis
    using assms(1,4) unfolding server_handler_def server_mux_def metered_server_def by (intro metered_chain metered_mux) simp_all
qed

end

section \<open>The stores and the provider\<close>

definition mem_sourced :: "'d mem_queue \<Rightarrow> bool" where
  "mem_sourced q \<longleftrightarrow> (\<forall>i r. (i, r) \<in> set (mq_jobs q) \<longrightarrow> valid_source (job_Source (mr_job r)))"

definition pg_sourced :: "'d pgdb \<Rightarrow> bool" where
  "pg_sourced db \<longleftrightarrow> (\<forall>r \<in> set (db_jobs db). valid_source (row_source r))"

lemma mem_dedup_sourced [simp]: "mem_sourced (q\<lparr>mq_dedup := d\<rparr>) \<longleftrightarrow> mem_sourced q"
  by (simp add: mem_sourced_def)

lemma mem_update_sourced:
  "mem_sourced q \<Longrightarrow> valid_source (job_Source (mr_job r)) \<Longrightarrow> mem_sourced (q\<lparr>mq_jobs := AList.update i r (mq_jobs q)\<rparr>)"
  using set_update_subset [of i r "mq_jobs q"] by (auto simp: mem_sourced_def)

lemma mem_store_sourced: "mem_sourced q \<Longrightarrow> valid_source (job_Source (mr_job r)) \<Longrightarrow> mem_sourced (mem_store i r q)"
  unfolding mem_store_def by (rule mem_update_sourced)

lemma mem_lookup_sourced: "mem_sourced q \<Longrightarrow> map_of (mq_jobs q) i = Some r \<Longrightarrow> valid_source (job_Source (mr_job r))"
  by (auto simp: mem_sourced_def dest: map_of_SomeD)

lemma mem_Enqueue_sourced: "mem_sourced q \<Longrightarrow> mem_sourced (fst (snd (mem_Enqueue j q w)))"
  by (auto simp: mem_Enqueue_def Let_def new_record_def valid_source_def intro!: mem_update_sourced split: option.splits)

lemma mem_Reserve_sourced:
  "mem_sourced q \<Longrightarrow> mem_sourced (fst (snd (mem_Reserve ord n l q w)))"
  "mem_sourced q \<Longrightarrow> fst (mem_Reserve ord n l q w) = Ok (Inr js) \<Longrightarrow> list_all (\<lambda>j. valid_source (job_Source j)) js"
  by (auto simp: mem_Reserve_def mem_sourced_def Let_def reserve_record_def list_all_iff split: if_splits dest!: in_set_takeD)

lemma finish_sourced [simp]:
  "\<forall>r \<in> set rows. valid_source (row_source r) \<Longrightarrow> pg_sourced db \<Longrightarrow> pg_sourced (snd (finish x rows db))"
  "pg_sourced (next_stmt db) \<longleftrightarrow> pg_sourced db" "pg_sourced (snd (refuse m db)) \<longleftrightarrow> pg_sourced db"
  by (auto simp: finish_def refuse_def pg_sourced_def next_stmt_def split: option.splits)

lemma pg_update_sourced [simp]:
  "(\<And>r. row_source (f r) = row_source r) \<Longrightarrow> pg_sourced db \<Longrightarrow> pg_sourced (snd (pg_update P f db))"
  unfolding pg_update_def by (auto intro!: finish_sourced(1)) (auto simp: pg_sourced_def)

lemma finish_same [simp]: "pg_sourced db \<Longrightarrow> pg_sourced (snd (finish x (db_jobs db) db))"
  by (rule finish_sourced(1)) (simp_all add: pg_sourced_def)

lemma probe_sourced [simp]: "pg_sourced db \<Longrightarrow> pg_sourced (snd (probeNotFoundOrNotReserved env i op db))"
  by (simp add: probeNotFoundOrNotReserved_def case_prod_beta split: sum.split)

lemma update_running_sourced [simp]:
  "(\<And>r. row_source (f r) = row_source r) \<Longrightarrow> pg_sourced db \<Longrightarrow> pg_sourced (snd (pg_update_running env op i f db))"
  by (simp add: pg_update_running_def case_prod_beta split: sum.split)

lemma pg_insert_sourced: "valid_source (job_Source j) \<Longrightarrow> pg_sourced db \<Longrightarrow> pg_sourced (snd (pg_insert env now j db))"
  unfolding pg_insert_def Let_def
  by (auto split: option.splits simp: pg_sourced_def [of db] new_row_def intro!: finish_sourced(1)) 

lemma pg_Enqueue_sourced: "pg_sourced db \<Longrightarrow> pg_sourced (fst (snd (pg_Enqueue env j db w)))"
  using pg_insert_sourced [of j db env "Now w"]
  by (auto simp: pg_Enqueue_def valid_source_def Let_def case_prod_beta split: sum.split bool.split option.split)

lemma pg_selected_subset: "set (pg_selected env now n db) \<subseteq> set (db_jobs db)"
  unfolding pg_selected_def by (auto dest!: in_set_takeD)

lemma pg_Reserve_sourced:
  "pg_sourced db \<Longrightarrow> pg_sourced (fst (snd (pg_Reserve env n l db w)))"
  "pg_sourced db \<Longrightarrow> fst (pg_Reserve env n l db w) = Ok (Inr js) \<Longrightarrow> list_all (\<lambda>j. valid_source (job_Source j)) js"
proof -
  let ?sel = "pg_selected env (pe_ts env (Now w)) (nat n) db"
  show "pg_sourced db \<Longrightarrow> pg_sourced (fst (snd (pg_Reserve env n l db w)))"
    unfolding pg_Reserve_def Let_def case_prod_beta
    by (auto split: sum.split intro!: finish_sourced(1)) (auto simp: pg_sourced_def)
  assume s: "pg_sourced db" and r: "fst (pg_Reserve env n l db w) = Ok (Inr js)"
  from r have "js = map row_job (reorder (pe_returning env) ?sel)"
    unfolding pg_Reserve_def Let_def by (auto simp: finish_def split: if_splits option.splits prod.splits)
  with s pg_selected_subset [of env "pe_ts env (Now w)" "nat n" db] show "list_all (\<lambda>j. valid_source (job_Source j)) js"
    by (auto simp: list_all_iff row_job_def pg_sourced_def)
qed

interpretation mem_metered: metered_queue "mem_ops ord" mem_sourced for ord
proof unfold_locales
  note store = mem_store_sourced mem_lookup_sourced
  show "mem_sourced s \<Longrightarrow> mem_sourced (fst (snd (Enqueue (mem_ops ord) j s w)))" for s j w
    by (simp add: op_defs mem_Enqueue_sourced)
  show "mem_sourced s \<Longrightarrow> mem_sourced (fst (snd (Reserve (mem_ops ord) n l s w)))" for s n l w
    by (simp add: op_defs mem_Reserve_sourced)
  show "mem_sourced s \<Longrightarrow> fst (Reserve (mem_ops ord) n l s w) = Ok (Inr js) \<Longrightarrow> list_all (\<lambda>j. valid_source (job_Source j)) js" for s n l w js
    using mem_Reserve_sourced(2) [of s ord n l w js] by (simp add: op_defs)
  show "mem_sourced s \<Longrightarrow> mem_sourced (fst (snd (RecoverExpired (mem_ops ord) s w)))" for s w
    by (auto simp: op_defs mem_RecoverExpired_def mem_sourced_def Let_def)
qed (auto simp: op_defs mem_Enqueue_def mem_Reserve_def mem_Complete_def mem_Reschedule_def mem_Fail_def mem_GetByID_def mem_RecoverExpired_def
    Let_def intro!: mem_store_sourced dest: mem_lookup_sourced split: option.splits)

lemma pg_metered_ops:
  "metered w \<Longrightarrow> metered (snd (snd (pg_Enqueue env j db w)))" "metered (snd (snd (pg_Reserve env n l db w))) \<longleftrightarrow> metered w"
  "metered (snd (snd (pg_Complete env i p u db w))) \<longleftrightarrow> metered w" "metered (snd (snd (pg_Reschedule env i m d db w))) \<longleftrightarrow> metered w"
  "metered (snd (snd (pg_Fail env i m db w))) \<longleftrightarrow> metered w" "metered (snd (snd (pg_GetByID env i db w))) \<longleftrightarrow> metered w"
  "metered (snd (snd (pg_RecoverExpired env db w))) \<longleftrightarrow> metered w"
  by (simp_all add: pg_Enqueue_def pg_Reserve_def pg_Complete_def pg_Reschedule_def pg_Fail_def pg_GetByID_def pg_RecoverExpired_def
      Let_def case_prod_beta split: sum.split option.split bool.split)

interpretation pg_metered: metered_queue "pg_ops env" pg_sourced for env
proof unfold_locales
  show "pg_sourced s \<Longrightarrow> fst (Reserve (pg_ops env) n l s w) = Ok (Inr js) \<Longrightarrow> list_all (\<lambda>j. valid_source (job_Source j)) js" for s n l w js
    using pg_Reserve_sourced(2) [of s env n l w js] by (simp add: op_defs)
qed (simp_all add: op_defs pg_Enqueue_sourced pg_Reserve_sourced pg_metered_ops pg_Complete_def pg_Reschedule_def pg_Fail_def
    pg_GetByID_def pg_RecoverExpired_def Let_def case_prod_beta split: sum.split option.split)

lemma add_quotes_metered [simp]: "metered w \<Longrightarrow> metered (snd (add_quotes b t xs m w))"
proof (induction xs arbitrary: m w)
  case (Cons x xs)
  then show ?case by (cases x) (simp add: Let_def del: fun_upd_apply)
qed simp

lemma fetch_base_metered: "fetch_base env ps b m s w = ((out, w'), s') \<Longrightarrow> metered w \<Longrightarrow> metered w'"
  by (cases rule: fetch_base_shape) (auto simp: provider_failure_def provider_ok_def)

lemma fetch_bases_metered: "metered w \<Longrightarrow> metered (snd (snd (fetch_bases env ps bs m s w)))"
  by (induction bs arbitrary: m s w) (auto split: prod.split sum.split dest: fetch_base_metered)

lemma apilayer_metered: "metered w \<Longrightarrow> metered (snd (snd (apilayer_FetchPairs env ps s w)))"
  by (simp add: apilayer_FetchPairs_def case_prod_beta fetch_bases_metered split: sum.split)

interpretation mem_service: metered_service "mem_ops ord" mem_sourced fake_ops memrepo_ops for ord
  by unfold_locales
    (simp_all add: op_defs fake_FetchPairs_def memrepo_UpsertBatch_def memrepo_GetLatest_def Let_def split: option.split)

interpretation pg_service: metered_service "pg_ops env" pg_sourced "apilayer_ops aenv" "pgrepo_ops renv" for env aenv renv
  by unfold_locales
    (simp_all add: op_defs apilayer_metered pgrepo_UpsertBatch_def pgrepo_GetLatest_def case_prod_beta split: option.split)

section \<open>Properties\<close>

lemma pool_collects_described: "map fst (pool_Collect st) = families rt tr PoolCollector"
  by (simp add: pool_Collect_def pool_descs_def)

lemma int_Seconds_truncates: "int_Seconds d = float_to_int64 (Seconds d)"
  by (simp add: int_Seconds_def Seconds_def Let_def)

lemma sample_sourced: "pg_sourced sample_db"
  by (simp add: pg_sourced_def sample_db_def sample_row_def valid_source_def)

lemma sample_server_metered: "metered_server I sample_server"
  by (simp add: metered_server_def sample_server_def metered_handler_def OpenAPIJSONHandler_def)

text \<open>C36: No metric update can panic, and the series stay those declared. In the composed service (Postgres stores, the upstream
  client, the HTTP server with its middleware) every counter, gauge and histogram update that a run of the worker, a run of
  the scheduler or any HTTP request makes names a metric of \<open>init\<close> of the right kind with the declared number of label
  values; for the vectors that \<open>init\<close> fills in advance the label values are among those, because the queue only ever holds jobs
  from the two known sources. Storage failures, upstream failures and handler panics are included.\<close>

theorem metric_updates_fit:
  assumes "pg_sourced db" and "metered w"
    and "metered_server pg_sourced se" and "se_queue se = pg_ops genv" and "se_repo se = pgrepo_ops renv"
    and "\<forall>w. metered w \<longrightarrow> metered (snd (newid w))"
  shows "(\<forall>wk es st st' w' e. st_queue st = db \<and> worker_Run (pg_ops genv) (apilayer_ops aenv) (pgrepo_ops renv) wk es st w = Ok (st', w', e) \<longrightarrow>
        pg_sourced (st_queue st') \<and> metered w')
    \<and> (\<forall>ig c es st out st' w'. ss_queue st = db \<and> scheduler_Run (pg_ops genv) ig c es st w = (out, st', w') \<longrightarrow>
        pg_sourced (ss_queue st') \<and> metered w')
    \<and> (\<forall>r s. sv_queue s = db \<longrightarrow> (let res = server_handler newid spec se r s w in pg_sourced (sv_queue (hr_state res)) \<and> metered (hr_world res)))"
proof (intro conjI allI impI; (elim conjE)?)
  show "pg_sourced (st_queue st')" "metered w'"
    if "st_queue st = db" "worker_Run (pg_ops genv) (apilayer_ops aenv) (pgrepo_ops renv) wk es st w = Ok (st', w', e)" for wk es st st' w' e
    using pg_service.worker_Run_metered [OF _ assms(2) that(2)] assms(1) that(1) by simp_all
  show "pg_sourced (ss_queue st')" "metered w'"
    if "ss_queue st = db" "scheduler_Run (pg_ops genv) ig c es st w = (out, st', w')" for ig c es st out st' w'
    using pg_metered.scheduler_Run_metered(1) [of st genv ig c es w] pg_metered.scheduler_Run_metered(2) [OF assms(2), of genv ig c es st]
      assms(1) that by simp_all
  show "let res = server_handler newid spec se r s w in pg_sourced (sv_queue (hr_state res)) \<and> metered (hr_world res)"
    if "sv_queue s = db" for r s
    using metered_handlerD [OF pg_service.server_metered [OF assms(3-6)], of s w spec r] assms(1,2) that by (simp add: Let_def)
qed

theorem metric_updates_fit_witness:
  "metered (hr_world (server_handler (\<lambda>w. (''id'', w)) None sample_server sample_post sample_srv sample_world))"
proof -
  have w: "metered sample_world" by (simp add: metered_def sample_world_def)
  have q: "se_queue sample_server = pg_ops sample_env" "se_repo sample_server = pgrepo_ops sample_renv" "sv_queue sample_srv = sample_db"
    by (simp_all add: sample_server_def sample_srv_def)
  have "\<forall>w. metered w \<longrightarrow> metered (snd ((\<lambda>w. (''id'', w)) w))" by simp
  from metric_updates_fit [OF sample_sourced w sample_server_metered q(1,2) this, of _ None] q(3) show ?thesis
    unfolding Let_def by blast
qed

end
