(* ===== verification/Job_Status.thy ===== *)
theory Job_Status
  imports Api
begin

text \<open>
  The JSON of the API, \<open>internal/api/oapi_gen.go\<close>: the text of the response bodies, field by field in the order of the
  structs, and the union \<open>JobStatus\<close> with its constructors, accessors and discriminator. The union keeps JSON text. What
  \<open>encoding/json\<close> does is in theory \<open>Json\<close>; \<open>runtime.JSONMerge\<close>, a library, is an argument. When a call fails the sources return a
  partly filled value beside the error; here it is the error alone. The lemmas show that a client that reads the page of
  a job gets back what the handler put into it.
\<close>

section \<open>Enumerations\<close>

definition ErrorErrorCode_Valid :: "string \<Rightarrow> bool" where
  "ErrorErrorCode_Valid e \<longleftrightarrow> e \<in> {''internal'', ''invalid_request'', ''no_data'', ''not_found'', ''unsupported_currency'', ''upstream_unavailable''}"

definition JobStatusDoneStatus_Valid :: "string \<Rightarrow> bool" where "JobStatusDoneStatus_Valid e \<longleftrightarrow> e = ''done''"
definition JobStatusFailedStatus_Valid :: "string \<Rightarrow> bool" where "JobStatusFailedStatus_Valid e \<longleftrightarrow> e = ''failed''"
definition JobStatusPendingStatus_Valid :: "string \<Rightarrow> bool" where "JobStatusPendingStatus_Valid e \<longleftrightarrow> e = ''pending''"

lemma ErrorErrorCode_Valid_iff: "ErrorErrorCode_Valid e \<longleftrightarrow> (\<exists>c. e = error_code_text c)"
proof
  show "ErrorErrorCode_Valid e \<Longrightarrow> \<exists>c. e = error_code_text c"
    unfolding ErrorErrorCode_Valid_def by (metis error_code_text.simps insertE singletonD)
  show "\<exists>c. e = error_code_text c \<Longrightarrow> ErrorErrorCode_Valid e"
  proof (elim exE)
    show "ErrorErrorCode_Valid e" if "e = error_code_text c" for c using that by (cases c) (simp_all add: ErrorErrorCode_Valid_def)
  qed
qed

section \<open>The text of the bodies\<close>

definition object_with_time :: "time \<Rightarrow> (string \<times> string) list \<Rightarrow> string option" where
  "object_with_time t kvs = (if json_time_ok t then Some (string_object kvs) else None)"

fun json_Marshal :: "body \<Rightarrow> string option" where
  "json_Marshal NoBody = None"
| "json_Marshal (ErrorBody code message) =
     Some (json_object [(''error'', string_object [(''code'', error_code_text code), (''message'', message)])])"
| "json_Marshal (RefreshAccepted i) = Some (string_object [(''id'', i)])"
| "json_Marshal (JobStatusPending i status) = Some (string_object [(''id'', i), (''status'', status)])"
| "json_Marshal (JobStatusDone base i price quote status t) =
     object_with_time t [(''base'', base), (''id'', i), (''price'', price), (''quote'', quote), (''status'', status),
       (''updated_at'', time_text t)]"
| "json_Marshal (JobStatusFailed base t err i quote status) =
     object_with_time t [(''base'', base), (''completed_at'', time_text t), (''error'', err), (''id'', i), (''quote'', quote),
       (''status'', status)]"
| "json_Marshal (LatestQuote base price quote t) =
     object_with_time t [(''base'', base), (''price'', price), (''quote'', quote), (''updated_at'', time_text t)]"

section \<open>The union\<close>

text \<open>\<open>JobStatus\<close>: raw JSON, \<open>None\<close> for the nil message.\<close>

type_synonym job_status = "string option"

fun FromJobStatusPending :: "body \<Rightarrow> job_status" where
  "FromJobStatusPending (JobStatusPending i status) = json_Marshal (JobStatusPending i ''pending'')"

fun FromJobStatusDone :: "body \<Rightarrow> job_status" where
  "FromJobStatusDone (JobStatusDone base i price quote status t) = json_Marshal (JobStatusDone base i price quote ''done'' t)"

fun FromJobStatusFailed :: "body \<Rightarrow> job_status" where
  "FromJobStatusFailed (JobStatusFailed base t err i quote status) = json_Marshal (JobStatusFailed base t err i quote ''failed'')"

definition merge_union :: "(job_status \<Rightarrow> string \<Rightarrow> error + string) \<Rightarrow> job_status \<Rightarrow> job_status \<Rightarrow> error + string" where
  "merge_union JSONMerge u b =
     (case b of None \<Rightarrow> Inl (ErrorsNew ''json: error calling MarshalJSON'') | Some text \<Rightarrow> JSONMerge u text)"

definition MergeJobStatusPending :: "(job_status \<Rightarrow> string \<Rightarrow> error + string) \<Rightarrow> job_status \<Rightarrow> body \<Rightarrow> error + string" where
  "MergeJobStatusPending JSONMerge u v = merge_union JSONMerge u (FromJobStatusPending v)"

definition MergeJobStatusDone :: "(job_status \<Rightarrow> string \<Rightarrow> error + string) \<Rightarrow> job_status \<Rightarrow> body \<Rightarrow> error + string" where
  "MergeJobStatusDone JSONMerge u v = merge_union JSONMerge u (FromJobStatusDone v)"

definition MergeJobStatusFailed :: "(job_status \<Rightarrow> string \<Rightarrow> error + string) \<Rightarrow> job_status \<Rightarrow> body \<Rightarrow> error + string" where
  "MergeJobStatusFailed JSONMerge u v = merge_union JSONMerge u (FromJobStatusFailed v)"

text \<open>\<open>json.Unmarshal\<close> of the raw message; the nil message is empty text.\<close>

definition union_Unmarshal :: "json_env \<Rightarrow> (string \<times> fkind) list \<Rightarrow> job_status \<Rightarrow> error + (string \<times> fval) list" where
  "union_Unmarshal env fs u =
     (case json_Unmarshal env fs (case u of None \<Rightarrow> [] | Some b \<Rightarrow> b) of
        None \<Rightarrow> Inl (ErrorsNew ''json: cannot unmarshal'')
      | Some vals \<Rightarrow> Inr vals)"

definition AsJobStatusPending :: "json_env \<Rightarrow> job_status \<Rightarrow> error + body" where
  "AsJobStatusPending env u =
     map_sum id (\<lambda>v. JobStatusPending (text_of v ''id'') (text_of v ''status''))
       (union_Unmarshal env [(''id'', FUUID), (''status'', FString)] u)"

definition AsJobStatusDone :: "json_env \<Rightarrow> job_status \<Rightarrow> error + body" where
  "AsJobStatusDone env u =
     map_sum id (\<lambda>v. JobStatusDone (text_of v ''base'') (text_of v ''id'') (text_of v ''price'') (text_of v ''quote'') (text_of v ''status'')
         (time_of v ''updated_at''))
       (union_Unmarshal env [(''base'', FString), (''id'', FUUID), (''price'', FString), (''quote'', FString), (''status'', FString),
          (''updated_at'', FTime)] u)"

definition AsJobStatusFailed :: "json_env \<Rightarrow> job_status \<Rightarrow> error + body" where
  "AsJobStatusFailed env u =
     map_sum id (\<lambda>v. JobStatusFailed (text_of v ''base'') (time_of v ''completed_at'') (text_of v ''error'') (text_of v ''id'') (text_of v ''quote'')
         (text_of v ''status''))
       (union_Unmarshal env [(''base'', FString), (''completed_at'', FTime), (''error'', FString), (''id'', FUUID), (''quote'', FString),
          (''status'', FString)] u)"

definition Discriminator :: "json_env \<Rightarrow> job_status \<Rightarrow> error + string" where
  "Discriminator env u = map_sum id (\<lambda>v. text_of v ''status'') (union_Unmarshal env [(''status'', FString)] u)"

definition ValueByDiscriminator :: "json_env \<Rightarrow> job_status \<Rightarrow> error + body" where
  "ValueByDiscriminator env u =
     (case Discriminator env u of
        Inl e \<Rightarrow> Inl e
      | Inr d \<Rightarrow>
          if d = ''done'' then AsJobStatusDone env u
          else if d = ''failed'' then AsJobStatusFailed env u
          else if d = ''pending'' then AsJobStatusPending env u
          else Inl (ErrorsNew (''unknown discriminator value: '' @ d)))"

definition MarshalJSON :: "job_status \<Rightarrow> string" where
  "MarshalJSON u = (case u of None \<Rightarrow> ''null'' | Some b \<Rightarrow> b)"

definition UnmarshalJSON :: "string \<Rightarrow> job_status" where
  "UnmarshalJSON b = Some b"

section \<open>The page of a job is read back\<close>

lemma field_names_utf8:
  "utf8 ''id''" "utf8 ''status''" "utf8 ''base''" "utf8 ''price''" "utf8 ''quote''" "utf8 ''updated_at''" "utf8 ''completed_at''" "utf8 ''error''"
  "utf8 ''pending''" "utf8 ''done''" "utf8 ''failed''"
  by (intro ascii_utf8; simp add: plain_char_def)+

lemma Unmarshal_whole:
  "kvs \<noteq> [] \<Longrightarrow> list_all (\<lambda>(k, v). utf8 k \<and> utf8 v) kvs \<Longrightarrow>
     json_Unmarshal env fs (string_object kvs) = decode_members env fs (raw_members kvs) (map (\<lambda>(n, k). (n, zero_val k)) fs)"
  using Unmarshal_string_object [of kvs "[]" env fs] by (simp add: skip_ws_def)

lemmas read_back = Unmarshal_whole decode_members_Cons decode_members_Nil decode_members_skip
  read_string_back read_uuid_back read_time_back time_text_utf8 field_names_utf8

text \<open>The discriminator sees only its own field.\<close>

lemma not_status: "find_field [(''status'', FString)] k = None" if "k \<in> {''id'', ''base'', ''price'', ''quote'', ''updated_at'', ''completed_at'', ''error''}"
  using that by (auto simp: find_field_def startsWith_def upper_char_def)

lemmas union_defs = union_Unmarshal_def Discriminator_def ValueByDiscriminator_def object_with_time_def text_of_def time_of_def

lemma pending_read_back:
  assumes "utf8 i" and "je_uuid env i = Some i"
  shows "map_option (\<lambda>b. ValueByDiscriminator env (UnmarshalJSON (MarshalJSON (Some b)))) (FromJobStatusPending (JobStatusPending i st))
    = Some (Inr (JobStatusPending i ''pending''))"
  using assms by (simp add: union_defs UnmarshalJSON_def MarshalJSON_def AsJobStatusPending_def read_back not_status del: utf8.simps quote_body.simps)

lemma done_read_back:
  assumes "utf8 i" and "je_uuid env i = Some i" and "utf8 base" and "utf8 quote" and "utf8 price"
  shows "map_option (\<lambda>b. ValueByDiscriminator env (UnmarshalJSON (MarshalJSON (Some b)))) (FromJobStatusDone (JobStatusDone base i price quote st t))
    = (if json_time_ok t then Some (Inr (JobStatusDone base i price quote ''done'' t)) else None)"
  using assms by (simp add: union_defs UnmarshalJSON_def MarshalJSON_def AsJobStatusDone_def read_back not_status del: utf8.simps quote_body.simps)

lemma failed_read_back:
  assumes "utf8 i" and "je_uuid env i = Some i" and "utf8 base" and "utf8 quote" and "utf8 err"
  shows "map_option (\<lambda>b. ValueByDiscriminator env (UnmarshalJSON (MarshalJSON (Some b)))) (FromJobStatusFailed (JobStatusFailed base t err i quote st))
    = (if json_time_ok t then Some (Inr (JobStatusFailed base t err i quote ''failed'')) else None)"
  using assms by (simp add: union_defs UnmarshalJSON_def MarshalJSON_def AsJobStatusFailed_def read_back not_status del: utf8.simps quote_body.simps)


text \<open>An error text with quotation marks, an ampersand and a two-byte character, at the zero instant.\<close>

definition sample_jid :: string where
  "sample_jid = ''01890a5d-ac96-774b-bcce-b302099a8057''"

definition sample_err :: string where
  "sample_err = ''say '' @ [dquote] @ ''no'' @ [dquote] @ '' & '' @ [CHR 0xC3, CHR 0xA9]"

text \<open>C21: the client reads what the handler rendered. Whenever \<open>GET /quotes/{id}\<close> answers 200 with the page of a job, the union the
  handler fills (\<open>FromJobStatusDone\<close>, \<open>FromJobStatusFailed\<close> or \<open>FromJobStatusPending\<close>, by the state of the job) has a text, and a
  client of the generated package that decodes this text by its discriminator gets exactly the struct the handler filled:
  the pair, the identifier, the price and the instant of the quote of a job that is done; the error and the instant of one that
  failed; a pending job otherwise. Every string comes back through the escapes of the encoder, the instant to the nanosecond,
  and no kind is taken for another. Texts are UTF-8, as the columns of the database are, and the identifier type reads its own
  canonical form.\<close>

theorem job_page_read_back:
  assumes "rs_status (job_page env rb rq jid r) = 200"
    and "utf8 (fst (ae_uuid_Parse env jid))" and "je_uuid jenv (fst (ae_uuid_Parse env jid)) = Some (fst (ae_uuid_Parse env jid))"
    and "utf8 (ar_base r)" and "utf8 (ar_quote r)"
    and "\<forall>t p u. ar_state r = Done t p u \<longrightarrow> utf8 (ae_decimal_String env (rb p))"
    and "\<forall>t e. ar_state r = Failed t e \<longrightarrow> utf8 e"
  defines "b \<equiv> rs_body (job_page env rb rq jid r)"
  shows "\<exists>text. (case ar_state r of Done t p u \<Rightarrow> FromJobStatusDone b | Failed t e \<Rightarrow> FromJobStatusFailed b | _ \<Rightarrow> FromJobStatusPending b) = Some text
    \<and> json_Marshal b = Some text \<and> ValueByDiscriminator jenv (UnmarshalJSON (MarshalJSON (Some text))) = Inr b"
proof (cases "ar_state r")
  case Pending
  with pending_read_back [OF assms(2,3), of "''pending''"] show ?thesis by (auto simp: b_def job_page_def Let_def)
next
  case (Running l)
  with pending_read_back [OF assms(2,3), of "''pending''"] show ?thesis by (auto simp: b_def job_page_def Let_def)
next
  case (Done t p u)
  have ok: "json_time_ok u" "rs_body (job_page env rb rq jid r) = JobStatusDone (ar_base r) (fst (ae_uuid_Parse env jid)) (ae_decimal_String env (rb p)) (ar_quote r) ''done'' u"
    using assms(1) Done by (auto simp: job_page_def writeError_def Let_def split: if_splits)
  have "utf8 (ae_decimal_String env (rb p))" using assms(6) Done by blast
  from done_read_back [OF assms(2-5) this, of "''done''" u] ok(1) Done show ?thesis
    unfolding b_def ok(2) by auto
next
  case (Failed t e)
  have ok: "json_time_ok t" "rs_body (job_page env rb rq jid r) = JobStatusFailed (ar_base r) t e (fst (ae_uuid_Parse env jid)) (ar_quote r) ''failed''"
    using assms(1) Failed by (auto simp: job_page_def writeError_def Let_def split: if_splits)
  have "utf8 e" using assms(7) Failed by blast
  from failed_read_back [OF assms(2-5) this, of t "''failed''"] ok(1) Failed show ?thesis
    unfolding b_def ok(2) by auto
qed

definition sample_failed :: "int arec" where
  "sample_failed = \<lparr>ar_base = ''EUR'', ar_quote = ''USD'', ar_source = ''refresh'', ar_dedup = ''k'', ar_attempts = 5, ar_next = 0, ar_created = 0,
     ar_state = Failed (1750000000 * second + 1) sample_err\<rparr>"

theorem job_page_read_back_witness:
  "\<exists>text. FromJobStatusFailed (rs_body (job_page sample_api id (sample_request []) sample_jid sample_failed)) = Some text
     \<and> ValueByDiscriminator \<lparr>je_uuid = Some, je_Parse = (\<lambda>u. None)\<rparr> (UnmarshalJSON (MarshalJSON (Some text)))
         = Inr (JobStatusFailed ''EUR'' (1750000000 * second + 1) sample_err sample_jid ''USD'' ''failed'')
     \<and> quote_body sample_err \<noteq> sample_err"
proof -
  let ?page = "job_page sample_api id (sample_request []) sample_jid sample_failed"
  have texts: "utf8 sample_jid" "utf8 sample_err" "utf8 ''EUR''" "utf8 ''USD''" "quote_body sample_err \<noteq> sample_err" by code_simp+
  have t: "json_time_ok (1750000000 * second + 1)" "sample_jid \<noteq> []" by code_simp+
  have st: "ar_state sample_failed = Failed (1750000000 * second + 1) sample_err" "ar_base sample_failed = ''EUR''" "ar_quote sample_failed = ''USD''"
    "fst (ae_uuid_Parse sample_api sample_jid) = sample_jid" by (simp_all add: sample_failed_def sample_api_def)
  have "failed_etag sample_jid \<noteq> []" by (simp add: failed_etag_def)
  then have page: "rs_status ?page = 200" "rs_body ?page = JobStatusFailed ''EUR'' (1750000000 * second + 1) sample_err sample_jid ''USD'' ''failed''"
    using t(1) by (simp_all add: job_page_def st sample_request_def Let_def)
  from job_page_read_back [where jenv = "\<lparr>je_uuid = Some, je_Parse = (\<lambda>u. None)\<rparr>", OF page(1)] texts page(2) show ?thesis
    by (simp add: st del: utf8.simps FromJobStatusFailed.simps json_Marshal.simps) blast
qed

end
