(* ===== verification/Fakeprovider.thy ===== *)
theory Fakeprovider
  imports Jsnum Config
begin

text \<open>
  The stand-in for the upstream, \<open>cmd/fakeprovider\<close>: configuration, the random walk of rates with
  its cadence windows and quota (\<open>state.go\<close>), and the \<open>/live\<close> handler (\<open>server.go\<close>). Rates are
  doubles, rounded after every operation as on amd64. The generator of \<open>math/rand\<close> is
  the random oracle of the world; \<open>Float64\<close> gives a multiple of \<open>2^-53\<close> below one.
\<close>

section \<open>Configuration\<close>

record fp_config =
  fpc_Addr :: string
  fpc_Seed :: nat
  fpc_MonthlyQuota :: int
  fpc_AccessKey :: string
  fpc_CadenceSeconds :: int
  fpc_LatencyMinMS :: int
  fpc_LatencyMaxMS :: int

definition fp_env_nonneg :: "env \<Rightarrow> string \<Rightarrow> int \<Rightarrow> string \<Rightarrow> string \<Rightarrow> error + int" where
  "fp_env_nonneg getenv key def malformed negative =
     (if getenv key \<noteq> []
      then case Atoi (getenv key) of
             None \<Rightarrow> Inl (ErrorsNew malformed)
           | Some n \<Rightarrow> if n < 0 then Inl (ErrorsNew negative) else Inr n
      else Inr def)"

definition fp_Load :: "env \<Rightarrow> error + fp_config" where
  "fp_Load getenv =
     (case (if getenv ''FAKE_SEED'' \<noteq> [] then ParseUint (getenv ''FAKE_SEED'') else Some 42) of
        None \<Rightarrow> Inl (ErrorsNew ''FAKE_SEED must be a uint64'')
      | Some seed \<Rightarrow>
      case fp_env_nonneg getenv ''FAKE_MONTHLY_QUOTA'' 100 ''FAKE_MONTHLY_QUOTA must be a non-negative integer''
             ''FAKE_MONTHLY_QUOTA must be a non-negative integer'' of
        Inl e \<Rightarrow> Inl e
      | Inr quota \<Rightarrow>
      case fp_env_nonneg getenv ''FAKE_UPSTREAM_CADENCE_SECONDS'' 0 ''FAKE_UPSTREAM_CADENCE_SECONDS must be a non-negative integer''
             ''FAKE_UPSTREAM_CADENCE_SECONDS must be non-negative'' of
        Inl e \<Rightarrow> Inl e
      | Inr cadence \<Rightarrow>
      case fp_env_nonneg getenv ''FAKE_LATENCY_MIN_MS'' 0 ''FAKE_LATENCY_MIN_MS must be non-negative''
             ''FAKE_LATENCY_MIN_MS must be non-negative'' of
        Inl e \<Rightarrow> Inl e
      | Inr minMS \<Rightarrow>
      case fp_env_nonneg getenv ''FAKE_LATENCY_MAX_MS'' 0 ''FAKE_LATENCY_MAX_MS must be non-negative''
             ''FAKE_LATENCY_MAX_MS must be non-negative'' of
        Inl e \<Rightarrow> Inl e
      | Inr maxMS \<Rightarrow>
      if maxMS < minMS then Inl (ErrorsNew ''FAKE_LATENCY_MAX_MS must be >= FAKE_LATENCY_MIN_MS'')
      else Inr \<lparr>fpc_Addr = envOr getenv ''FAKE_ADDR'' '':9090'', fpc_Seed = seed, fpc_MonthlyQuota = quota,
             fpc_AccessKey = getenv ''FAKE_ACCESS_KEY'', fpc_CadenceSeconds = cadence, fpc_LatencyMinMS = minMS,
             fpc_LatencyMaxMS = maxMS\<rparr>)"

section \<open>State\<close>

record pair_state =
  ps_rate :: js_num
  ps_lastWindow :: int

record fp_state =
  fps_monthlyQuota :: int
  fps_rates :: "(pair \<times> pair_state) list"
  fps_cadenceSeconds :: int

definition NewState :: "int \<Rightarrow> int \<Rightarrow> fp_state" where
  "NewState quota cadence = \<lparr>fps_monthlyQuota = quota,
     fps_rates = [(Pair ''USD'' ''EUR'', \<lparr>ps_rate = js_round (85 / 100), ps_lastWindow = - 1\<rparr>),
                  (Pair ''EUR'' ''USD'', \<lparr>ps_rate = js_round (118 / 100), ps_lastWindow = - 1\<rparr>),
                  (Pair ''USD'' ''MXN'', \<lparr>ps_rate = js_round (1718 / 100), ps_lastWindow = - 1\<rparr>),
                  (Pair ''MXN'' ''USD'', \<lparr>ps_rate = js_round (58 / 1000), ps_lastWindow = - 1\<rparr>),
                  (Pair ''EUR'' ''MXN'', \<lparr>ps_rate = js_round (2026 / 100), ps_lastWindow = - 1\<rparr>),
                  (Pair ''MXN'' ''EUR'', \<lparr>ps_rate = js_round (49 / 1000), ps_lastWindow = - 1\<rparr>)],
     fps_cadenceSeconds = cadence\<rparr>"

definition Float64 :: "world \<Rightarrow> js_num \<times> world" where
  "Float64 w = (Fin (of_nat (rnd w (draws w) mod 2 ^ 53) / 2 ^ 53), w\<lparr>draws := Suc (draws w)\<rparr>)"

definition Consume :: "fp_state \<Rightarrow> bool \<times> fp_state" where
  "Consume s = (if fps_monthlyQuota s \<le> 0 then (False, s) else (True, s\<lparr>fps_monthlyQuota := fps_monthlyQuota s - 1\<rparr>))"

definition advanceRate :: "js_num \<Rightarrow> world \<Rightarrow> js_num \<times> world" where
  "advanceRate rate w =
     (case Float64 w of (u, w1) \<Rightarrow>
        let factor = js_add (js_add (Fin 1) (js_mul u (js_round (1 / 10)))) (js_neg (js_round (1 / 20)));
            rate1 = js_mul rate factor
        in (if js_le rate1 0 then js_round (1 / 10000) else rate1, w1))"

definition rateLocked :: "pair \<Rightarrow> fp_state \<Rightarrow> world \<Rightarrow> js_num \<times> fp_state \<times> world" where
  "rateLocked p s w =
     (case (case map_of (fps_rates s) p of
              Some ps \<Rightarrow> (ps, w)
            | None \<Rightarrow> (case Float64 w of (u, w1) \<Rightarrow> (\<lparr>ps_rate = js_add (Fin (1 / 2)) (js_mul u (Fin (39 / 2))), ps_lastWindow = - 1\<rparr>, w1))) of
        (ps, w1) \<Rightarrow>
          if 0 < fps_cadenceSeconds s
          then
            let windowKey = go_quot (Unix (Now w1)) (fps_cadenceSeconds s); w2 = tick w1
            in if ps_lastWindow ps = windowKey
               then (ps_rate ps, s\<lparr>fps_rates := AList.update p ps (fps_rates s)\<rparr>, w2)
               else (case advanceRate (ps_rate ps) w2 of (r, w3) \<Rightarrow>
                       (r, s\<lparr>fps_rates := AList.update p \<lparr>ps_rate = r, ps_lastWindow = windowKey\<rparr> (fps_rates s)\<rparr>, w3))
          else (case advanceRate (ps_rate ps) w1 of (r, w2) \<Rightarrow>
                  (r, s\<lparr>fps_rates := AList.update p (ps\<lparr>ps_rate := r\<rparr>) (fps_rates s)\<rparr>, w2)))"

definition Rate :: "pair \<Rightarrow> fp_state \<Rightarrow> world \<Rightarrow> (js_num \<times> bool) \<times> fp_state \<times> world" where
  "Rate p s w =
     (if Base p = Quote p then ((Fin 0, False), s, w)
      else case rateLocked p s w of (r, s1, w1) \<Rightarrow> ((r, True), s1, w1))"

definition WindowTimestamp :: "fp_state \<Rightarrow> world \<Rightarrow> int \<times> world" where
  "WindowTimestamp s w =
     (let nowUnix = Unix (Now w)
      in (if fps_cadenceSeconds s \<le> 0 then nowUnix
          else go_quot nowUnix (fps_cadenceSeconds s) * fps_cadenceSeconds s, tick w))"

fun AllRatesForBase ::
    "string \<Rightarrow> string list \<Rightarrow> (string \<times> js_num) list \<Rightarrow> fp_state \<Rightarrow> world \<Rightarrow> (string \<times> js_num) list \<times> fp_state \<times> world" where
  "AllRatesForBase base [] out s w = (out, s, w)"
| "AllRatesForBase base (t # ts) out s w =
     (if t = base then AllRatesForBase base ts out s w
      else case rateLocked (Pair base t) s w of
             (r, s1, w1) \<Rightarrow> AllRatesForBase base ts (AList.update (base @ t) r out) s1 w1)"

section \<open>The handler\<close>

record live_query =
  lq_access_key :: string
  lq_source :: string
  lq_currencies :: string

datatype live_reply =
    NotFoundReply
  | ErrorReply int string
  | SuccessReply int string "(string \<times> js_num) list"
  | ClientGone

record latency =
  lc_MinMS :: int
  lc_MaxMS :: int

definition sampleLatency :: "latency \<Rightarrow> world \<Rightarrow> duration res \<times> world" where
  "sampleLatency cfg w =
     (if lc_MinMS cfg = 0 \<and> lc_MaxMS cfg = 0 then (Ok 0, w)
      else if lc_MinMS cfg = lc_MaxMS cfg then (Ok (wrap64 (lc_MinMS cfg * millisecond)), w)
      else
        let span = wrap64 (lc_MaxMS cfg - lc_MinMS cfg + 1)
        in if span \<le> 0 then (Panic ''invalid argument to Int64N'', w)
           else case Int64N span w of (k, w1) \<Rightarrow> (Ok (wrap64 ((lc_MinMS cfg + k) * millisecond)), w1))"

text \<open>\<open>stays\<close> says that the client is still there when the injected delay is over.\<close>

definition handleLive ::
    "string \<Rightarrow> latency \<Rightarrow> bool \<Rightarrow> live_query \<Rightarrow> fp_state \<Rightarrow> world \<Rightarrow> live_reply res \<times> fp_state \<times> world" where
  "handleLive accessKey lat stays q s w =
     (if lq_access_key q = [] then (Ok (ErrorReply 101 ''missing or invalid access_key''), s, w)
      else if accessKey \<noteq> [] \<and> lq_access_key q \<noteq> accessKey then (Ok (ErrorReply 101 ''invalid access_key''), s, w)
      else case Consume s of
        (False, s1) \<Rightarrow> (Ok (ErrorReply 104 ''monthly quota exceeded''), s1, w)
      | (True, s1) \<Rightarrow>
          (case sampleLatency lat w of
             (Panic m, w1) \<Rightarrow> (Panic m, s1, w1)
           | (Ok d, w1) \<Rightarrow>
               if 0 < d \<and> \<not> stays then (Ok ClientGone, s1, w1)
               else
                 let source = (if lq_source q = [] then ''USD'' else lq_source q);
                     targets = (if lq_currencies q = [] then [''USD'', ''EUR'', ''MXN''] else split_on (CHR '','') (lq_currencies q))
                 in case AllRatesForBase source targets [] s1 w1 of
                      (quotes, s2, w2) \<Rightarrow>
                        (case WindowTimestamp s2 w2 of (ts, w3) \<Rightarrow> (Ok (SuccessReply ts source quotes), s2, w3))))"

definition ServeHTTP ::
    "string \<Rightarrow> latency \<Rightarrow> bool \<Rightarrow> string \<Rightarrow> live_query \<Rightarrow> fp_state \<Rightarrow> world \<Rightarrow> live_reply res \<times> fp_state \<times> world" where
  "ServeHTTP accessKey lat stays path q s w =
     (if path \<noteq> ''/live'' then (Ok NotFoundReply, s, w) else handleLive accessKey lat stays q s w)"

section \<open>Rates\<close>

definition js_pos :: "js_num \<Rightarrow> bool" where
  "js_pos v \<longleftrightarrow> v = PosInf \<or> (\<exists>x. v = Fin x \<and> 0 < x)"

definition rates_positive :: "fp_state \<Rightarrow> bool" where
  "rates_positive s \<longleftrightarrow> (\<forall>p ps. map_of (fps_rates s) p = Some ps \<longrightarrow> js_pos (ps_rate ps))"

lemma js_pos_round: "pow2 k \<le> x \<Longrightarrow> - 1022 \<le> k \<Longrightarrow> js_pos (js_round x)"
  using js_round_ge [of k x] less_le_trans [OF pow2_pos [of k]] unfolding js_pos_def by blast

lemma rates_positive_New: "rates_positive (NewState q c)"
proof -
  have "js_pos (js_round (85 / 100))" "js_pos (js_round (118 / 100))" "js_pos (js_round (1718 / 100))"
    "js_pos (js_round (58 / 1000))" "js_pos (js_round (2026 / 100))" "js_pos (js_round (49 / 1000))"
    by (rule js_pos_round [of "- 10"]; simp add: pow2_def)+
  then show ?thesis by (auto simp: rates_positive_def NewState_def split: if_splits)
qed

lemma Float64_range: "Float64 w = (u, w1) \<Longrightarrow> \<exists>x. u = Fin x \<and> 0 \<le> x \<and> x < 1 \<and> clk w1 = clk w \<and> reads w1 = reads w"
proof -
  assume "Float64 w = (u, w1)"
  then have u: "u = Fin (of_nat (rnd w (draws w) mod 2 ^ 53) / 2 ^ 53)" "w1 = w\<lparr>draws := Suc (draws w)\<rparr>" by (simp_all add: Float64_def)
  have "rnd w (draws w) mod 2 ^ 53 < 2 ^ 53" by simp
  then have "(of_nat (rnd w (draws w) mod 2 ^ 53) :: rat) < of_nat (2 ^ 53)" by (simp only: of_nat_less_iff)
  then show ?thesis unfolding u by (intro exI [of _ "of_nat (rnd w (draws w) mod 2 ^ 53) / 2 ^ 53"]) (simp add: divide_less_eq)
qed

lemma js_add_pos:
  assumes "pow2 k \<le> a" and "- 1022 \<le> k" and "v = PosInf \<or> (\<exists>b. v = Fin b \<and> 0 \<le> b)"
  shows "js_add (Fin a) v = PosInf \<or> (\<exists>x. js_add (Fin a) v = Fin x \<and> pow2 k \<le> x)"
  using assms(3)
proof (elim disjE exE conjE)
  fix b assume b: "v = Fin b" "0 \<le> b"
  then have "pow2 k \<le> a + b" using assms(1) by simp
  from js_round_ge [OF this assms(2)] b show ?thesis by simp
qed simp

lemma js_mul_nonneg: "0 \<le> a \<Longrightarrow> 0 \<le> b \<Longrightarrow> js_mul (Fin a) (Fin b) = PosInf \<or> (\<exists>x. js_mul (Fin a) (Fin b) = Fin x \<and> 0 \<le> x)"
  using js_round_nonneg [of "a * b"] by simp

lemma round_tenth: "\<exists>c. js_round (1 / 10) = Fin c \<and> 0 \<le> c"
  using js_round_less [of "1 / 10" 0] by (auto simp: pow2_def)

lemma round_twentieth: "\<exists>c. js_round (1 / 20) = Fin c \<and> c \<le> 1 / 2"
  using js_round_less [of "1 / 20" "- 1"] by (auto simp: pow2_def)

text \<open>One step of the walk keeps a rate positive (an overflow to infinity included).\<close>

lemma advanceRate_pos:
  assumes "js_pos rate" and "advanceRate rate w = (r, w1)"
  shows "js_pos r"
proof -
  obtain u w' where f: "Float64 w = (u, w')" by force
  obtain x where x: "u = Fin x" "0 \<le> x" using Float64_range [OF f] by auto
  obtain c d where c: "js_round (1 / 10) = Fin c" "0 \<le> c" and d: "js_round (1 / 20) = Fin d" "d \<le> 1 / 2"
    using round_tenth round_twentieth by auto
  define a where "a = js_add (Fin 1) (js_mul u (js_round (1 / 10)))"
  define factor where "factor = js_add a (js_neg (js_round (1 / 20)))"
  have a: "a = PosInf \<or> (\<exists>v. a = Fin v \<and> 1 \<le> v)"
    using js_add_pos [of 0 1 "js_mul u (js_round (1 / 10))"] js_mul_nonneg [OF x(2) c(2)] x c by (auto simp: a_def pow2_def)
  have factor: "js_pos factor"
    using a
  proof (elim disjE exE conjE)
    fix v assume v: "a = Fin v" "1 \<le> v"
    then have "pow2 (- 1) \<le> v - d" using d(2) by (simp add: pow2_def)
    from js_pos_round [OF this] v d show ?thesis by (simp add: factor_def)
  qed (simp add: factor_def d js_pos_def)
  have prod: "js_mul rate factor = PosInf \<or> (\<exists>y. js_mul rate factor = Fin y)"
  proof (cases "\<exists>y z. rate = Fin y \<and> factor = Fin z")
    case True
    then obtain y z where yz: "rate = Fin y" "factor = Fin z" by blast
    then have "0 \<le> y * z" using assms(1) factor by (simp add: js_pos_def)
    with js_round_nonneg [of "y * z"] yz show ?thesis by auto
  next
    case False
    with assms(1) factor show ?thesis by (auto simp: js_pos_def js_signed_inf_def)
  qed
  have r: "r = (if js_le (js_mul rate factor) 0 then js_round (1 / 10000) else js_mul rate factor)"
    using assms(2) f by (auto simp: advanceRate_def Let_def factor_def a_def)
  have "js_pos (js_round (1 / 10000))" by (rule js_pos_round [of "- 20"]) (simp_all add: pow2_def)
  with r prod show ?thesis by (auto simp: js_pos_def split: if_splits)
qed

lemma first_rate_pos: "Float64 w = (u, w1) \<Longrightarrow> js_pos (js_add (Fin (1 / 2)) (js_mul u (Fin (39 / 2))))"
proof -
  assume f: "Float64 w = (u, w1)"
  obtain x where x: "u = Fin x" "0 \<le> x" using Float64_range [OF f] by auto
  from js_add_pos [of "- 1" "1 / 2" "js_mul u (Fin (39 / 2))"] js_mul_nonneg [OF x(2), of "39 / 2"] x(1) show ?thesis
    by (auto simp: pow2_def js_pos_def intro: less_le_trans [of 0 "1 / 2"])
qed

lemma rateLocked_law:
  assumes pos: "rates_positive s" and rl: "rateLocked p s w = (r, s1, w1)"
  shows "rates_positive s1 \<and> js_pos r \<and> fps_monthlyQuota s1 = fps_monthlyQuota s \<and> fps_cadenceSeconds s1 = fps_cadenceSeconds s
    \<and> (\<exists>ps. map_of (fps_rates s1) p = Some ps \<and> ps_rate ps = r
         \<and> (0 < fps_cadenceSeconds s \<longrightarrow> (\<exists>n. ps_lastWindow ps = go_quot (Unix (clk w n)) (fps_cadenceSeconds s))))"
proof -
  obtain ps w0 where init: "(case map_of (fps_rates s) p of Some ps \<Rightarrow> (ps, w)
      | None \<Rightarrow> (case Float64 w of (u, w1) \<Rightarrow> (\<lparr>ps_rate = js_add (Fin (1 / 2)) (js_mul u (Fin (39 / 2))), ps_lastWindow = - 1\<rparr>, w1))) = (ps, w0)" by force
  have ps: "js_pos (ps_rate ps)" "clk w0 = clk w"
  proof (atomize (full), cases "map_of (fps_rates s) p")
    case (Some x)
    then show "js_pos (ps_rate ps) \<and> clk w0 = clk w" using init pos by (auto simp: rates_positive_def)
  next
    case None
    obtain u w2 where f: "Float64 w = (u, w2)" by force
    then show "js_pos (ps_rate ps) \<and> clk w0 = clk w" using init None Float64_range [OF f] first_rate_pos [OF f] by auto
  qed
  have upd: "rates_positive (s\<lparr>fps_rates := AList.update p x (fps_rates s)\<rparr>)" if "js_pos (ps_rate x)" for x
    using pos that by (auto simp: rates_positive_def update_conv' simp del: map_of_eq_Some_iff)
  have adv: "js_pos r'" if "advanceRate (ps_rate ps) w' = (r', w'')" for r' w' w''
    by (rule advanceRate_pos [OF ps(1) that])
  show ?thesis
  proof (cases "0 < fps_cadenceSeconds s")
    case False
    obtain r' w2 where a: "advanceRate (ps_rate ps) w0 = (r', w2)" by force
    then have "r = r'" "s1 = s\<lparr>fps_rates := AList.update p (ps\<lparr>ps_rate := r'\<rparr>) (fps_rates s)\<rparr>"
      using rl init False by (auto simp: rateLocked_def)
    with upd [of "ps\<lparr>ps_rate := r'\<rparr>"] adv [OF a] False show ?thesis by (simp add: update_conv')
  next
    case True
    let ?k = "go_quot (Unix (Now w0)) (fps_cadenceSeconds s)"
    have k: "\<exists>n. ?k = go_quot (Unix (clk w n)) (fps_cadenceSeconds s)" using ps(2) by (auto simp: Now_def)
    show ?thesis
    proof (cases "ps_lastWindow ps = ?k")
      case same: True
      then have "r = ps_rate ps" "s1 = s\<lparr>fps_rates := AList.update p ps (fps_rates s)\<rparr>"
        using rl init True by (auto simp: rateLocked_def)
      with upd [of ps] ps True k same show ?thesis by (simp add: update_conv')
    next
      case new: False
      obtain r' w2 where a: "advanceRate (ps_rate ps) (tick w0) = (r', w2)" by force
      then have "r = r'" "s1 = s\<lparr>fps_rates := AList.update p \<lparr>ps_rate = r', ps_lastWindow = ?k\<rparr> (fps_rates s)\<rparr>"
        using rl init True new by (auto simp: rateLocked_def)
      with upd [of "\<lparr>ps_rate = r', ps_lastWindow = ?k\<rparr>"] adv [OF a] True k show ?thesis by (simp add: update_conv')
    qed
  qed
qed

lemma AllRatesForBase_law:
  assumes "rates_positive s" and "\<forall>(k, r) \<in> set out. js_pos r" and "AllRatesForBase base ts out s w = (qs, s1, w1)"
  shows "rates_positive s1 \<and> (\<forall>(k, r) \<in> set qs. js_pos r) \<and> fps_monthlyQuota s1 = fps_monthlyQuota s
    \<and> fst ` set qs = fst ` set out \<union> {base @ t | t. t \<in> set ts \<and> t \<noteq> base}"
  using assms
proof (induction base ts out s w rule: AllRatesForBase.induct)
  case (1 base out s w)
  then show ?case by auto
next
  case (2 base t ts out s w)
  show ?case
  proof (cases "t = base")
    case True
    have "{base @ x | x. x \<in> set (t # ts) \<and> x \<noteq> base} = {base @ x | x. x \<in> set ts \<and> x \<noteq> base}" using True by auto
    with True 2 show ?thesis by simp
  next
    case False
    obtain r s2 w2 where rl: "rateLocked (Pair base t) s w = (r, s2, w2)" by (metis prod_cases3)
    note law = rateLocked_law [OF 2(3) rl]
    have pos: "\<forall>(k, r) \<in> set (AList.update (base @ t) r out). js_pos r"
      using set_update_subset [of "base @ t" r out] 2(4) law by fastforce
    have keys: "fst ` set (AList.update (base @ t) r out) = insert (base @ t) (fst ` set out)"
      by (induction out) auto
    have "{base @ x | x. x \<in> set (t # ts) \<and> x \<noteq> base} = insert (base @ t) {base @ x | x. x \<in> set ts \<and> x \<noteq> base}"
      using False by auto
    with 2(2) [OF False rl [symmetric] refl _ pos] 2(5) False rl law keys show ?thesis by auto
  qed
qed

section \<open>Quota\<close>

fun consume_n :: "nat \<Rightarrow> fp_state \<Rightarrow> nat \<times> fp_state" where
  "consume_n 0 s = (0, s)"
| "consume_n (Suc n) s =
     (case Consume s of (ok, s1) \<Rightarrow> case consume_n n s1 of (k, s2) \<Rightarrow> ((if ok then Suc k else k), s2))"

lemma consume_n_min: "fst (consume_n n s) = min n (nat (fps_monthlyQuota s))"
proof (induction n arbitrary: s)
  case (Suc n)
  show ?case
  proof (cases "fps_monthlyQuota s \<le> 0")
    case True
    with Suc [of s] show ?thesis by (auto simp: Consume_def split: prod.splits)
  next
    case False
    then have "nat (fps_monthlyQuota s) = Suc (nat (fps_monthlyQuota s - 1))" by simp
    with False Suc [of "s\<lparr>fps_monthlyQuota := fps_monthlyQuota s - 1\<rparr>"] show ?thesis
      by (auto simp: Consume_def split: prod.splits)
  qed
qed simp

section \<open>Properties\<close>

text \<open>The /live endpoint of the stand-in, on every branch (latency injection off). A missing or wrong key is answered with
  error 101 and changes nothing; without quota it is error 104, again without a change; otherwise exactly one unit of quota
  is spent and the reply quotes every requested currency other than the source once, under the key source + currency, at
  a positive rate.\<close>

lemma handleLive_branches:
  assumes "rates_positive s" and "lc_MinMS lat = 0" and "lc_MaxMS lat = 0"
    and "handleLive accessKey lat stays q s w = (out, s', w')"
  shows "if lq_access_key q = [] \<or> accessKey \<noteq> [] \<and> lq_access_key q \<noteq> accessKey then (\<exists>m. out = Ok (ErrorReply 101 m)) \<and> s' = s
    else if fps_monthlyQuota s \<le> 0 then (\<exists>m. out = Ok (ErrorReply 104 m)) \<and> s' = s
    else fps_monthlyQuota s' = fps_monthlyQuota s - 1 \<and> rates_positive s'
      \<and> (\<exists>ts src qs. out = Ok (SuccessReply ts src qs) \<and> src = (if lq_source q = [] then ''USD'' else lq_source q)
           \<and> (\<forall>(k, r) \<in> set qs. js_pos r)
           \<and> fst ` set qs = {src @ t | t. t \<in> set (if lq_currencies q = [] then [''USD'', ''EUR'', ''MXN''] else split_on (CHR '','') (lq_currencies q)) \<and> t \<noteq> src})"
proof -
  let ?src = "if lq_source q = [] then ''USD'' else lq_source q"
  let ?ts = "if lq_currencies q = [] then [''USD'', ''EUR'', ''MXN''] else split_on (CHR '','') (lq_currencies q)"
  define s1 where "s1 = s\<lparr>fps_monthlyQuota := fps_monthlyQuota s - 1\<rparr>"
  have pos1: "rates_positive s1" using assms(1) by (simp add: rates_positive_def s1_def)
  obtain qs s2 w2 where a: "AllRatesForBase ?src ?ts [] s1 w = (qs, s2, w2)" by (metis prod_cases3)
  obtain t w3 where t: "WindowTimestamp s2 w2 = (t, w3)" by force
  have law: "rates_positive s2 \<and> (\<forall>(k, r) \<in> set qs. js_pos r) \<and> fps_monthlyQuota s2 = fps_monthlyQuota s1
      \<and> fst ` set qs = {?src @ t | t. t \<in> set ?ts \<and> t \<noteq> ?src}"
    using AllRatesForBase_law [OF pos1 _ a] by simp
  have lat: "sampleLatency lat w = (Ok 0, w)" using assms(2,3) by (simp add: sampleLatency_def)
  have ok: "out = Ok (SuccessReply t ?src qs) \<and> s' = s2" if "lq_access_key q \<noteq> []" "accessKey = [] \<or> lq_access_key q = accessKey" "0 < fps_monthlyQuota s"
    using assms(4) that lat a t unfolding handleLive_def Consume_def s1_def [symmetric] Let_def by auto
  show ?thesis
  proof (cases "lq_access_key q = [] \<or> accessKey \<noteq> [] \<and> lq_access_key q \<noteq> accessKey")
    case True
    then show ?thesis using assms(4) by (auto simp: handleLive_def split: if_splits)
  next
    case auth: False
    show ?thesis
    proof (cases "fps_monthlyQuota s \<le> 0")
      case True
      then show ?thesis using auth assms(4) by (auto simp: handleLive_def Consume_def)
    next
      case False
      then have o: "out = Ok (SuccessReply t ?src qs)" "s' = s2" using auth ok by auto
      have q: "fps_monthlyQuota s2 = fps_monthlyQuota s - 1" using law by (simp add: s1_def)
      show ?thesis using auth False o q law by auto
    qed
  qed
qed

lemma update_twice: "AList.update k v (AList.update k v xs) = AList.update k v xs"
  by (induction xs) auto

text \<open>C40: Rates move at most once per cadence window. With a positive cadence, after one reading of a pair every further reading
  whose clock falls into the same window returns the same rate, leaves the state as it is and draws no random number.\<close>

theorem rate_stable_in_window:
  assumes "0 < fps_cadenceSeconds s" and "rateLocked p s w = (r, s1, w1)"
    and "go_quot (Unix (Now w2)) (fps_cadenceSeconds s) = go_quot (Unix (clk w (reads w))) (fps_cadenceSeconds s)"
  shows "rateLocked p s1 w2 = (r, s1, tick w2)"
proof -
  obtain ps w0 where init: "(case map_of (fps_rates s) p of Some ps \<Rightarrow> (ps, w)
      | None \<Rightarrow> (case Float64 w of (u, w1) \<Rightarrow> (\<lparr>ps_rate = js_add (Fin (1 / 2)) (js_mul u (Fin (39 / 2))), ps_lastWindow = - 1\<rparr>, w1))) = (ps, w0)" by force
  have w0: "Now w0 = clk w (reads w)"
    using init by (auto simp: Now_def Float64_def split: option.splits)
  define k where "k = go_quot (Unix (Now w0)) (fps_cadenceSeconds s)"
  obtain x where x: "s1 = s\<lparr>fps_rates := AList.update p x (fps_rates s)\<rparr>" "ps_rate x = r" "ps_lastWindow x = k"
  proof (cases "ps_lastWindow ps = k")
    case True
    then have "r = ps_rate ps" "s1 = s\<lparr>fps_rates := AList.update p ps (fps_rates s)\<rparr>"
      using assms(1,2) init by (auto simp: rateLocked_def k_def)
    then show thesis using True that by blast
  next
    case False
    obtain r' w2 where a: "advanceRate (ps_rate ps) (tick w0) = (r', w2)" by force
    then have "r = r'" "s1 = s\<lparr>fps_rates := AList.update p \<lparr>ps_rate = r', ps_lastWindow = k\<rparr> (fps_rates s)\<rparr>"
      using assms(1,2) init False by (auto simp: rateLocked_def k_def)
    then show thesis using that [of "\<lparr>ps_rate = r', ps_lastWindow = k\<rparr>"] by simp
  qed
  have look: "map_of (fps_rates s1) p = Some x" "fps_cadenceSeconds s1 = fps_cadenceSeconds s" by (simp_all add: x(1) update_conv')
  have again: "AList.update p x (fps_rates s1) = fps_rates s1" by (simp add: x(1) update_twice)
  have key: "ps_lastWindow x = go_quot (Unix (Now w2)) (fps_cadenceSeconds s)" using assms(3) x(3) w0 by (simp add: k_def)
  show ?thesis using look again key x(2) assms(1) by (simp add: rateLocked_def Let_def)
qed

theorem rate_stable_in_window_witness:
  "\<exists>r s1 w1. rateLocked (Pair ''EUR'' ''USD'') (NewState 5 60) sample_world = (r, s1, w1)
     \<and> rateLocked (Pair ''EUR'' ''USD'') s1 (sample_world\<lparr>reads := 7\<rparr>) = (r, s1, tick (sample_world\<lparr>reads := 7\<rparr>))"
proof -
  obtain r s1 w1 where l: "rateLocked (Pair ''EUR'' ''USD'') (NewState 5 60) sample_world = (r, s1, w1)" by (metis prod_cases3)
  have c: "0 < fps_cadenceSeconds (NewState 5 60)" by (simp add: NewState_def)
  have "go_quot (Unix (Now (sample_world\<lparr>reads := 7\<rparr>))) (fps_cadenceSeconds (NewState 5 60))
      = go_quot (Unix (clk sample_world (reads sample_world))) (fps_cadenceSeconds (NewState 5 60))"
    by (simp add: NewState_def Now_def sample_world_def Unix_def go_quot_def)
  from rate_stable_in_window [OF c l this] l show ?thesis by blast
qed

text \<open>The largest latency bound is accepted, and makes every request past the quota check panic.\<close>

lemma latency_span_overflow:
  "lc_MinMS cfg = 0 \<Longrightarrow> lc_MaxMS cfg = 2 ^ 63 - 1 \<Longrightarrow> fst (sampleLatency cfg w) = Panic ''invalid argument to Int64N''"
  by (simp add: sampleLatency_def wrap64_def Let_def)

end
