(* ===== verification/Fakeprocess.thy ===== *)
theory Fakeprocess
  imports Fakeprovider Lifecycle
begin

text \<open>
  The process of the stand-in provider, \<open>cmd/fakeprovider/main.go\<close>: what it builds from its environment, and its two
  goroutines (the listener, and the main one with its \<open>select\<close> and \<open>Shutdown\<close>) as steps over all interleavings. The
  lemmas say what \<open>run\<close> can return: the listener's error, or what \<open>Shutdown\<close> returned after a signal.
\<close>

section \<open>What is built\<close>

record fp_server =
  fsv_state :: fp_state
  fsv_accessKey :: string
  fsv_latency :: latency

definition fp_wire :: "fp_config \<Rightarrow> fp_server" where
  "fp_wire cfg = \<lparr>fsv_state = NewState (fpc_MonthlyQuota cfg) (fpc_CadenceSeconds cfg), fsv_accessKey = fpc_AccessKey cfg,
     fsv_latency = \<lparr>lc_MinMS = fpc_LatencyMinMS cfg, lc_MaxMS = fpc_LatencyMaxMS cfg\<rparr>\<rparr>"

definition fp_serve :: "fp_server \<Rightarrow> bool \<Rightarrow> string \<Rightarrow> live_query \<Rightarrow> world \<Rightarrow> live_reply res \<times> fp_server \<times> world" where
  "fp_serve sv stays path q w =
     (case ServeHTTP (fsv_accessKey sv) (fsv_latency sv) stays path q (fsv_state sv) w of
        (out, s1, w1) \<Rightarrow> (out, sv\<lparr>fsv_state := s1\<rparr>, w1))"

section \<open>Steps\<close>

datatype fp_main = FpSelect | FpShutdown | FpReturned "error option"

record fp_process =
  fpp_signalled :: bool
  fpp_serverErr :: "error option option"
  fpp_listening :: bool
  fpp_closed :: bool
  fpp_main :: fp_main

definition fp_started :: fp_process where
  "fp_started = \<lparr>fpp_signalled = False, fpp_serverErr = None, fpp_listening = True, fpp_closed = False, fpp_main = FpSelect\<rparr>"

text \<open>\<open>run\<close> returns at once when the configuration is refused.\<close>

definition fp_boot :: "env \<Rightarrow> fp_process \<times> fp_server option" where
  "fp_boot getenv =
     (case fp_Load getenv of
        Inl e \<Rightarrow> (fp_started\<lparr>fpp_listening := False, fpp_main := FpReturned (Some e)\<rparr>, None)
      | Inr cfg \<Rightarrow> (fp_started, Some (fp_wire cfg)))"

datatype fp_event =
    FpSignal
  | FpListenFails error
  | FpListenClosed
  | FpTakeSignal
  | FpTakeServerErr
  | FpShutdownReturns "error option"

definition fp_running :: "fp_process \<Rightarrow> bool" where
  "fp_running p = (case fpp_main p of FpReturned r \<Rightarrow> False | _ \<Rightarrow> True)"

fun fp_step :: "fp_event \<Rightarrow> fp_process \<Rightarrow> fp_process option" where
  "fp_step FpSignal p = guard (fp_running p) (p\<lparr>fpp_signalled := True\<rparr>)"
| "fp_step (FpListenFails e) p =
     guard (fpp_listening p \<and> fp_running p) (p\<lparr>fpp_listening := False, fpp_serverErr := Some (Some e)\<rparr>)"
| "fp_step FpListenClosed p =
     guard (fpp_listening p \<and> fpp_closed p \<and> fp_running p) (p\<lparr>fpp_listening := False, fpp_serverErr := Some None\<rparr>)"
| "fp_step FpTakeSignal p =
     guard (fpp_main p = FpSelect \<and> fpp_signalled p) (p\<lparr>fpp_main := FpShutdown, fpp_closed := True\<rparr>)"
| "fp_step FpTakeServerErr p =
     (case (fpp_main p, fpp_serverErr p) of
        (FpSelect, Some v) \<Rightarrow> Some (p\<lparr>fpp_main := FpReturned (run_result (ServerStopped v)), fpp_serverErr := None\<rparr>)
      | _ \<Rightarrow> None)"
| "fp_step (FpShutdownReturns r) p = guard (fpp_main p = FpShutdown) (p\<lparr>fpp_main := FpReturned r\<rparr>)"

inductive fp_reachable :: "fp_process \<Rightarrow> fp_event list \<Rightarrow> fp_process \<Rightarrow> bool" for p0 where
  start: "fp_reachable p0 [] p0"
| step: "fp_reachable p0 es p \<Longrightarrow> fp_step e p = Some q \<Longrightarrow> fp_reachable p0 (es @ [e]) q"

section \<open>What run can return\<close>

definition fp_invar :: "fp_event list \<Rightarrow> fp_process \<Rightarrow> bool" where
  "fp_invar es p \<longleftrightarrow>
     (fpp_signalled p \<longrightarrow> FpSignal \<in> set es) \<and> (fpp_closed p \<longrightarrow> fpp_main p \<noteq> FpSelect \<and> FpSignal \<in> set es)
     \<and> (fpp_main p = FpShutdown \<longrightarrow> fpp_closed p)
     \<and> (fpp_main p = FpSelect \<longrightarrow> (\<forall>v. fpp_serverErr p = Some v \<longrightarrow> (\<exists>e. v = Some e \<and> FpListenFails e \<in> set es)))
     \<and> (\<forall>r. fpp_main p = FpReturned r \<longrightarrow>
          (\<exists>e. FpListenFails e \<in> set es \<and> r = Some (Wrapf ''http server'' e)) \<or> FpSignal \<in> set es \<and> FpShutdownReturns r \<in> set es)"

lemma fp_invar_step: "fp_invar es p \<Longrightarrow> fp_step e p = Some q \<Longrightarrow> fp_invar (es @ [e]) q"
  by (cases e) (auto simp: fp_invar_def guard_def run_result_def split: if_splits fp_main.splits option.splits)

lemma fp_reachable_invar: "fp_reachable fp_started es p \<Longrightarrow> fp_invar es p"
proof (induction rule: fp_reachable.induct)
  case start
  then show ?case by (simp add: fp_started_def fp_invar_def)
qed (rule fp_invar_step)

text \<open>The process ends with status 0 only after a signal and a clean \<open>Shutdown\<close>; otherwise its error is the listener's, or
  the one \<open>Shutdown\<close> returned. The \<open>nil\<close> that the listener sends after \<open>ErrServerClosed\<close> is never taken.\<close>

lemma fp_run_returns:
  assumes "fp_reachable fp_started es p" and "fpp_main p = FpReturned r"
  shows "(\<exists>e. FpListenFails e \<in> set es \<and> r = Some (Wrapf ''http server'' e)) \<or> FpSignal \<in> set es \<and> FpShutdownReturns r \<in> set es"
    and "exit_code r = 0 \<longrightarrow> FpSignal \<in> set es \<and> FpShutdownReturns None \<in> set es"
  using fp_reachable_invar [OF assms(1)] assms(2) by (auto simp: fp_invar_def exit_code_def split: if_splits)

text \<open>After a signal the process is never stuck: two steps of the main goroutine at most end it, whatever \<open>Shutdown\<close> returns.\<close>

lemma fp_signal_ends:
  assumes "fp_reachable fp_started es p" and "fpp_signalled p" and "fp_running p"
  shows "\<exists>es' q. fp_reachable fp_started (es @ es') q \<and> length es' \<le> 2 \<and> fpp_main q = FpReturned r"
proof (cases "fpp_main p")
  case FpSelect
  define p1 where "p1 = p\<lparr>fpp_main := FpShutdown, fpp_closed := True\<rparr>"
  have "fp_step FpTakeSignal p = Some p1" using FpSelect assms(2) by (simp add: guard_def p1_def)
  from fp_reachable.step [OF assms(1) this] have "fp_reachable fp_started (es @ [FpTakeSignal]) p1" .
  from fp_reachable.step [OF this, of "FpShutdownReturns r"] show ?thesis
    by (intro exI [of _ "[FpTakeSignal, FpShutdownReturns r]"]) (auto simp: guard_def p1_def)
next
  case FpShutdown
  with fp_reachable.step [OF assms(1), of "FpShutdownReturns r"] show ?thesis
    by (intro exI [of _ "[FpShutdownReturns r]"]) (auto simp: guard_def)
qed (use assms(3) in \<open>simp add: fp_running_def\<close>)

text \<open>A configuration that \<open>Load\<close> accepts serves at once; a wrong one ends the process with status 1.\<close>

lemma fp_boot_cases:
  "(\<exists>cfg. fp_Load getenv = Inr cfg \<and> fp_boot getenv = (fp_started, Some (fp_wire cfg)))
   \<or> (\<exists>e. fp_Load getenv = Inl e \<and> fpp_main (fst (fp_boot getenv)) = FpReturned (Some e) \<and> exit_code (Some e) = 1)"
  by (cases "fp_Load getenv") (simp_all add: fp_boot_def exit_code_def)

end
