(* ===== verification/Loadtest.thy ===== *)
theory Loadtest
  imports Jsnum Api Config
begin

text \<open>
  The load tests, \<open>loadtest/common.js\<close> and \<open>loadtest/profile1.js\<close> to \<open>profile5.js\<close>: the options each
  profile hands to k6, the request of one iteration, the checks on the response, and the two
  parsers that read the Prometheus text. The HTTP client of k6 is the argument \<open>http\<close>; the
  environment \<open>__ENV\<close> and the iteration counter \<open>__ITER\<close> are arguments; \<open>Math.random\<close> draws from
  the random oracle of the world. A response that never came has no body (\<open>null\<close> in k6), and reading
  it is the TypeError of JavaScript. Console output is not modelled.
\<close>

section \<open>common.js\<close>

definition BASE_URL :: string where "BASE_URL = ''http://server:8080''"

definition PAIRS :: "pair list" where
  "PAIRS = [Pair ''USD'' ''EUR'', Pair ''USD'' ''MXN'', Pair ''EUR'' ''USD'', Pair ''EUR'' ''MXN'', Pair ''MXN'' ''USD'',
    Pair ''MXN'' ''EUR'']"

definition JSON_HEADERS :: "(string \<times> string) list" where
  "JSON_HEADERS = [(''Content-Type'', ''application/json'')]"

definition pickRandom :: "'a list \<Rightarrow> world \<Rightarrow> 'a \<times> world" where
  "pickRandom arr w = (case Math_random w of (m, w1) \<Rightarrow> (arr ! random_index m (length arr), w1))"

text \<open>\<open>roll < 0.8\<close>: the double nearest to 0.8 is 7205759403792794 * 2^-53.\<close>

definition below_four_fifths :: "nat \<Rightarrow> bool" where
  "below_four_fifths m \<longleftrightarrow> m < 7205759403792794"

section \<open>Requests, responses, checks\<close>

record js_request =
  jq_method :: string
  jq_url :: string
  jq_body :: "string option"
  jq_headers :: "(string \<times> string) list"
  jq_name :: "string option"

record js_response =
  js_status :: int
  js_headers :: "(string \<times> string) list"
  js_body :: "string option"

type_synonym checks = "(string \<times> bool) list"

definition dq :: char where "dq = CHR 0x22"

definition stringify_pair :: "pair \<Rightarrow> string" where
  "stringify_pair p = ''{'' @ [dq] @ ''base'' @ [dq] @ '':'' @ [dq] @ Base p @ [dq] @ '',''
     @ [dq] @ ''quote'' @ [dq] @ '':'' @ [dq] @ Quote p @ [dq] @ ''}''"

definition get_latest :: "pair \<Rightarrow> js_request" where
  "get_latest p = \<lparr>jq_method = ''GET'', jq_url = BASE_URL @ ''/quotes/latest?base='' @ Base p @ ''&quote='' @ Quote p,
     jq_body = None, jq_headers = [], jq_name = Some ''GET /quotes/latest''\<rparr>"

definition post_refresh :: "pair \<Rightarrow> js_request" where
  "post_refresh p = \<lparr>jq_method = ''POST'', jq_url = BASE_URL @ ''/quotes/refresh'', jq_body = Some (stringify_pair p),
     jq_headers = JSON_HEADERS, jq_name = Some ''POST /quotes/refresh''\<rparr>"

definition get_metrics :: js_request where
  "get_metrics = \<lparr>jq_method = ''GET'', jq_url = BASE_URL @ ''/metrics'', jq_body = None, jq_headers = [], jq_name = None\<rparr>"

section \<open>Options\<close>

datatype js_val = JNum js_num | JStr string

record scenario =
  sc_name :: string
  sc_executor :: string
  sc_rate :: "js_val option"
  sc_timeUnit :: "string option"
  sc_duration :: "string option"
  sc_preAllocatedVUs :: "js_num option"
  sc_maxVUs :: "js_num option"
  sc_vus :: "js_num option"
  sc_iterations :: "js_num option"
  sc_maxDuration :: "string option"

record options =
  op_scenario :: scenario
  op_thresholds :: "(string \<times> string list) list"

type_synonym js_env = "string \<Rightarrow> string option"

text \<open>\<open>parseInt(__ENV.LOADTEST_VUS) || def\<close>: an unset variable is \<open>undefined\<close>, whose text is no number.\<close>

definition preallocated_vus :: "js_env \<Rightarrow> rat \<Rightarrow> js_num" where
  "preallocated_vus env def =
     js_or (parseInt (case env ''LOADTEST_VUS'' of None \<Rightarrow> ''undefined'' | Some s \<Rightarrow> s)) def"

definition max_vus :: "js_num \<Rightarrow> rat \<Rightarrow> js_num" where
  "max_vus vus floor_vus = js_max (js_mul vus (Fin 2)) floor_vus"

definition env_rate :: "js_env \<Rightarrow> rat \<Rightarrow> js_val" where
  "env_rate env def = (case env ''LOADTEST_RATE'' of None \<Rightarrow> JNum (Fin def) | Some s \<Rightarrow> if s = [] then JNum (Fin def) else JStr s)"

definition env_duration :: "js_env \<Rightarrow> string" where
  "env_duration env = (case env ''LOADTEST_DURATION'' of None \<Rightarrow> ''30s'' | Some s \<Rightarrow> if s = [] then ''30s'' else s)"

definition arrival_scenario :: "string \<Rightarrow> js_env \<Rightarrow> rat \<Rightarrow> rat \<Rightarrow> rat \<Rightarrow> scenario" where
  "arrival_scenario name env rate vus floor_vus =
     \<lparr>sc_name = name, sc_executor = ''constant-arrival-rate'', sc_rate = Some (env_rate env rate), sc_timeUnit = Some ''1s'',
      sc_duration = Some (env_duration env), sc_preAllocatedVUs = Some (preallocated_vus env vus),
      sc_maxVUs = Some (max_vus (preallocated_vus env vus) floor_vus), sc_vus = None, sc_iterations = None, sc_maxDuration = None\<rparr>"

definition thr_failed :: "string \<times> string list" where "thr_failed = (''http_req_failed'', [''rate<0.01''])"
definition thr_latest :: "string \<times> string list" where "thr_latest = (''http_req_duration{name:GET /quotes/latest}'', [''p(99)<200''])"
definition thr_refresh :: "string \<times> string list" where "thr_refresh = (''http_req_duration{name:POST /quotes/refresh}'', [''p(99)<300''])"
definition thr_checks :: "string \<times> string list" where "thr_checks = (''checks'', [''rate>0.99''])"

definition p1_options :: "js_env \<Rightarrow> options" where
  "p1_options env = \<lparr>op_scenario = arrival_scenario ''mixed_load'' env 50 50 100,
     op_thresholds = [thr_failed, thr_latest, thr_refresh, thr_checks]\<rparr>"

definition p2_options :: "js_env \<Rightarrow> options" where
  "p2_options env = \<lparr>op_scenario = arrival_scenario ''read_storm'' env 500 100 200,
     op_thresholds = [thr_failed, thr_latest, thr_checks]\<rparr>"

definition p3_options :: "js_env \<Rightarrow> options" where
  "p3_options env = \<lparr>op_scenario = arrival_scenario ''refresh_burst'' env 100 50 100,
     op_thresholds = [thr_failed, thr_refresh, thr_checks]\<rparr>"

definition p4_options :: options where
  "p4_options = \<lparr>op_scenario = \<lparr>sc_name = ''coalescing_burst'', sc_executor = ''per-vu-iterations'', sc_rate = None,
     sc_timeUnit = None, sc_duration = None, sc_preAllocatedVUs = None, sc_maxVUs = None, sc_vus = Some (Fin 100),
     sc_iterations = Some (Fin 1), sc_maxDuration = Some ''10s''\<rparr>, op_thresholds = [thr_checks]\<rparr>"

definition p5_options :: "js_env \<Rightarrow> options" where
  "p5_options env = \<lparr>op_scenario = arrival_scenario ''failure_injection'' env 25 50 100,
     op_thresholds = [thr_failed, thr_latest, thr_refresh, thr_checks]\<rparr>"

section \<open>Iterations\<close>

text \<open>The request of one iteration of profiles 1 and 5.\<close>

definition mixed_request :: "world \<Rightarrow> js_request \<times> world" where
  "mixed_request w =
     (case pickRandom PAIRS w of (p, w1) \<Rightarrow>
        case Math_random w1 of (roll, w2) \<Rightarrow>
          if below_four_fifths roll then (get_latest p, w2) else (post_refresh p, w2))"

definition mixed_checks :: "js_request \<Rightarrow> js_response \<Rightarrow> checks" where
  "mixed_checks q r =
     (if jq_method q = ''GET'' then [(''GET /quotes/latest status 200'', js_status r = 200)]
      else [(''POST /quotes/refresh status 202'', js_status r = 202)])"

definition p1_default :: "(js_request \<Rightarrow> js_response) \<Rightarrow> world \<Rightarrow> checks \<times> world" where
  "p1_default http w = (case mixed_request w of (q, w1) \<Rightarrow> (mixed_checks q (http q), w1))"

definition p2_default :: "(js_request \<Rightarrow> js_response) \<Rightarrow> world \<Rightarrow> checks \<times> world" where
  "p2_default http w =
     (case pickRandom PAIRS w of (p, w1) \<Rightarrow>
        let r = http (get_latest p)
        in ([(''status is 200'', js_status r = 200),
             (''Cache-Control starts with '' @ [dq] @ ''public'' @ [dq],
              case map_of (js_headers r) ''Cache-Control'' of None \<Rightarrow> False | Some v \<Rightarrow> v \<noteq> [] \<and> startsWith v ''public''),
             (''ETag header is non-empty'',
              case map_of (js_headers r) ''Etag'' of None \<Rightarrow> False | Some v \<Rightarrow> v \<noteq> [] \<and> 0 < length v)], w1))"

definition p3_request :: "nat \<Rightarrow> js_request" where
  "p3_request iter = post_refresh (PAIRS ! (iter mod length PAIRS))"

definition p3_default :: "(js_request \<Rightarrow> js_response) \<Rightarrow> nat \<Rightarrow> checks" where
  "p3_default http iter = [(''status is 202'', js_status (http (p3_request iter)) = 202)]"

fun pending_in :: "string list \<Rightarrow> js_num" where
  "pending_in [] = Fin (- 1)"
| "pending_in (line # rest) =
     (if startsWith line ''#'' then pending_in rest
      else if startsWith line ''quote_jobs_pending_count ''
      then (case parseFloat (last (split_on (CHR '' '') line)) of NaN \<Rightarrow> pending_in rest | v \<Rightarrow> v)
      else pending_in rest)"

definition parsePendingCount :: "string \<Rightarrow> js_num" where
  "parsePendingCount text = pending_in (split_on (CHR 0x0A) text)"

text \<open>\<open>res.body\<close> read as a string.\<close>

definition body_text :: "js_response \<Rightarrow> string res" where
  "body_text r = (case js_body r of None \<Rightarrow> Panic ''TypeError'' | Some t \<Rightarrow> Ok t)"

definition p3_teardown :: "(js_request \<Rightarrow> js_response) \<Rightarrow> checks res" where
  "p3_teardown http =
     (case body_text (http get_metrics) of
        Panic m \<Rightarrow> Panic m
      | Ok text \<Rightarrow> let pending = parsePendingCount text in Ok [(''pending_count < 50'', js_lt pending 50)])"

definition ok_line :: "string \<Rightarrow> bool" where
  "ok_line line \<longleftrightarrow> startsWith line ''rates_provider_requests_total{'' \<and> contains_sub line (''outcome='' @ [dq] @ ''ok'' @ [dq])"

fun ok_sum :: "string list \<Rightarrow> js_num \<Rightarrow> js_num" where
  "ok_sum [] acc = acc"
| "ok_sum (line # rest) acc =
     (if ok_line line
      then (case parseFloat (last (split_on (CHR '' '') line)) of NaN \<Rightarrow> ok_sum rest acc | v \<Rightarrow> ok_sum rest (js_add acc v))
      else ok_sum rest acc)"

definition parseProviderOkCount :: "string \<Rightarrow> js_num" where
  "parseProviderOkCount text = ok_sum (split_on (CHR 0x0A) text) (Fin 0)"

definition p4_setup :: "(js_request \<Rightarrow> js_response) \<Rightarrow> js_num res" where
  "p4_setup http =
     (case body_text (http get_metrics) of Panic m \<Rightarrow> Panic m | Ok text \<Rightarrow> Ok (parseProviderOkCount text))"

definition p4_request :: js_request where
  "p4_request = (post_refresh (Pair ''USD'' ''EUR''))\<lparr>jq_name := None\<rparr>"

definition p4_default :: "(js_request \<Rightarrow> js_response) \<Rightarrow> checks" where
  "p4_default http = [(''POST /quotes/refresh status 202'', js_status (http p4_request) = 202)]"

definition p4_teardown :: "(js_request \<Rightarrow> js_response) \<Rightarrow> js_num \<Rightarrow> checks res" where
  "p4_teardown http baselineOk =
     (case body_text (http get_metrics) of
        Panic m \<Rightarrow> Panic m
      | Ok text \<Rightarrow>
          let currentOk = parseProviderOkCount text; delta = js_add currentOk (js_neg baselineOk)
          in Ok [(''provider delta <= 2'', js_le delta 2)])"

definition p5_default :: "(js_request \<Rightarrow> js_response) \<Rightarrow> world \<Rightarrow> checks \<times> world" where
  "p5_default http w = (case mixed_request w of (q, w1) \<Rightarrow> (mixed_checks q (http q), w1))"

section \<open>Numbers survive printing and parsing\<close>

lemma not_space_digit: "is_digit c \<Longrightarrow> \<not> js_space c"
  by (auto simp: is_digit_def js_space_def)

lemma takeWhile_digits: "list_all is_digit ds \<Longrightarrow> rest = [] \<or> \<not> is_digit (hd rest) \<Longrightarrow> takeWhile is_digit (ds @ rest) = ds"
  by (induction ds) (auto intro: takeWhile_eq_Nil_iff [THEN iffD2])

lemma digits_front:
  assumes "list_all is_digit ds" and "ds \<noteq> []"
  shows "dropWhile js_space ds = ds" and "js_sign ds = (False, ds)" and "\<not> startsWith ds ''Infinity''"
    and "takeWhile is_digit ds = ds" and "dropWhile is_digit ds = []"
proof -
  obtain c cs where ds: "ds = c # cs" using assms(2) by (cases ds) auto
  have c: "is_digit c" "list_all is_digit cs" using assms(1) ds by auto
  show "dropWhile js_space ds = ds" using not_space_digit [OF c(1)] ds by simp
  have "c \<noteq> CHR ''-''" "c \<noteq> CHR ''+''" "c \<noteq> CHR ''I''" using c(1) by (auto simp: is_digit_def)
  then show "js_sign ds = (False, ds)" "\<not> startsWith ds ''Infinity''" using ds by (auto simp: js_sign_def startsWith_def)
  show "takeWhile is_digit ds = ds" "dropWhile is_digit ds = []"
    using assms(1) by (auto simp: takeWhile_eq_all_conv dropWhile_eq_Nil_conv list_all_iff)
qed

lemma parseFloat_show_nat: "n < 2 ^ 53 \<Longrightarrow> parseFloat (show_nat n) = Fin (of_nat n)"
  using js_round_nat [of n]
  by (simp add: parseFloat_def Let_def js_exponent_def ten_pow_def digits_front [OF show_nat_digits show_nat_nonempty])

lemma show_nat_no: "\<not> is_digit c \<Longrightarrow> c \<notin> set (show_nat n)"
  using show_nat_digits [of n] by (auto simp: list_all_iff)

lemma split_on_last:
  assumes "d \<notin> set v"
  shows "\<exists>ws. ws \<noteq> [] \<and> split_on d (u @ d # v) = ws @ [v]"
proof (induction u)
  case Nil
  then show ?case using assms by (auto simp: split_on_no_sep)
next
  case (Cons c u)
  then obtain x ws where "split_on d (u @ d # v) = (x # ws) @ [v]" by (metis neq_Nil_conv)
  then show ?case by (cases "c = d") auto
qed

lemma last_field: "CHR '' '' \<notin> set v \<Longrightarrow> last (split_on (CHR '' '') (u @ CHR '' '' # v)) = v"
  using split_on_last [of "CHR '' ''" v u] by auto

lemma last_field_nat: "last (split_on (CHR '' '') (u @ CHR '' '' # show_nat n)) = show_nat n"
  by (rule last_field) (simp add: show_nat_no is_digit_def)

section \<open>The gauge of pending jobs\<close>

definition gauge_line :: "nat \<Rightarrow> string" where
  "gauge_line n = ''quote_jobs_pending_count '' @ show_nat n"

lemma gauge_line_value: "n < 2 ^ 53 \<Longrightarrow> parseFloat (last (split_on (CHR '' '') (gauge_line n))) = Fin (of_nat n)"
  using last_field_nat [of "''quote_jobs_pending_count''" n] parseFloat_show_nat [of n] by (simp add: gauge_line_def)

lemma pending_in_found:
  assumes "\<forall>l \<in> set before. \<not> startsWith l ''quote_jobs_pending_count ''" and "n < 2 ^ 53"
  shows "pending_in (before @ gauge_line n # rest) = Fin (of_nat n)"
  using assms
proof (induction before)
  case Nil
  have "\<not> startsWith (gauge_line n) ''#''" "startsWith (gauge_line n) ''quote_jobs_pending_count ''"
    by (simp_all add: gauge_line_def startsWith_def)
  then show ?case using Nil by (simp add: gauge_line_value)
qed auto

lemma pending_in_absent:
  "\<forall>l \<in> set ls. \<not> startsWith l ''quote_jobs_pending_count '' \<Longrightarrow> pending_in ls = Fin (- 1)"
  by (induction ls) auto

section \<open>The counter of upstream calls\<close>

definition ok_sample :: "string \<Rightarrow> nat \<Rightarrow> string" where
  "ok_sample provider n = ''rates_provider_requests_total{outcome='' @ [dq] @ ''ok'' @ [dq] @ '',provider='' @ [dq] @ provider @ [dq] @ ''} '' @ show_nat n"

lemma contains_sub_append: "contains_sub (a @ p @ b) p"
proof (induction a)
  case Nil
  have "startsWith (p @ b) p" by (simp add: startsWith_def)
  then show ?case by (cases "p @ b") auto
qed simp

lemma ok_line_sample: "ok_line (ok_sample prov n)"
proof -
  have "contains_sub (ok_sample prov n) (''outcome='' @ [dq] @ ''ok'' @ [dq])"
    using contains_sub_append [of "''rates_provider_requests_total{''" "''outcome='' @ [dq] @ ''ok'' @ [dq]"
        "'',provider='' @ [dq] @ prov @ [dq] @ ''} '' @ show_nat n"]
    by (simp add: ok_sample_def)
  moreover have "startsWith (ok_sample prov n) ''rates_provider_requests_total{''"
    by (simp add: ok_sample_def startsWith_def)
  ultimately show ?thesis by (simp add: ok_line_def)
qed

lemma ok_sample_value: "n < 2 ^ 53 \<Longrightarrow> parseFloat (last (split_on (CHR '' '') (ok_sample prov n))) = Fin (of_nat n)"
  using last_field_nat [of "''rates_provider_requests_total{outcome='' @ [dq] @ ''ok'' @ [dq] @ '',provider='' @ [dq] @ prov @ [dq] @ ''}''" n]
    parseFloat_show_nat [of n]
  by (simp add: ok_sample_def)

text \<open>A metrics page, line by line: samples of successful upstream calls, and other lines.\<close>

datatype page_line = OkSample string nat | OtherLine string

fun line_text :: "page_line \<Rightarrow> string" where
  "line_text (OkSample prov n) = ok_sample prov n" | "line_text (OtherLine l) = l"

fun ok_value :: "page_line \<Rightarrow> nat" where
  "ok_value (OkSample prov n) = n" | "ok_value (OtherLine l) = 0"

definition other_lines_ok :: "page_line list \<Rightarrow> bool" where
  "other_lines_ok ls \<longleftrightarrow> (\<forall>l. OtherLine l \<in> set ls \<longrightarrow> \<not> ok_line l)"

lemma ok_sum_page:
  assumes "other_lines_ok ls" and "a + sum_list (map ok_value ls) < 2 ^ 53"
  shows "ok_sum (map line_text ls) (Fin (of_nat a)) = Fin (of_nat (a + sum_list (map ok_value ls)))"
  using assms
proof (induction ls arbitrary: a)
  case (Cons l ls)
  have rest: "other_lines_ok ls" using Cons.prems(1) by (simp add: other_lines_ok_def)
  show ?case
  proof (cases l)
    case (OkSample prov n)
    then have "n < 2 ^ 53" "a + n < 2 ^ 53" using Cons.prems(2) by simp_all
    then show ?thesis
      using Cons.IH [OF rest, of "a + n"] Cons.prems(2) OkSample ok_sample_value [of n prov] js_add_nat [of a n]
      by (simp add: ok_line_sample add.assoc)
  next
    case (OtherLine t)
    then show ?thesis
      using Cons.IH [OF rest, of a] Cons.prems by (simp add: other_lines_ok_def)
  qed
qed simp

section \<open>Properties\<close>

lemma PAIRS_valid: "p \<in> set PAIRS \<Longrightarrow> valid_pair defaultWhitelist (Base p) (Quote p)"
  by (auto simp: PAIRS_def valid_pair_def pairFormatRE_def defaultWhitelist_def)

lemma pickRandom_PAIRS: "fst (pickRandom PAIRS w) \<in> set PAIRS"
proof -
  have l: "length PAIRS = 6" by (simp add: PAIRS_def)
  have "rnd w (draws w) mod 2 ^ 53 < 2 ^ 53" by simp
  from random_index_six [OF this] l show ?thesis by (simp add: pickRandom_def Math_random_def)
qed

text \<open>C28: Every request of every load profile is one the service accepts: the pairs of the scripts are exactly the
  ordered pairs the server derives from its default whitelist; whatever the random draws and the iteration counter, the
  chosen index is inside the array, and the request is a GET of the latest quote or a POST of a refresh for such a pair, both of
  which pass the server's validation.\<close>

theorem profiles_send_valid_requests:
  "PAIRS = expandWhitelist defaultWhitelist
   \<and> (\<exists>p. valid_pair defaultWhitelist (Base p) (Quote p) \<and> fst (mixed_request w) \<in> {get_latest p, post_refresh p})
   \<and> valid_pair defaultWhitelist (Base (fst (pickRandom PAIRS w))) (Quote (fst (pickRandom PAIRS w)))
   \<and> (\<exists>p. valid_pair defaultWhitelist (Base p) (Quote p) \<and> p3_request iter = post_refresh p)
   \<and> (\<exists>p. valid_pair defaultWhitelist (Base p) (Quote p) \<and> p4_request = (post_refresh p)\<lparr>jq_name := None\<rparr>)"
proof -
  obtain p w1 where p: "pickRandom PAIRS w = (p, w1)" by force
  then have pm: "p \<in> set PAIRS" using pickRandom_PAIRS [of w] by simp
  obtain m w2 where m: "Math_random w1 = (m, w2)" by force
  have "fst (mixed_request w) \<in> {get_latest p, post_refresh p}" using p m by (simp add: mixed_request_def)
  moreover have "PAIRS ! (iter mod length PAIRS) \<in> set PAIRS" by (rule nth_mem) (simp add: PAIRS_def)
  moreover have usd: "valid_pair defaultWhitelist (Base (Pair ''USD'' ''EUR'')) (Quote (Pair ''USD'' ''EUR''))"
    by (rule PAIRS_valid) (simp add: PAIRS_def)
  moreover have "PAIRS = expandWhitelist defaultWhitelist" by code_simp
  moreover have "\<exists>p. valid_pair defaultWhitelist (Base p) (Quote p) \<and> p4_request = (post_refresh p)\<lparr>jq_name := None\<rparr>"
    unfolding p4_request_def using usd by blast
  ultimately show ?thesis
    using PAIRS_valid [OF pm] PAIRS_valid [of "PAIRS ! (iter mod length PAIRS)"] p unfolding p3_request_def by auto
qed

text \<open>C30: The drain check of profile 3 reads the gauge exactly, and passes when there is none. On a metrics page whose first
  line for the gauge reports \<open>n\<close> pending jobs (below \<open>2 ^ 53\<close>) the check is \<open>n < 50\<close>; on a page without the gauge the parser
  yields -1 and the check succeeds, although the comment says it then fails.\<close>

theorem pending_check:
  assumes "\<forall>l \<in> set pre. CHR 0x0A \<notin> set l \<and> \<not> startsWith l ''quote_jobs_pending_count ''" and "\<forall>l \<in> set post. CHR 0x0A \<notin> set l"
    and "n < 2 ^ 53" and "pre \<noteq> []"
  shows "(js_body (http get_metrics) = Some (join_with [CHR 0x0A] (pre @ gauge_line n # post)) \<longrightarrow>
            p3_teardown http = Ok [(''pending_count < 50'', n < 50)])
    \<and> (js_body (http get_metrics) = Some (join_with [CHR 0x0A] pre) \<longrightarrow> p3_teardown http = Ok [(''pending_count < 50'', True)])"
proof -
  have nl: "CHR 0x0A \<notin> set (gauge_line n)"
    using show_nat_no [of "CHR 0x0A" n] by (simp add: gauge_line_def is_digit_def)
  have sp: "split_on (CHR 0x0A) (join_with [CHR 0x0A] (pre @ gauge_line n # post)) = pre @ gauge_line n # post"
    by (rule split_join) (use assms nl in auto)
  have sp2: "split_on (CHR 0x0A) (join_with [CHR 0x0A] pre) = pre"
    by (rule split_join) (use assms in auto)
  have v: "pending_in (pre @ gauge_line n # post) = Fin (of_nat n)"
    by (rule pending_in_found) (use assms in auto)
  have v2: "pending_in pre = Fin (- 1)"
    by (rule pending_in_absent) (use assms in auto)
  have "(of_nat n :: rat) < 50 \<longleftrightarrow> n < 50" using of_nat_less_iff [of n 50, where 'a = rat] by simp
  then show ?thesis by (simp add: p3_teardown_def body_text_def parsePendingCount_def sp sp2 v v2)
qed

theorem pending_check_witness:
  "p3_teardown (\<lambda>q. \<lparr>js_status = 200, js_headers = [], js_body = Some (join_with [CHR 0x0A] [''up 1''])\<rparr>) = Ok [(''pending_count < 50'', True)]"
proof -
  have h: "\<forall>l \<in> set [''up 1'']. CHR 0x0A \<notin> set l \<and> \<not> startsWith l ''quote_jobs_pending_count ''" "\<forall>l \<in> set []. CHR 0x0A \<notin> set l"
    by (simp_all add: startsWith_def)
  from pending_check [OF h, of 7 "\<lambda>q. \<lparr>js_status = 200, js_headers = [], js_body = Some (join_with [CHR 0x0A] [''up 1''])\<rparr>"] show ?thesis
    by (simp del: join_with.simps)
qed

text \<open>The coalescing check of profile 4 measures what it says. When the two metrics pages report totals of \<open>a\<close> successful upstream
  calls before and \<open>b\<close> after (each below \<open>2 ^ 53\<close>, any number of samples, other lines ignored), setup yields \<open>a\<close> and the
  check after the burst is exactly \<open>b <= a + 2\<close>.\<close>

lemma p4_delta:
  assumes "other_lines_ok before" and "other_lines_ok after" and "before \<noteq> []" and "after \<noteq> []"
    and "\<forall>l \<in> set (map line_text before) \<union> set (map line_text after). CHR 0x0A \<notin> set l"
    and "a = sum_list (map ok_value before)" and "b = sum_list (map ok_value after)" and "a \<le> b" and "b < 2 ^ 53"
    and "js_body (http0 get_metrics) = Some (join_with [CHR 0x0A] (map line_text before))"
    and "js_body (http1 get_metrics) = Some (join_with [CHR 0x0A] (map line_text after))"
  shows "\<exists>v. p4_setup http0 = Ok v \<and> p4_teardown http1 v = Ok [(''provider delta <= 2'', b \<le> a + 2)]"
proof -
  have sp: "split_on (CHR 0x0A) (join_with [CHR 0x0A] (map line_text before)) = map line_text before"
      "split_on (CHR 0x0A) (join_with [CHR 0x0A] (map line_text after)) = map line_text after"
    by (rule split_join; use assms in auto)+
  have sums: "ok_sum (map line_text before) (Fin 0) = Fin (of_nat a)" "ok_sum (map line_text after) (Fin 0) = Fin (of_nat b)"
    using ok_sum_page [OF assms(1), of 0] ok_sum_page [OF assms(2), of 0] assms(6-9) by simp_all
  have base: "p4_setup http0 = Ok (Fin (of_nat a))"
    using assms(10) by (simp add: p4_setup_def body_text_def parseProviderOkCount_def sp sums)
  have diff: "(of_nat b + - of_nat a :: rat) = of_nat (b - a)" using assms(8) by (simp add: of_nat_diff)
  have "js_add (Fin (of_nat b)) (js_neg (Fin (of_nat a))) = Fin (of_nat (b - a))"
    using js_round_nat [of "b - a"] assms(9) unfolding js_neg.simps js_add.simps diff by simp
  moreover have "(of_nat (b - a) :: rat) \<le> 2 \<longleftrightarrow> b \<le> a + 2" using of_nat_le_iff [of "b - a" 2, where 'a = rat] assms(8) by auto
  ultimately have "p4_teardown http1 (Fin (of_nat a)) = Ok [(''provider delta <= 2'', b \<le> a + 2)]"
    using assms(11) by (simp add: p4_teardown_def body_text_def parseProviderOkCount_def sp sums Let_def del: js_neg.simps js_add.simps)
  with base show ?thesis by blast
qed

text \<open>The sizing of the virtual users. For a whole number \<open>n\<close> in \<open>LOADTEST_VUS\<close> (positive, below \<open>2 ^ 52\<close>) the profile preallocates
  \<open>n\<close> and allows the larger of \<open>2 n\<close> and its floor; unset or empty, or zero, it falls back to its default; in no
  environment is the preallocation zero or not a number.\<close>

lemma vus_sizing:
  "(env ''LOADTEST_VUS'' = Some (show_nat n) \<and> 0 < n \<and> n < 2 ^ 52 \<longrightarrow>
      preallocated_vus env d = Fin (of_nat n) \<and> max_vus (preallocated_vus env d) f = Fin (max (of_nat (2 * n)) f))
   \<and> (env ''LOADTEST_VUS'' \<in> {None, Some [], Some ''0''} \<longrightarrow> preallocated_vus env d = Fin d)
   \<and> (d \<noteq> 0 \<longrightarrow> preallocated_vus env d \<noteq> Fin 0 \<and> preallocated_vus env d \<noteq> NaN)"
proof -
  have hex: "\<not> startsWith (show_nat n) ''0x'' \<and> \<not> startsWith (show_nat n) ''0X''"
  proof -
    have "set (take 2 (show_nat n)) \<subseteq> set (show_nat n)" by (rule set_take_subset)
    moreover have "CHR ''x'' \<notin> set (show_nat n)" "CHR ''X'' \<notin> set (show_nat n)" by (rule show_nat_no; simp add: is_digit_def)+
    moreover have "CHR ''x'' \<in> set ''0x''" "CHR ''X'' \<in> set ''0X''" "length ''0x'' = 2" "length ''0X'' = 2" by simp_all
    ultimately show ?thesis unfolding startsWith_def by (metis subsetD)
  qed
  have parse: "parseInt (show_nat n) = js_round (of_nat n)"
    using hex by (simp add: parseInt_def Let_def digits_front [OF show_nat_digits show_nat_nonempty])
  have one: "preallocated_vus env d = Fin (of_nat n) \<and> max_vus (preallocated_vus env d) f = Fin (max (of_nat (2 * n)) f)"
    if "env ''LOADTEST_VUS'' = Some (show_nat n)" "0 < n" "n < 2 ^ 52"
  proof -
    have "preallocated_vus env d = Fin (of_nat n)" using that parse js_round_nat [of n] by (simp add: preallocated_vus_def)
    moreover have "js_round (of_nat n * 2) = Fin (of_nat (2 * n))" using js_round_nat [of "2 * n"] that(3) by (simp add: mult.commute)
    ultimately show ?thesis by (simp add: max_vus_def)
  qed
  have "parseInt ''undefined'' = NaN" "parseInt [] = NaN" "parseInt ''0'' = Fin 0" by code_simp+
  then have "preallocated_vus env d = Fin d" if "env ''LOADTEST_VUS'' \<in> {None, Some [], Some ''0''}"
    using that by (auto simp: preallocated_vus_def)
  moreover have "js_or v d \<noteq> Fin 0 \<and> js_or v d \<noteq> NaN" if "d \<noteq> 0" for v using that by (cases v) auto
  ultimately show ?thesis using one by (auto simp: preallocated_vus_def)
qed

lemma vus_sizing_witness:
  "preallocated_vus (\<lambda>k. Some (show_nat 200)) 50 = Fin 200 \<and> max_vus (preallocated_vus (\<lambda>k. Some (show_nat 200)) 50) 100 = Fin 400"
proof -
  have "(0 :: nat) < 200" "(200 :: nat) < 2 ^ 52" by simp_all
  with vus_sizing [of "\<lambda>k. Some (show_nat 200)" 200 50 100] have
    "preallocated_vus (\<lambda>k. Some (show_nat 200)) 50 = Fin (of_nat 200)"
    "max_vus (preallocated_vus (\<lambda>k. Some (show_nat 200)) 50) 100 = Fin (max (of_nat (2 * 200)) 100)" by blast+
  moreover have "(of_nat 200 :: rat) = 200" "max (of_nat (2 * 200)) (100 :: rat) = 400" by simp_all
  ultimately show ?thesis by (simp only: simp_thms)
qed

end
