(* ===== verification/Burst.thy ===== *)
theory Burst
  imports Server Loadtest
begin

text \<open>
  The load tests against the server. A request of the scripts is put on the wire as k6 sends it, and a burst of requests is
  served one after the other: a request makes one statement on the queue, which the database runs atomically, so the order of
  the list is the order of these statements. The lemmas count the jobs a burst creates: one per pair and window it touches.
\<close>

section \<open>Requests on the wire\<close>

text \<open>The path of a load-test request, as the server receives it.\<close>

definition request_path :: "js_request \<Rightarrow> string" where
  "request_path q = takeWhile (\<lambda>c. c \<noteq> CHR ''?'') (drop (length BASE_URL) (jq_url q))"

lemma request_paths:
  "request_path (get_latest p) = ''/quotes/'' @ ''latest''" "request_path (post_refresh p) = ''/quotes/'' @ ''refresh''"
  "request_path get_metrics = ''/metrics''" "request_path p4_request = ''/quotes/'' @ ''refresh''"
  by (simp_all add: request_path_def get_latest_def post_refresh_def get_metrics_def p4_request_def BASE_URL_def)

text \<open>A POST has no query; each header has one value.\<close>

definition posted :: "js_request \<Rightarrow> hreq" where
  "posted q = \<lparr>hq_method = jq_method q, hq_path = request_path q, hq_query = [], hq_header = map (\<lambda>(k, v). (k, [v])) (jq_headers q),
     hq_body = (case jq_body q of None \<Rightarrow> [] | Some b \<Rightarrow> b), hq_ctxRequestId = []\<rparr>"

text \<open>What the scripts build with \<open>JSON.stringify\<close> is what the server's decoder reads.\<close>

lemma PAIRS_plain: "p \<in> set PAIRS \<Longrightarrow> list_all plain_char (Base p) \<and> list_all plain_char (Quote p)"
  by (auto simp: PAIRS_def plain_char_def)

lemma stringify_refresh: "stringify_pair p = refresh_text (Base p) (Quote p)" if "list_all plain_char (Base p)" and "list_all plain_char (Quote p)"
proof -
  have "quote_body ''base'' = ''base''" "quote_body ''quote'' = ''quote''" by code_simp+
  then show ?thesis
    using quote_body_plain [OF that(1)] quote_body_plain [OF that(2)]
    by (simp add: stringify_pair_def refresh_text_def string_object_def json_object_def json_quote_def dq_def del: quote_body.simps)
qed

lemma posted_refresh:
  assumes "p \<in> set PAIRS"
  shows "decode_refresh (hq_body (posted (post_refresh p))) = Some (Base p, Quote p)"
    and "hq_method (posted (post_refresh p)) = ''POST''" and "hq_path (posted (post_refresh p)) = ''/quotes/refresh''"
    and "contains_sub (Header_Get (posted (post_refresh p)) ''Content-Type'') ''application/json''"
    and "optional_header be ''X-Request-Id'' (posted (post_refresh p)) = Inr None"
proof -
  have "contains_sub ''application/json'' ''application/json''" by code_simp
  then show "contains_sub (Header_Get (posted (post_refresh p)) ''Content-Type'') ''application/json''"
    by (simp add: posted_def post_refresh_def JSON_HEADERS_def Header_Get_def)
  note pl = PAIRS_plain [OF assms]
  with decode_refresh_text [of "Base p" "Quote p" "[]"] stringify_refresh [of p]
  show "decode_refresh (hq_body (posted (post_refresh p))) = Some (Base p, Quote p)"
    by (simp add: posted_def post_refresh_def ascii_utf8)
  show "hq_path (posted (post_refresh p)) = ''/quotes/refresh''" using request_paths(2) by (simp add: posted_def)
qed (simp_all add: posted_def post_refresh_def JSON_HEADERS_def optional_header_def)

section \<open>Serving a burst\<close>

text \<open>The answers, each with the clock reading of its handler.\<close>

fun serve_all ::
    "(world \<Rightarrow> string \<times> world) \<Rightarrow> ('s, 'r, 'd, 'g) server_env \<Rightarrow> hreq list \<Rightarrow> ('s, 'r, 'g) srv \<Rightarrow> world
      \<Rightarrow> (time \<times> wire_response) list \<times> ('s, 'r, 'g) srv \<times> world" where
  "serve_all newid se [] s w = ([], s, w)"
| "serve_all newid se (r # rs) s w =
     (let res = server_handler newid None se r s w
      in case serve_all newid se rs (hr_state res) (hr_world res) of (os, s1, w1) \<Rightarrow>
        ((Now (inner_world newid r w), wire_run (hr_acts res) fresh_wire) # os, s1, w1))"

text \<open>A server over Postgres with the default whitelist, without failures ahead, that can name \<open>n\<close> more jobs.\<close>

definition canonical :: "'d pg_env \<Rightarrow> ('s, 'r, 'd, 'g) server_env \<Rightarrow> string \<Rightarrow> bool" where
  "canonical genv se i \<longleftrightarrow> pe_uuid genv i = Some i \<and> ae_uuid_Parse (se_api se) i = (i, True)"

definition burst_ready :: "'d pg_env \<Rightarrow> ('d pgdb, 'r, 'd, 'g) server_env \<Rightarrow> nat \<Rightarrow> ('d pgdb, 'r, 'g) srv \<Rightarrow> bool" where
  "burst_ready genv se n s \<longleftrightarrow>
     se_queue se = pg_ops genv \<and> pg_invar (sv_queue s) \<and> pg_quiet (sv_queue s) \<and> second \<le> ae_coalescingWindow (se_api se)
     \<and> ae_whitelist (se_api se) = defaultWhitelist \<and> (\<forall>i \<in> dom (pg_abs (sv_queue s)). canonical genv se i)
     \<and> fresh_ids (ae_newid (se_api se)) (canonical genv se) (dom (pg_abs (sv_queue s))) n (sv_idgen s)"

lemma burst_refresh_ready:
  assumes "burst_ready genv se (Suc n) s" and "p \<in> set PAIRS"
  shows "refresh_ready genv se (posted (post_refresh p)) s (Base p) (Quote p)"
  using assms PAIRS_valid [OF assms(2)] 
  by (auto simp: refresh_ready_def burst_ready_def posted_refresh canonical_def)

definition pair_key :: "duration \<Rightarrow> pair \<Rightarrow> time \<Rightarrow> string" where
  "pair_key win p t = (case DedupKey (Base p) (Quote p) t win of Ok key \<Rightarrow> key | Panic m \<Rightarrow> [])"

text \<open>One request: accepted, and a job more exactly when its key is new.\<close>

lemma burst_step:
  fixes newid :: "world \<Rightarrow> string \<times> world" and w :: world
  assumes "burst_ready genv se (Suc n) s" and "p \<in> set PAIRS"
  defines "r \<equiv> posted (post_refresh p)"
  defines "res \<equiv> server_handler newid None se r s w" and "q \<equiv> pg_abs (sv_queue s)"
    and "key \<equiv> pair_key (ae_coalescingWindow (se_api se)) p (Now (inner_world newid r w))"
  shows "wi_status (wire_run (hr_acts res) fresh_wire) = Some 202" and "burst_ready genv se n (hr_state res)"
    and "if keyed q key then pg_abs (sv_queue (hr_state res)) = q
         else \<exists>i x. i \<notin> dom q \<and> ar_dedup x = key \<and> pg_abs (sv_queue (hr_state res)) = q(i \<mapsto> x)"
    and "clk (hr_world res) = clk (snd (request_id newid r w))"
proof -
  let ?g = "ae_newid (se_api se) (sv_idgen s)" and ?q1 = "pg_abs (sv_queue (hr_state res))"
  from burst_refresh_ready [OF assms(1,2)]
  have "wi_status (wire_run (hr_acts res) fresh_wire) = Some 202 \<and> burst_ready genv se n (hr_state res)
    \<and> (if keyed q key then ?q1 = q else \<exists>i x. i \<notin> dom q \<and> ar_dedup x = key \<and> ?q1 = q(i \<mapsto> x))
    \<and> clk (hr_world res) = clk (snd (request_id newid r w))"
  proof (cases rule: refresh_sent [where newid = newid and w = w])
    case (sent k jid x)
    have k: "key = k" using sent(1) by (simp add: key_def pair_key_def r_def)
    have fresh: "fst ?g \<notin> dom q" "canonical genv se (fst ?g)"
        "fresh_ids (ae_newid (se_api se)) (canonical genv se) (insert (fst ?g) (dom q)) n (snd ?g)"
      using assms(1) by (simp_all add: burst_ready_def q_def)
    have step: "if keyed q key then ?q1 = q else ?q1 = q(fst ?g \<mapsto> x) \<and> ar_dedup x = key"
      using sent(7,9,13) unfolding k res_def r_def q_def by simp
    have dom: "dom ?q1 \<subseteq> insert (fst ?g) (dom q)" using step by (auto split: if_splits)
    then have "\<forall>i \<in> dom ?q1. canonical genv se i" using fresh(2) assms(1) unfolding burst_ready_def q_def by blast
    moreover have "fresh_ids (ae_newid (se_api se)) (canonical genv se) (dom ?q1) n (sv_idgen (hr_state res))"
      using fresh_ids_mono [OF fresh(3) dom] sent(14) by (simp add: res_def r_def)
    ultimately have "burst_ready genv se n (hr_state res)"
      using assms(1) sent(4) by (simp add: burst_ready_def res_def r_def)
    moreover have "wi_status (wire_run (hr_acts res) fresh_wire) = Some 202"
      using sent(3) by (simp add: res_def r_def sent_def accepted_response_def)
    moreover have "clk (hr_world res) = clk (snd (request_id newid r w))" using sent(15) by (simp add: res_def r_def)
    ultimately show ?thesis using step fresh(1) by (auto split: if_splits)
  qed
  then show "wi_status (wire_run (hr_acts res) fresh_wire) = Some 202" and "burst_ready genv se n (hr_state res)"
    and "if keyed q key then ?q1 = q else \<exists>i x. i \<notin> dom q \<and> ar_dedup x = key \<and> ?q1 = q(i \<mapsto> x)"
    and "clk (hr_world res) = clk (snd (request_id newid r w))" by blast+
qed

lemma keyed_upd: "keyed (q(i \<mapsto> x)) k \<longleftrightarrow> keyed q k \<or> ar_dedup x = k" if "q i = None"
proof -
  have "(\<exists>r. (q(i \<mapsto> x)) j = Some r \<and> ar_dedup r = k) \<longleftrightarrow> (\<exists>r. q j = Some r \<and> ar_dedup r = k) \<or> j = i \<and> ar_dedup x = k" for j
    using that by simp
  then show ?thesis unfolding keyed_def by blast
qed

text \<open>The bookkeeping of one step: the new jobs and the new keys grow together.\<close>

lemma count_step:
  assumes step: "if keyed q key then q1 = q else \<exists>i x. i \<notin> dom q \<and> ar_dedup x = key \<and> q1 = q(i \<mapsto> x)"
    and rest: "q1 \<subseteq>\<^sub>m q2" "finite (dom q2 - dom q1)" "card (dom q2 - dom q1) = card (K - Collect (keyed q1))" and "finite K"
  shows "q \<subseteq>\<^sub>m q2 \<and> finite (dom q2 - dom q) \<and> card (dom q2 - dom q) = card (insert key K - Collect (keyed q))"
proof (cases "keyed q key")
  case True
  then have "insert key K - Collect (keyed q) = K - Collect (keyed q)" by blast
  with True step rest show ?thesis by simp
next
  case False
  then obtain i x where ix: "i \<notin> dom q" "ar_dedup x = key" "q1 = q(i \<mapsto> x)" using step by auto
  have "i \<in> dom q2" using map_le_implies_dom_le [OF rest(1)] ix(3) by auto
  then have new: "dom q2 - dom q = insert i (dom q2 - dom q1)" "i \<notin> dom q2 - dom q1" using ix by auto
  have keys: "insert key K - Collect (keyed q) = insert key (K - Collect (keyed q1))" "key \<notin> K - Collect (keyed q1)"
    using False ix by (auto simp: keyed_upd)
  have "q \<subseteq>\<^sub>m q1" using ix by (auto simp: map_le_def)
  then show ?thesis using rest new keys assms(5) map_le_trans by (metis card_insert_disjoint finite_Diff finite_insert)
qed

lemma burst_served:
  assumes "burst_ready genv se (length ps) s" and "set ps \<subseteq> set PAIRS"
    and "serve_all newid se (map (\<lambda>p. posted (post_refresh p)) ps) s w = (os, s', w')"
  shows "length os = length ps \<and> list_all (\<lambda>o'. wi_status (snd o') = Some 202) os
    \<and> pg_abs (sv_queue s) \<subseteq>\<^sub>m pg_abs (sv_queue s')
    \<and> finite (dom (pg_abs (sv_queue s')) - dom (pg_abs (sv_queue s)))
    \<and> card (dom (pg_abs (sv_queue s')) - dom (pg_abs (sv_queue s)))
      = card (set (map2 (\<lambda>p o'. pair_key (ae_coalescingWindow (se_api se)) p (fst o')) ps os) - Collect (keyed (pg_abs (sv_queue s))))"
  using assms
proof (induction ps arbitrary: s w os)
  case (Cons p ps)
  let ?r = "posted (post_refresh p)"
  let ?res = "server_handler newid None se ?r s w"
  obtain os1 where os: "serve_all newid se (map (\<lambda>p. posted (post_refresh p)) ps) (hr_state ?res) (hr_world ?res) = (os1, s', w')"
      "os = (Now (inner_world newid ?r w), wire_run (hr_acts ?res) fresh_wire) # os1"
    using Cons.prems(3) by (auto simp: Let_def split: prod.splits)
  have p: "p \<in> set PAIRS" "set ps \<subseteq> set PAIRS" "burst_ready genv se (Suc (length ps)) s" using Cons.prems by simp_all
  note step = burst_step [OF p(3,1), where newid = newid and w = w]
  note ih = Cons.IH [OF step(2) p(2) os(1)]
  let ?K = "set (map2 (\<lambda>p o'. pair_key (ae_coalescingWindow (se_api se)) p (fst o')) ps os1)"
  have "finite ?K" by simp
  with count_step [OF step(3), of "pg_abs (sv_queue s')" ?K] ih step(1) show ?case unfolding os(2) by simp
qed simp

text \<open>The handlers read the clock of the world, if the generator of request ids leaves it alone.\<close>

lemma burst_clock:
  assumes "burst_ready genv se (length ps) s" and "set ps \<subseteq> set PAIRS" and "\<forall>w. clk (snd (newid w)) = clk w"
    and "serve_all newid se (map (\<lambda>p. posted (post_refresh p)) ps) s w = (os, s', w')"
  shows "fst ` set os \<subseteq> range (clk w)"
  using assms(1,2,4)
proof (induction ps arbitrary: s w os)
  case (Cons p ps)
  let ?r = "posted (post_refresh p)"
  let ?res = "server_handler newid None se ?r s w"
  obtain os1 where os: "serve_all newid se (map (\<lambda>p. posted (post_refresh p)) ps) (hr_state ?res) (hr_world ?res) = (os1, s', w')"
      "os = (Now (inner_world newid ?r w), wire_run (hr_acts ?res) fresh_wire) # os1"
    using Cons.prems(3) by (auto simp: Let_def split: prod.splits)
  have p: "p \<in> set PAIRS" "set ps \<subseteq> set PAIRS" "burst_ready genv se (Suc (length ps)) s" using Cons.prems by simp_all
  have rid: "clk (snd (request_id newid ?r w)) = clk w" using assms(3) by (simp add: request_id_def)
  note step = burst_step [OF p(3,1), where newid = newid and w = w]
  have "fst ` set os1 \<subseteq> range (clk w)" using Cons.IH [OF step(2) p(2) os(1)] step(4) rid by simp
  moreover have "Now (inner_world newid ?r w) \<in> range (clk w)" using rid by (simp add: Now_def inner_world_def)
  ultimately show ?case unfolding os(2) by simp
qed simp

section \<open>Windows\<close>

lemma go_quot_next:
  assumes "0 < b" and "x \<le> y" and "y \<le> x + b"
  shows "go_quot y b \<in> {go_quot x b, go_quot x b + 1}"
proof -
  have up: "v div b \<in> {u div b, u div b + 1}" if "u \<le> v" "v \<le> u + b" for u v
  proof -
    have "u div b \<le> v div b" using that(1) assms(1) by (rule zdiv_mono1)
    moreover have "v div b \<le> (u + b) div b" using that(2) assms(1) by (rule zdiv_mono1)
    ultimately show ?thesis using assms(1) by auto
  qed
  have neg: "go_quot z b = - (- z div b)" if "z \<le> 0" for z using that assms(1) by (auto simp: go_quot_def sgn_if)
  consider "0 \<le> x" | "y \<le> 0" | "x < 0" "0 < y" by linarith
  then show ?thesis
  proof cases
    case 1
    then show ?thesis using up [OF assms(2,3)] assms by (simp add: go_quot_nonneg)
  next
    case 2
    then show ?thesis using up [of "- y" "- x"] assms neg by auto
  next
    case 3
    then have "y div b = 0" "- x div b = 0" using assms by (simp_all add: div_pos_pos_trivial)
    then show ?thesis using 3 neg [of x] assms by (simp add: go_quot_nonneg)
  qed
qed

text \<open>Readings closer together than a window fall into at most two windows.\<close>

lemma two_windows:
  assumes "finite T" and "\<forall>t \<in> T. \<forall>t' \<in> T. t' - t < bucket_secs win * second"
  shows "card ((\<lambda>t. bucket_of t win) ` T) \<le> 2"
proof (cases "T = {}")
  case False
  define m where "m = Min T"
  have m: "m \<in> T" "\<And>t. t \<in> T \<Longrightarrow> m \<le> t" using assms(1) False by (simp_all add: m_def)
  let ?b = "bucket_secs win"
  have pos: "0 < ?b" using assms(2) m(1) by (fastforce simp: zero_less_mult_iff)
  have "bucket_of t win \<in> {bucket_of m win, bucket_of m win + ?b}" if t: "t \<in> T" for t
  proof -
    have "t < m + ?b * second" using assms(2) m(1) t by fastforce
    then have "t div second \<le> (m + ?b * second) div second" by (simp add: zdiv_mono1)
    then have "Unix t \<le> Unix m + ?b" by (simp add: Unix_def)
    moreover have "Unix m \<le> Unix t" using m(2) [OF t] by (simp add: Unix_def zdiv_mono1)
    ultimately have "go_quot (Unix t) ?b \<in> {go_quot (Unix m) ?b, go_quot (Unix m) ?b + 1}" using go_quot_next [OF pos] by blast
    then show ?thesis unfolding bucket_of_def by (auto simp: distrib_right)
  qed
  then have "(\<lambda>t. bucket_of t win) ` T \<subseteq> {bucket_of m win, bucket_of m win + ?b}" by blast
  then have "card ((\<lambda>t. bucket_of t win) ` T) \<le> card {bucket_of m win, bucket_of m win + ?b}" by (rule card_mono [rotated]) simp
  also have "\<dots> \<le> 2" by (simp add: card_insert_if)
  finally show ?thesis .
qed simp

lemma pair_key_windows: "card ((pair_key win p) ` T) \<le> card ((\<lambda>t. bucket_of t win) ` T)" if "finite T"
proof -
  define f where "f b = (if bucket_secs win = 0 then [] else sha256Hex (dedup_text (Base p) (Quote p) b))" for b
  have "pair_key win p t = f (bucket_of t win)" for t by (simp add: pair_key_def DedupKey_def f_def)
  then have "pair_key win p ` T = f ` (\<lambda>t. bucket_of t win) ` T" by auto
  then show ?thesis using that by (simp add: card_image_le)
qed

section \<open>Profile 4\<close>

lemma posted_p4: "posted p4_request = posted (post_refresh (Pair ''USD'' ''EUR''))"
  by (simp add: p4_request_def posted_def request_path_def)

lemma map2_replicate: "length ys = n \<Longrightarrow> map2 f (replicate n x) ys = map (f x) ys"
  by (induction ys arbitrary: n) (auto simp: Suc_length_conv)

text \<open>C18: the burst of profile 4 coalesces. Take the server over Postgres, consistent and with no storage failure ahead, with the
  default whitelist, a window of at least a second, and an id generator whose next \<open>n\<close> ids are fresh and canonical, as the ids of
  the stored jobs are. Then, in whatever order it serves the requests of the \<open>n\<close> virtual users, every answer is 202, so the
  check of every iteration passes; no existing job is touched, and the number of new jobs is the number of distinct keys of
  USD/EUR at the clock readings of the handlers that no job had before. When these readings lie closer together than one
  window, as the header of the script assumes, there are at most two new jobs: one, and one more when the burst crosses a
  boundary.\<close>

theorem profile4_burst:
  assumes "burst_ready genv se n s" and "serve_all newid se (replicate n (posted p4_request)) s w = (os, s', w')"
  defines "q \<equiv> pg_abs (sv_queue s)" and "q' \<equiv> pg_abs (sv_queue s')" and "win \<equiv> ae_coalescingWindow (se_api se)"
  shows "length os = n \<and> (\<forall>o' \<in> set os. wi_status (snd o') = Some 202
        \<and> (\<forall>r. js_status r = the (wi_status (snd o')) \<longrightarrow> p4_default (\<lambda>u. r) = [(''POST /quotes/refresh status 202'', True)]))
    \<and> q \<subseteq>\<^sub>m q'
    \<and> card (dom q' - dom q) = card (pair_key win (Pair ''USD'' ''EUR'') ` fst ` set os - Collect (keyed q))
    \<and> ((\<forall>t \<in> fst ` set os. \<forall>t' \<in> fst ` set os. t' - t < bucket_secs win * second) \<longrightarrow> card (dom q' - dom q) \<le> 2)"
proof -
  let ?p = "Pair ''USD'' ''EUR''" and ?T = "fst ` set os"
  have "set (replicate n ?p) \<subseteq> set PAIRS" by (auto simp: PAIRS_def)
  note served = burst_served [of genv se "replicate n ?p" s newid w os s' w', OF _ this]
  have os: "length os = n" "list_all (\<lambda>o'. wi_status (snd o') = Some 202) os" "q \<subseteq>\<^sub>m q'"
    and count: "card (dom q' - dom q) = card (set (map2 (\<lambda>p o'. pair_key win p (fst o')) (replicate n ?p) os) - Collect (keyed q))"
    using served assms(1,2) by (simp_all add: posted_p4 q_def q'_def win_def)
  have keys: "set (map2 (\<lambda>p o'. pair_key win p (fst o')) (replicate n ?p) os) = pair_key win ?p ` ?T"
    using os(1) by (simp add: map2_replicate image_image)
  have le: "card (pair_key win ?p ` ?T - Collect (keyed q)) \<le> card ((\<lambda>t. bucket_of t win) ` ?T)"
    using pair_key_windows [of ?T win ?p] by (meson card_Diff_subset_Int card_mono Diff_subset List.finite_set finite_imageI le_trans)
  show ?thesis
    using os count le two_windows [of ?T win] unfolding keys by (fastforce simp: list_all_iff p4_default_def)
qed


lemma sample_burst_ready: "n \<le> 4 \<Longrightarrow> burst_ready sample_env sample_server n sample_srv"
proof -
  assume n: "n \<le> 4"
  have env: "se_api sample_server = sample_api" "se_queue sample_server = pg_ops sample_env" "sv_queue sample_srv = sample_db" "sv_idgen sample_srv = NewSeq"
      "ae_newid sample_api = SeqNewID" "second \<le> ae_coalescingWindow sample_api" "ae_whitelist sample_api = defaultWhitelist"
    by (simp_all add: sample_server_def sample_srv_def sample_api_def defaultWhitelist_def)
  have can: "canonical sample_env sample_server i \<longleftrightarrow> pe_uuid sample_env i = Some i" "pe_uuid sample_env i = Some i" for i
    by (simp_all add: canonical_def env sample_api_def sample_env_def)
  then have "canonical sample_env sample_server = (\<lambda>i. pe_uuid sample_env i = Some i)" by blast
  with sample_sched_fresh [OF n] sample_db_invar sample_db_quiet can show ?thesis by (simp add: burst_ready_def env)
qed

text \<open>A world whose clock stands still: all readings of a burst lie in one window.\<close>

definition still_world :: world where
  "still_world = sample_world\<lparr>clk := (\<lambda>n. 100 * second)\<rparr>"

theorem profile4_burst_witness:
  "\<exists>os s' w'. serve_all (\<lambda>w. (''id'', w)) sample_server (replicate 3 (posted p4_request)) sample_srv still_world = (os, s', w')
     \<and> length os = 3 \<and> list_all (\<lambda>o'. wi_status (snd o') = Some 202) os \<and> pg_abs sample_db \<subseteq>\<^sub>m pg_abs (sv_queue s')
     \<and> card (dom (pg_abs (sv_queue s')) - dom (pg_abs sample_db)) \<le> 2"
proof -
  let ?h = "\<lambda>w :: world. (''id'', w)" and ?ps = "replicate 3 (Pair ''USD'' ''EUR'')"
  obtain os s' w' where three: "serve_all ?h sample_server (replicate 3 (posted p4_request)) sample_srv still_world = (os, s', w')" by (metis prod_cases3)
  have db: "sv_queue sample_srv = sample_db" "ae_coalescingWindow (se_api sample_server) = 30 * second"
    by (simp_all add: sample_srv_def sample_server_def sample_api_def)
  have win: "0 < bucket_secs (30 * second)" using int_Seconds_whole [of "30 * second"] by (simp add: bucket_secs_def)
  have ready: "burst_ready sample_env sample_server 3 sample_srv" by (rule sample_burst_ready) simp
  have "set ?ps \<subseteq> set PAIRS" by (simp add: PAIRS_def)
  moreover have "serve_all ?h sample_server (map (\<lambda>p. posted (post_refresh p)) ?ps) sample_srv still_world = (os, s', w')"
    using three by (simp add: posted_p4)
  ultimately have "fst ` set os \<subseteq> range (clk still_world)" using ready by (intro burst_clock [where ps = ?ps]) simp_all
  then have sub: "fst ` set os \<subseteq> {100 * second}" by (simp add: still_world_def)
  have one: "t = 100 * second" if "t \<in> fst ` set os" for t using subsetD [OF sub that] by simp
  have same: "t' - t = 0" if "t \<in> fst ` set os" "t' \<in> fst ` set os" for t t' using one [OF that(1)] one [OF that(2)] by simp
  have pos: "0 < bucket_secs (30 * second) * second" using win by simp
  have near: "\<forall>t \<in> fst ` set os. \<forall>t' \<in> fst ` set os. t' - t < bucket_secs (30 * second) * second"
  proof (intro ballI)
    fix t t' assume "t \<in> fst ` set os" and "t' \<in> fst ` set os"
    from same [OF this] pos show "t' - t < bucket_secs (30 * second) * second" by presburger
  qed
  from profile4_burst [OF ready three] near three show ?thesis unfolding db by (auto simp: list_all_iff)
qed

end
