(* ===== verification/Spec2Isabelle.thy ===== *)
theory Spec2Isabelle
  imports Retry Lifecycle Registry Job_Status Fakeprocess Burst
begin

text \<open>
  A verification library for the currency-exchange service: an HTTP API that accepts requests to refresh
  the quote of a currency pair, a job queue that coalesces them, a worker that fetches quotes from an
  upstream provider and stores them, a scheduler that asks for every pair once per window, a stand-in for
  the upstream, and the load tests.

  \<^bold>\<open>How the parts interact.\<close> \<open>cmd/server\<close> reads its configuration, probes the provider, and starts one
  worker, one scheduler and the HTTP server over two Postgres tables. The API and the scheduler put jobs
  into the queue under a key that is equal for the same pair and window; the worker reserves due jobs
  under a lease, makes one provider call for the batch, upserts the quotes, then completes, reschedules or
  fails each job, and returns expired leases to the queue. The API reads job views and latest quotes. The
  load tests drive the API from outside and read the metrics page.

  \<^bold>\<open>Conventions.\<close> Operations are functions in state-passing style; an error is a value of \<open>error\<close>, a
  crash is \<open>Panic\<close> of \<open>res\<close>. The record \<open>world\<close> holds the clock readings and random draws still to come,
  as functions of their number (so a theorem about every world covers every clock, also one that jumps), and the
  trace of metric updates. Instants and durations count nanoseconds; durations wrap at 64 bits where the
  source can leave the range (\<open>wrap64\<close>). What is not in the repository is an argument: the HTTP transport, the
  decoder of the upstream's responses, the registry of the Prometheus client, the codecs and faults of the database driver, row locks of other sessions, the iteration order of Go
  maps. The oracles for order pass through \<open>reorder\<close>, which makes a permutation of whatever they answer, so no
  assumption about them is needed.

  \<^bold>\<open>Theories and sources\<close> (below \<open>src/\<close>).
  \<^item> \<open>Prelude\<close>: Go's integers, times, string functions, decimal printing, map iteration, the world; generic lemmas.
  \<^item> \<open>Jsnum\<close>: IEEE doubles, \<open>parseInt\<close>, \<open>parseFloat\<close>, \<open>Math.random\<close>, \<open>int64(d.Seconds())\<close>.
  \<^item> \<open>Json\<close>: what the service uses of \<open>encoding/json\<close>: quoting and unquoting of UTF-8 text, the scanner with its limit on nesting,
    decoding into a struct, and instants as RFC 3339 text.
  \<^item> \<open>Sha256\<close>: \<open>crypto/sha256\<close> and \<open>encoding/hex\<close>, as used by the coalescing key.
  \<^item> \<open>Rates_Provider\<close>: \<open>internal/ratesprovider/provider.go\<close>; locale \<open>rates_provider\<close>.
  \<^item> \<open>Obs\<close>: the metric names of \<open>internal/obs/metrics.go\<close>. \<open>Collectors\<close>: the rest of \<open>internal/obs\<close> but the logger: what \<open>init\<close> declares and
    registers, the collectors of the pool and of the last tick, the page. \<open>Registry\<close>: locales \<open>metered_queue\<close> and \<open>metered_service\<close> (what a
    component may do to the metrics), interpreted over both stores.
  \<^item> \<open>Job_Queue\<close>: \<open>internal/queue\<close>, the abstract queue, its job life cycle \<open>job_trans\<close>, and the locale \<open>job_queue\<close>
    with one law per operation. \<open>Memqueue\<close> and \<open>Pgqueue\<close> model \<open>internal/queue/memqueue\<close> and \<open>internal/queue/pgqueue\<close> (with
    \<open>migrations/\<close>) and interpret it.
  \<^item> \<open>Quote_Repo\<close>: \<open>internal/quoterepo\<close> with both stores; locale \<open>quote_repo\<close>, interpreted twice.
  \<^item> \<open>Apilayer\<close>: \<open>internal/ratesprovider/apilayer\<close> and \<open>fake\<close>, both interpreting \<open>rates_provider\<close>.
  \<^item> \<open>Backoff\<close>: \<open>internal/backoff\<close>, \<open>internal/clock\<close>, \<open>internal/idgen\<close>.
  \<^item> \<open>Worker\<close>: \<open>internal/worker/worker.go\<close>; locale \<open>worker_env\<close>, which joins the three contracts and is
    interpreted over the in-memory and over the Postgres stores. \<open>Retry\<close>: how often a job can be retried; locale
    \<open>calm_worker\<close> (\<open>worker_env\<close> with stores that answer and no foreign locks), interpreted twice as well.
  \<^item> \<open>Scheduler\<close>: \<open>internal/scheduler/scheduler.go\<close>, \<open>cmd/server/whitelist.go\<close>.
  \<^item> \<open>Api\<close>: \<open>internal/api/server.go\<close>. \<open>Job_Status\<close>: the models of \<open>internal/api/oapi_gen.go\<close> as JSON text and the union of the job
    page. \<open>Httpmw\<close>: \<open>internal/httpmw\<close>. \<open>Routes\<close>: the mux of \<open>cmd/server/main.go\<close> and of
    \<open>internal/api/oapi_gen.go\<close>, \<open>internal/api/swagger.go\<close>, the initializers of \<open>swaggerui/\<close>. \<open>Server\<close>: the parameter-decoding
    wrappers of \<open>oapi_gen.go\<close> and the whole server, from a request on the wire to the stores and back: a handler takes the
    request, the state (queue, quotes, id generator) and the world, and answers with its calls on the response writer.
  \<^item> \<open>Config\<close>: \<open>cmd/server/config.go\<close>, \<open>internal/startup/probe.go\<close>, start-up of \<open>cmd/server/main.go\<close> with its registrations. \<open>Lifecycle\<close>:
    the rest of \<open>main.go\<close>, the goroutines from start to exit as a transition system, with the connections they hold and the
    deferred \<open>pool.Close\<close>. \<open>Health\<close>: \<open>internal/health\<close>.
  \<^item> \<open>Fakeprovider\<close>: the service of \<open>cmd/fakeprovider\<close>; \<open>Fakeprocess\<close>: its \<open>main.go\<close>, as steps of its two goroutines.
  \<^item> \<open>Loadtest\<close>: \<open>loadtest/*.js\<close>. \<open>Burst\<close>: the requests of the scripts on the wire, served by the whole server.
  \<^item> This theory: properties that join the load tests, the routes and the provider client.

  \<^bold>\<open>What is shown.\<close>
  \<^item> Queue: over any interleaving of calls finished jobs never change, a leased job is not handed out twice,
    one key has one job; each statement refines the abstract queue, also when the database fails
    before or after a statement took effect; keys are equal exactly for the same pair and window.
  \<^item> Worker: no job is done without its stored quote, a due job is served by the next poll when the upstream quotes its pair, the loop never panics and keeps
    the stores well formed, each failure class has its outcome, and retries end within the attempts that are left.
  \<^item> Provider client: every pair is accounted for, one call per base, failures stop the fetch.
  \<^item> Server: a refresh end to end (middleware, routing, decoding, handler, queue, metrics), its Location leads to the job
    for good, parameters that cannot be decoded never reach a handler; a client reads from the text of a job page exactly
    what the handler rendered.
  \<^item> Metrics: start-up registers every collector without a clash, which names a scrape shows when, and no update of the worker, the scheduler or a request can
    have labels its vector does not declare.
  \<^item> API, scheduler, repository: rejected refreshes, immutable pages of finished jobs, latest quotes,
    exactly one job per pair and window, read your writes.
  \<^item> Load tests and routing: the scripts send valid requests that reach the handlers they measure, the two
    metric parsers are exact, what two of the checks really measure, and that a burst of refreshes is accepted in full and
    creates one job per window it touches.
  \<^item> When start-up panics; the order of shutdown and its exit status, that \<open>gracefulShutdown\<close> always ends and what \<open>pool.Close\<close> then
    waits for; middleware, readiness, stand-in.

  \<^bold>\<open>Bounds and termination.\<close> Every function is total. Fuel is used in one place, the JSON scanner, which starts with twice the length of
  the text and one more: \<open>json_scan_fuel\<close> shows that any larger amount gives the same result. The loops of the worker and the scheduler
  are folds over the list of events their \<open>select\<close> delivers, and a run of the process is a list of steps of its goroutines,
  so a theorem holds for every finite run;
  the non-structural recursions, the routing trie and the civil year of an instant, decrease the path and the days left.

  \<^bold>\<open>Not modelled.\<close> The minified Swagger UI bundles (third-party code); the compressed specification of \<open>oapi_gen.go\<close> (data) and its
  error types that nothing raises; log output; the Prometheus client (its registry is an argument); the size of the connection
  pool; Unicode case mapping in the coalescing key (codes are ASCII); text that Postgres cannot store and counters beyond its
  32 bits (a failing statement); sockets and context deadlines (a component sees them as the events of its \<open>select\<close> or as a failing call); test helpers. In the JSON model the zone of an
  instant that is written is UTC, and an instant that is no RFC 3339 text is left to an argument. Concurrency of several
  processes on the queue is the interleaving of their calls, each statement being atomic.
\<close>

section \<open>Properties across components\<close>

lemma plain_latest: "plain_seg ''latest''" and plain_refresh: "plain_seg ''refresh''"
  by (simp_all add: plain_seg_def)

text \<open>C31: The load tests reach the handlers they measure. Every request of the five profiles is routed to the endpoint it is meant
  for, and where a request carries a name tag (on which the latency thresholds of the options are placed) the tag is the
  very pattern the server's metrics are labelled with.\<close>

theorem profiles_reach_handlers:
  "(\<forall>p. findHandler server_routes (jq_method (get_latest p)) (request_path (get_latest p)) = Handle GetLatestQuoteEp [] (the (jq_name (get_latest p))))
   \<and> (\<forall>p. findHandler server_routes (jq_method (post_refresh p)) (request_path (post_refresh p)) = Handle RefreshQuoteEp [] (the (jq_name (post_refresh p))))
   \<and> (\<forall>w. let q = fst (mixed_request w)
          in \<exists>e. findHandler server_routes (jq_method q) (request_path q) = Handle e [] (the (jq_name q)))
   \<and> (\<exists>pat. findHandler server_routes (jq_method p4_request) (request_path p4_request) = Handle RefreshQuoteEp [] pat)
   \<and> (\<exists>pat. findHandler server_routes (jq_method get_metrics) (request_path get_metrics) = Handle MetricsEp [] pat)"
proof -
  have latest: "findHandler server_routes (jq_method (get_latest p)) (request_path (get_latest p)) = Handle GetLatestQuoteEp [] (the (jq_name (get_latest p)))" for p
    unfolding request_paths findHandler_quotes [OF plain_latest] by (simp add: get_latest_def)
  have refresh: "findHandler server_routes (jq_method (post_refresh p)) (request_path (post_refresh p)) = Handle RefreshQuoteEp [] (the (jq_name (post_refresh p)))" for p
    unfolding request_paths findHandler_quotes [OF plain_refresh] by (simp add: post_refresh_def)
  have "\<exists>p. fst (mixed_request w) = get_latest p \<or> fst (mixed_request w) = post_refresh p" for w
    by (auto simp: mixed_request_def split: prod.splits)
  with latest refresh have "\<exists>e. findHandler server_routes (jq_method (fst (mixed_request w))) (request_path (fst (mixed_request w))) = Handle e [] (the (jq_name (fst (mixed_request w))))" for w
    by metis
  moreover have "\<exists>pat. findHandler server_routes (jq_method p4_request) (request_path p4_request) = Handle RefreshQuoteEp [] pat"
    unfolding request_paths findHandler_quotes [OF plain_refresh] by (simp add: p4_request_def post_refresh_def)
  moreover have "\<exists>pat. findHandler server_routes (jq_method get_metrics) (request_path get_metrics) = Handle MetricsEp [] pat"
    unfolding request_paths using metrics_found by (simp add: get_metrics_def)
  ultimately show ?thesis using latest refresh unfolding Let_def by blast
qed

lemma PAIRS_bases: "card (Base ` set PAIRS) = 3"
proof -
  have "Base ` set PAIRS = {''USD'', ''EUR'', ''MXN''}" by (auto simp: PAIRS_def)
  then show ?thesis by simp
qed

text \<open>The metrics page of a server whose only upstream counter has the value \<open>n\<close>.\<close>

definition ok_page :: "nat \<Rightarrow> js_request \<Rightarrow> js_response" where
  "ok_page n q = \<lparr>js_status = 200, js_headers = [], js_body = Some (ok_sample ''apilayer'' n)\<rparr>"

lemma ok_page_body: "js_body (ok_page n get_metrics) = Some (join_with [CHR 0x0A] (map line_text [OkSample ''apilayer'' n]))"
  by (simp add: ok_page_def)

lemma ok_page_lines: "\<forall>l \<in> set (map line_text [OkSample ''apilayer'' n]) \<union> set (map line_text [OkSample ''apilayer'' m]). CHR 0x0A \<notin> set l"
  using show_nat_no [of "CHR 0x0A"] by (auto simp: ok_sample_def is_digit_def dq_def)

text \<open>C29: The coalescing check of profile 4 fails although coalescing works. The upstream client makes one call per distinct base,
  so a single successful batch over the whitelisted pairs, each with exactly one job, moves the counter by
  three; the check, which allows two, then fails.\<close>

theorem profile4_counts_bases:
  assumes "apilayer_FetchPairs env PAIRS s w = (Inr res, s', w')"
    and "counter MetricRatesProviderRequestsTotal [''apilayer'', ''ok''] w + 3 < 2 ^ 53"
  shows "\<exists>v. p4_setup (ok_page (counter MetricRatesProviderRequestsTotal [''apilayer'', ''ok''] w)) = Ok v
    \<and> p4_teardown (ok_page (counter MetricRatesProviderRequestsTotal [''apilayer'', ''ok''] w')) v = Ok [(''provider delta <= 2'', False)]"
proof -
  let ?a = "counter MetricRatesProviderRequestsTotal [''apilayer'', ''ok''] w" and ?b = "counter MetricRatesProviderRequestsTotal [''apilayer'', ''ok''] w'"
  have b: "?b = ?a + 3" using fetch_accounts [OF assms(1)] PAIRS_bases by simp
  have ok: "other_lines_ok [OkSample ''apilayer'' n]" for n by (simp add: other_lines_ok_def)
  have sums: "?a = sum_list (map ok_value [OkSample ''apilayer'' ?a])" "?b = sum_list (map ok_value [OkSample ''apilayer'' ?b])" by simp_all
  have le: "?a \<le> ?b" "?b < 2 ^ 53" using b assms(2) by simp_all
  from p4_delta [where ?http0.0 = "ok_page ?a" and ?http1.0 = "ok_page ?b", OF ok ok _ _ ok_page_lines sums le ok_page_body ok_page_body] show ?thesis unfolding b by simp
qed

theorem profile4_counts_bases_witness:
  "\<exists>v w'. p4_setup (ok_page 0) = Ok v
     \<and> p4_teardown (ok_page (counter MetricRatesProviderRequestsTotal [''apilayer'', ''ok''] w')) v = Ok [(''provider delta <= 2'', False)]"
proof -
  obtain m s' w' where "fetch_bases sample_al PAIRS (sorted_bases sample_al PAIRS) Map.empty 0 sample_world = (Inr m, s', w')"
    using sample_al_bases by meson
  then have "\<exists>res s' w'. apilayer_FetchPairs sample_al PAIRS 0 sample_world = (Inr res, s', w')" by (simp add: apilayer_FetchPairs_def)
  then obtain res s' w' where f: "apilayer_FetchPairs sample_al PAIRS 0 sample_world = (Inr res, s', w')" by blast
  have z: "counter MetricRatesProviderRequestsTotal [''apilayer'', ''ok''] sample_world = 0" by (simp add: counter_def sample_world_def)
  from profile4_counts_bases [OF f] show ?thesis unfolding z by auto
qed

end
